(* ===== verification/Prelude.thy ===== *)
theory Prelude
  imports Main "HOL-Library.Multiset" "HOL-Library.Word"
begin

text \<open>
  What every component shares: the C library's string functions on NUL-free strings, the signed
  reading of a \<open>char\<close>, and generic lemmas on lists and on results.

  A C string is the \<^typ>\<open>string\<close> of its bytes before the terminating NUL.  A fallible routine
  returns \<^typ>\<open>'e + 'a\<close>: \<open>Inl\<close> is the exit, the error return or the undefined behaviour that the
  source runs into, \<open>Inr\<close> its result.
\<close>

named_theorems cstring_simps \<open>equations of the C library's string functions\<close>

section \<open>Bytes\<close>

type_synonym c_string = string

text \<open>A \<open>char\<close> is signed on the platforms the code is built for.\<close>

definition schar :: "char \<Rightarrow> int" where
  "schar c = (let n = of_char c in if n < 128 then n else n - 256)"

definition uchar :: "char \<Rightarrow> int" where
  "uchar c = of_char c"

lemma uchar_range: "0 \<le> uchar c" "uchar c < 256"
proof -
  have "uchar c = int (of_char c)"
    unfolding uchar_def by (metis of_nat_of_char)
  then show "0 \<le> uchar c" "uchar c < 256"
    using nat_of_char_less_256 [of c] by linarith+
qed

lemma uchar_inj: "uchar a = uchar b \<Longrightarrow> a = b"
  by (simp add: uchar_def of_char_eq_iff)

lemma schar_inj: "schar a = schar b \<Longrightarrow> a = b"
  using uchar_range [of a] uchar_range [of b]
  by (auto simp: schar_def Let_def uchar_def of_char_eq_iff split: if_splits)

lemma schar_range: "- 128 \<le> schar c" "schar c < 128"
  using uchar_range [of c] by (auto simp: schar_def Let_def uchar_def)

definition isdigit :: "char \<Rightarrow> bool" where
  "isdigit c \<longleftrightarrow> 48 \<le> uchar c \<and> uchar c \<le> 57"

definition tolower :: "char \<Rightarrow> char" where
  "tolower c = (if 65 \<le> uchar c \<and> uchar c \<le> 90 then char_of (uchar c + 32) else c)"

definition isspace :: "char \<Rightarrow> bool" where
  "isspace c \<longleftrightarrow> uchar c = 32 \<or> 9 \<le> uchar c \<and> uchar c \<le> 13"

definition isxdigit :: "char \<Rightarrow> bool" where
  "isxdigit c \<longleftrightarrow> isdigit c \<or> 97 \<le> uchar (tolower c) \<and> uchar (tolower c) \<le> 102"

section \<open>The C library's string functions\<close>

text \<open>\<open>strsep(&str, "c")\<close>: the token up to the first \<open>c\<close>, and what \<open>str\<close> points to afterwards
  (\<open>None\<close> is \<open>NULL\<close>: the last token was taken).\<close>

fun strsep :: "char \<Rightarrow> c_string \<Rightarrow> c_string \<times> c_string option" where
  "strsep c [] = ([], None)"
| "strsep c (x # xs) =
     (if x = c then ([], Some xs) else (case strsep c xs of (t, r) \<Rightarrow> (x # t, r)))"

text \<open>\<open>strchr(s, c)\<close> as the suffix of \<open>s\<close> that starts at the match.\<close>

fun strchr :: "c_string \<Rightarrow> char \<Rightarrow> c_string option" where
  "strchr [] c = None"
| "strchr (x # xs) c = (if x = c then Some (x # xs) else strchr xs c)"

text \<open>\<open>strncmp(s, p, strlen(p)) == 0\<close> and its case-insensitive version.\<close>

definition has_prefix :: "c_string \<Rightarrow> c_string \<Rightarrow> bool" where
  "has_prefix p s \<longleftrightarrow> take (length p) s = p"

definition has_prefix_ci :: "c_string \<Rightarrow> c_string \<Rightarrow> bool" where
  "has_prefix_ci p s \<longleftrightarrow> has_prefix (map tolower p) (map tolower s)"

text \<open>\<open>strcasestr(s, p) != NULL\<close>.\<close>

fun strcasestr :: "c_string \<Rightarrow> c_string \<Rightarrow> bool" where
  "strcasestr [] p = (p = [])"
| "strcasestr (x # xs) p = (has_prefix_ci p (x # xs) \<or> strcasestr xs p)"

text \<open>\<open>strcmp\<close> compares bytes as \<open>unsigned char\<close>; only the sign of the result is used.\<close>

fun strcmp :: "c_string \<Rightarrow> c_string \<Rightarrow> int" where
  "strcmp [] [] = 0"
| "strcmp [] (b # bs) = - 1"
| "strcmp (a # as) [] = 1"
| "strcmp (a # as) (b # bs) =
     (if a = b then strcmp as bs else if uchar a < uchar b then - 1 else 1)"

text \<open>Decimal printing (\<open>%d\<close> of a non-negative value).\<close>

definition digit_char :: "nat \<Rightarrow> char" where
  "digit_char d = char_of (48 + d)"

fun show_nat :: "nat \<Rightarrow> string" where
  "show_nat n = (if n < 10 then [digit_char n] else show_nat (n div 10) @ [digit_char (n mod 10)])"

declare show_nat.simps [simp del]

definition show_int :: "int \<Rightarrow> string" where
  "show_int i = (if i < 0 then CHR ''-'' # show_nat (nat (- i)) else show_nat (nat i))"

text \<open>The value of a digit in a base of up to 16, and 99 for any other character.\<close>

definition digit_value :: "char \<Rightarrow> int" where
  "digit_value c =
     (if isdigit c then uchar c - 48
      else if isxdigit c then uchar (tolower c) - 87 else 99)"

definition PATH_MAX :: nat where
  "PATH_MAX = 1024"

definition digits_value :: "c_string \<Rightarrow> int" where
  "digits_value ds = foldl (\<lambda>v c. v * 10 + (uchar c - 48)) 0 ds"

text \<open>\<open>strtol(s, &p, 10)\<close> with a 64-bit \<open>long\<close>: the value, saturated, and the text at \<open>p\<close>.\<close>

definition strtol10 :: "c_string \<Rightarrow> int \<times> c_string" where
  "strtol10 s =
     (let t = dropWhile isspace s;
          neg = (t \<noteq> [] \<and> hd t = CHR ''-'');
          t = (if t \<noteq> [] \<and> (hd t = CHR ''-'' \<or> hd t = CHR ''+'') then tl t else t);
          ds = takeWhile isdigit t;
          v = (if neg then - digits_value ds else digits_value ds)
      in if ds = [] then (0, s) else (max (- (2 ^ 63)) (min (2 ^ 63 - 1) v), dropWhile isdigit t))"

text \<open>A wider integer cut to an \<open>int\<close>.\<close>

definition to_int :: "int \<Rightarrow> int" where
  "to_int i = sint (word_of_int i :: 32 word)"

lemma to_int_small: "- (2 ^ 31) \<le> i \<Longrightarrow> i < 2 ^ 31 \<Longrightarrow> to_int i = i"
  by (simp add: to_int_def sint_sbintrunc' signed_take_bit_int_eq_self)

section \<open>Lemmas on the string functions\<close>

lemma strsep_eq:
  "strsep c s = (takeWhile (\<lambda>x. x \<noteq> c) s,
     (case dropWhile (\<lambda>x. x \<noteq> c) s of [] \<Rightarrow> None | _ # r \<Rightarrow> Some r))"
  by (induction c s rule: strsep.induct) (auto split: list.splits prod.splits)

lemma strsep_append [cstring_simps]:
  "c \<notin> set t \<Longrightarrow> strsep c (t @ c # r) = (t, Some r)"
  by (induction t) auto

lemma strsep_last [cstring_simps]: "c \<notin> set t \<Longrightarrow> strsep c t = (t, None)"
  by (induction t) auto

lemma strsep_cases:
  obtains (last) "c \<notin> set s" "strsep c s = (s, None)"
  | (sep) t r where "s = t @ c # r" "c \<notin> set t" "strsep c s = (t, Some r)"
proof (cases "c \<in> set s")
  case True
  then obtain t r where "s = t @ c # r" "c \<notin> set t"
    by (meson split_list_first)
  then show ?thesis using sep strsep_append by metis
next
  case False
  then show ?thesis using last strsep_last by metis
qed

lemma strcmp_eq_0_iff: "strcmp a b = 0 \<longleftrightarrow> a = b"
  by (induction a b rule: strcmp.induct) auto

lemma strcmp_neg: "strcmp a b < 0 \<longleftrightarrow> 0 < strcmp b a"
  by (induction a b rule: strcmp.induct) (auto dest: uchar_inj)

lemma strcmp_trans: "strcmp a b \<le> 0 \<Longrightarrow> strcmp b c \<le> 0 \<Longrightarrow> strcmp a c \<le> 0"
proof (induction a b arbitrary: c rule: strcmp.induct)
  case (2 b bs)
  then show ?case by (cases c) auto
next
  case (4 x xs y ys)
  then show ?case by (cases c) (auto split: if_splits dest: uchar_inj)
qed auto

section \<open>Fields of a separated line\<close>

text \<open>\<open>join c fs\<close> writes fields with separators between them; \<open>strsep\<close> reads them back.\<close>

fun join :: "char \<Rightarrow> c_string list \<Rightarrow> c_string" where
  "join c [] = []"
| "join c [f] = f"
| "join c (f # g # fs) = f @ c # join c (g # fs)"

fun pieces :: "char \<Rightarrow> c_string \<Rightarrow> c_string list" where
  "pieces c [] = [[]]"
| "pieces c (x # xs) =
     (if x = c then [] # pieces c xs
      else case pieces c xs of [] \<Rightarrow> [[x]] | f # fs \<Rightarrow> (x # f) # fs)"

lemma pieces_nonempty [simp]: "pieces c s \<noteq> []"
  by (induction c s rule: pieces.induct) (auto split: list.splits)

lemma pieces_last: "c \<notin> set t \<Longrightarrow> pieces c t = [t]"
  by (induction t) auto

lemma pieces_sep: "c \<notin> set t \<Longrightarrow> pieces c (t @ c # r) = t # pieces c r"
  by (induction t) auto

lemma length_pieces: "length (pieces c s) = Suc (count_list s c)"
  by (induction c s rule: pieces.induct) (auto split: list.splits)

lemma join_pieces: "join c (pieces c s) = s"
proof (induction s rule: length_induct)
  case (1 s)
  show ?case
  proof (cases rule: strsep_cases [of c s])
    case last
    then show ?thesis by (simp add: pieces_last)
  next
    case (sep t r)
    with 1 have "join c (pieces c r) = r" by simp
    with sep show ?thesis by (cases "pieces c r") (auto simp: pieces_sep)
  qed
qed

lemma pieces_join: "fs \<noteq> [] \<Longrightarrow> \<forall>f \<in> set fs. c \<notin> set f \<Longrightarrow> pieces c (join c fs) = fs"
  by (induction c fs rule: join.induct) (auto simp: pieces_last pieces_sep)

lemma pieces_no_sep: "f \<in> set (pieces c s) \<Longrightarrow> c \<notin> set f"
  by (induction c s arbitrary: f rule: pieces.induct) (auto split: list.splits if_splits)

section \<open>Files\<close>

text \<open>\<open>fgets(buf, n, f)\<close> on the rest of a file: the bytes stored and the new rest.\<close>

fun fgets :: "nat \<Rightarrow> char list \<Rightarrow> char list \<times> char list" where
  "fgets 0 r = ([], r)"
| "fgets n [] = ([], [])"
| "fgets (Suc n) (c # r) =
     (if n = 0 then ([], c # r)
      else if c = CHR 0x0A then ([c], r)
      else (case fgets n r of (l, r) \<Rightarrow> (c # l, r)))"

lemma fgets_length: "fgets n r = (l, r') \<Longrightarrow> length l + length r' = length r"
  by (induction n r arbitrary: l r' rule: fgets.induct) (auto split: if_splits prod.splits)

lemma fgets_shorter: "(l, r') = fgets n r \<Longrightarrow> l \<noteq> [] \<Longrightarrow> length r' < length r"
  using fgets_length [of n r l r'] by (cases l) auto

lemma fgets_line: "CHR 0x0A \<notin> set l \<Longrightarrow> length l + 1 < n \<Longrightarrow> fgets n (l @ CHR 0x0A # r) = (l @ [CHR 0x0A], r)"
proof (induction l arbitrary: n)
  case Nil
  then show ?case by (cases n) auto
next
  case (Cons c l)
  then show ?case by (cases n) auto
qed

text \<open>A file with these bytes: a read inside it delivers at least one byte and at most what is asked for.\<close>

definition reads_file :: "'a list \<Rightarrow> (nat \<Rightarrow> int \<Rightarrow> nat \<Rightarrow> 'a list option) \<Rightarrow> bool" where
  "reads_file content rd \<longleftrightarrow>
     (\<forall>k pos r. 0 \<le> pos \<longrightarrow> pos < int (length content) \<longrightarrow> 0 < r \<longrightarrow>
        (\<exists>m. 0 < m \<and> m \<le> r \<and> nat pos + m \<le> length content \<and> rd k pos r = Some (take m (drop (nat pos) content))))"

section \<open>Printed numbers\<close>

lemma uchar_digit_char: "k < 10 \<Longrightarrow> uchar (digit_char k) = 48 + int k"
proof -
  assume k: "k < 10"
  have "uchar (digit_char k) = int (of_char (digit_char k))" by (simp only: uchar_def of_nat_of_char)
  also have "\<dots> = 48 + int k" using k by (simp add: digit_char_def)
  finally show ?thesis .
qed

lemma show_nat_isdigit: "list_all isdigit (show_nat n) \<and> show_nat n \<noteq> []"
proof (induction n rule: show_nat.induct)
  case (1 n)
  have "isdigit (digit_char k)" if "k < 10" for k
    using that by (simp add: isdigit_def uchar_digit_char)
  with 1 show ?case by (cases "n < 10") (simp_all add: show_nat.simps [of n])
qed

lemma digits_value_show_nat: "digits_value (show_nat n) = int n"
proof (induction n rule: show_nat.induct)
  case (1 n)
  then show ?case
    by (cases "n < 10") (simp_all add: show_nat.simps [of n] digits_value_def uchar_digit_char zdiv_int zmod_int)
qed

text \<open>When \<open>strtol\<close> reads a text to its end, and what it makes of a printed number.\<close>

lemma strtol10_reads_all:
  "snd (strtol10 s) = [] \<longleftrightarrow> s = [] \<or>
     (\<exists>sg ds. dropWhile isspace s = sg @ ds \<and> sg \<in> {[], ''-'', ''+''} \<and> ds \<noteq> [] \<and> list_all isdigit ds)"
proof -
  define t where "t = dropWhile isspace s"
  define u where "u = (if t \<noteq> [] \<and> (hd t = CHR ''-'' \<or> hd t = CHR ''+'') then tl t else t)"
  have sign: "\<not> isdigit (CHR ''-'')" "\<not> isdigit (CHR ''+'')" by (simp_all add: isdigit_def uchar_def)
  have "snd (strtol10 s) = [] \<longleftrightarrow> s = [] \<or> u \<noteq> [] \<and> list_all isdigit u"
  proof -
    have "snd (strtol10 s) = (if takeWhile isdigit u = [] then s else dropWhile isdigit u)"
      by (simp add: strtol10_def Let_def t_def u_def)
    moreover have "takeWhile isdigit u = [] \<longleftrightarrow> u = [] \<or> \<not> isdigit (hd u)" by (rule takeWhile_eq_Nil_iff)
    moreover have "dropWhile isdigit u = [] \<longleftrightarrow> list_all isdigit u"
      by (simp add: list_all_iff dropWhile_eq_Nil_conv)
    moreover have "s = [] \<Longrightarrow> u = []" by (simp add: u_def t_def)
    ultimately show ?thesis by (cases u) auto
  qed
  moreover have "u \<noteq> [] \<and> list_all isdigit u \<longleftrightarrow>
      (\<exists>sg ds. t = sg @ ds \<and> sg \<in> {[], ''-'', ''+''} \<and> ds \<noteq> [] \<and> list_all isdigit ds)"
  proof (intro iffI)
    assume "u \<noteq> [] \<and> list_all isdigit u"
    moreover have "\<exists>sg. t = sg @ u \<and> sg \<in> {[], ''-'', ''+''}" by (cases t) (auto simp: u_def)
    ultimately show "\<exists>sg ds. t = sg @ ds \<and> sg \<in> {[], ''-'', ''+''} \<and> ds \<noteq> [] \<and> list_all isdigit ds" by blast
  qed (use sign in \<open>cases t; auto simp: u_def\<close>)
  ultimately show ?thesis by (simp add: t_def)
qed

lemma strtol10_show_nat:
  assumes "n < 2 ^ 63"
  shows "strtol10 (show_nat n) = (int n, [])"
proof -
  obtain d ds where d: "show_nat n = d # ds" "isdigit d" "list_all isdigit ds"
    using show_nat_isdigit [of n] by (cases "show_nat n") auto
  then have "\<not> isspace d" "d \<noteq> CHR ''-''" "d \<noteq> CHR ''+''"
    by (auto simp: isdigit_def isspace_def uchar_def)
  moreover have tw: "takeWhile isdigit ds = ds" "dropWhile isdigit ds = []"
    using d(3) by (simp_all add: list_all_iff dropWhile_eq_Nil_conv takeWhile_eq_all_conv)
  ultimately show ?thesis
    using assms d(2) digits_value_show_nat [of n] unfolding d(1)
    by (simp add: strtol10_def tw del: takeWhile_eq_all_conv)
qed

section \<open>Lengths of printed numbers\<close>

lemma length_show_nat: "n < 10 ^ k \<Longrightarrow> 0 < k \<Longrightarrow> length (show_nat n) \<le> k"
proof (induction n arbitrary: k rule: show_nat.induct)
  case (1 n)
  show ?case
  proof (cases "n < 10")
    case True
    then show ?thesis using "1.prems" by (simp add: show_nat.simps [of n])
  next
    case False
    then obtain j where k: "k = Suc j"
      using "1.prems" by (cases k) auto
    have j: "0 < j" using False "1.prems" k by (cases j) auto
    then have "n div 10 < 10 ^ j" using "1.prems" k by (simp add: less_mult_imp_div_less mult.commute)
    then show ?thesis using "1.IH" [OF False _ j] False k by (simp add: show_nat.simps [of n])
  qed
qed

lemma length_show_nat_iff: "0 < k \<Longrightarrow> length (show_nat n) \<le> k \<longleftrightarrow> n < 10 ^ k"
proof (induction n arbitrary: k rule: show_nat.induct)
  case (1 n)
  show ?case
  proof (cases "n < 10")
    case True
    then show ?thesis using "1.prems" by (cases k) (simp_all add: show_nat.simps [of n] less_le_trans)
  next
    case False
    obtain j where k: "k = Suc j" using "1.prems" by (cases k) auto
    have "show_nat (n div 10) \<noteq> []" by (simp add: show_nat.simps [of "n div 10"])
    then show ?thesis
      using "1.IH" [OF False, of j] False k
      by (cases j) (auto simp: show_nat.simps [of n] div_less_iff_less_mult mult.commute)
  qed
qed

lemma length_show_int: "\<bar>i\<bar> < 10 ^ k \<Longrightarrow> 0 < k \<Longrightarrow> length (show_int i) \<le> k + 1"
  by (auto simp: show_int_def nat_less_iff intro!: length_show_nat [THEN le_trans])

section \<open>Lemmas on lists\<close>

text \<open>\<open>tmp = xs[i]; xs[i] = xs[j]; xs[j] = tmp\<close>\<close>

definition swap :: "'a list \<Rightarrow> nat \<Rightarrow> nat \<Rightarrow> 'a list" where
  "swap xs i j = xs[i := xs ! j, j := xs ! i]"

lemma length_swap [simp]: "length (swap xs i j) = length xs"
  by (simp add: swap_def)

lemma mset_swap_idx [simp]:
  "i < length xs \<Longrightarrow> j < length xs \<Longrightarrow> mset (swap xs i j) = mset xs"
  by (simp add: swap_def mset_swap)

lemma nth_swap:
  "i < length xs \<Longrightarrow> j < length xs \<Longrightarrow> k < length xs \<Longrightarrow>
   swap xs i j ! k = (if k = j then xs ! i else if k = i then xs ! j else xs ! k)"
  by (auto simp: swap_def nth_list_update)

lemma count_list_append_single: "count_list (t @ c # r) c = count_list t c + Suc (count_list r c)"
  by (induction t) auto

lemma count_list_notin: "c \<notin> set t \<Longrightarrow> count_list t c = 0"
  by simp

end
