(* ===== verification/Heap_Sort.thy ===== *)
theory Heap_Sort
  imports Prelude
begin

text \<open>
  The in-place heap sort that \<^verbatim>\<open>make_index.c\<close> writes out twice, once over the array of ports
  and once over a dependency list.  The sift-down step and the two loops are parameterised by the
  comparison; the two instances of the source are in \<^verbatim>\<open>Index_Sort\<close> and \<^verbatim>\<open>Index_Output\<close>.  The laws
  that the comparison owes are the locale \<open>sort_order\<close>.
\<close>

named_theorems heap_simps \<open>facts on the heap routines\<close>

section \<open>The routines\<close>

text \<open>
  \<open>heapify lt xs sz pos\<close>: the \<open>goto top\<close> loop.  \<open>i\<close> starts as \<open>pos\<close>, moves to the left and then to
  the right child where that child is larger, and the loop goes on from \<open>i\<close> after a swap.
\<close>

definition largest :: "('a \<Rightarrow> 'a \<Rightarrow> bool) \<Rightarrow> 'a list \<Rightarrow> nat \<Rightarrow> nat \<Rightarrow> nat" where
  "largest lt xs sz pos =
     (let i = pos;
          i = (if 2 * pos + 1 < sz \<and> lt (xs ! i) (xs ! (2 * pos + 1)) then 2 * pos + 1 else i);
          i = (if 2 * pos + 2 < sz \<and> lt (xs ! i) (xs ! (2 * pos + 2)) then 2 * pos + 2 else i)
      in i)"

lemma largest_cases:
  "largest lt xs sz pos = pos \<or>
   largest lt xs sz pos = 2 * pos + 1 \<and> 2 * pos + 1 < sz \<or>
   largest lt xs sz pos = 2 * pos + 2 \<and> 2 * pos + 2 < sz"
  by (auto simp: largest_def Let_def)

function heapify :: "('a \<Rightarrow> 'a \<Rightarrow> bool) \<Rightarrow> 'a list \<Rightarrow> nat \<Rightarrow> nat \<Rightarrow> 'a list" where
  "heapify lt xs sz pos =
     (let i = largest lt xs sz pos in
      if i \<noteq> pos then heapify lt (swap xs pos i) sz i else xs)"
  by pat_completeness auto
termination
proof (relation "measure (\<lambda>(lt, xs, sz, pos). sz - pos)")
  show "wf (measure (\<lambda>(lt, xs, sz, pos). sz - pos))"
    by simp
next
  fix lt :: "'a \<Rightarrow> 'a \<Rightarrow> bool" and xs :: "'a list" and sz pos i :: nat
  assume "i = largest lt xs sz pos" and "i \<noteq> pos"
  then show "((lt, swap xs pos i, sz, i), lt, xs, sz, pos)
      \<in> measure (\<lambda>(lt, xs, sz, pos). sz - pos)"
    using largest_cases [of lt xs sz pos] by auto
qed

declare heapify.simps [simp del]

text \<open>\<open>for (i = n; i > 0; i--) heapify(pp, n, i - 1)\<close>\<close>

fun build_heap :: "('a \<Rightarrow> 'a \<Rightarrow> bool) \<Rightarrow> 'a list \<Rightarrow> nat \<Rightarrow> nat \<Rightarrow> 'a list" where
  "build_heap lt xs n 0 = xs"
| "build_heap lt xs n (Suc i) = build_heap lt (heapify lt xs n i) n i"

text \<open>\<open>for (i = n - 1; i > 0; i--) { swap(pp[0], pp[i]); heapify(pp, i, 0); }\<close>\<close>

fun extract_heap :: "('a \<Rightarrow> 'a \<Rightarrow> bool) \<Rightarrow> 'a list \<Rightarrow> nat \<Rightarrow> 'a list" where
  "extract_heap lt xs 0 = xs"
| "extract_heap lt xs (Suc i) = extract_heap lt (heapify lt (swap xs 0 (Suc i)) (Suc i) 0) i"

definition heap_sort :: "('a \<Rightarrow> 'a \<Rightarrow> bool) \<Rightarrow> 'a list \<Rightarrow> 'a list" where
  "heap_sort lt xs =
     (if xs = [] then xs
      else extract_heap lt (build_heap lt xs (length xs) (length xs)) (length xs - 1))"

section \<open>The routines only move elements\<close>

lemma length_heapify [simp]: "length (heapify lt xs sz pos) = length xs"
  by (induction lt xs sz pos rule: heapify.induct)
     (subst heapify.simps, simp add: Let_def)

lemma mset_heapify [simp]:
  "sz \<le> length xs \<Longrightarrow> pos < sz \<Longrightarrow> mset (heapify lt xs sz pos) = mset xs"
proof (induction lt xs sz pos rule: heapify.induct)
  case (1 lt xs sz pos)
  let ?i = "largest lt xs sz pos"
  have "?i < sz" using largest_cases [of lt xs sz pos] "1.prems" by auto
  with 1 show ?case by (subst heapify.simps) (auto simp: Let_def)
qed

text \<open>A sift-down that starts at \<open>pos\<close> leaves everything outside \<open>[pos, sz)\<close> alone.\<close>

lemma heapify_outside [heap_simps]:
  "sz \<le> length xs \<Longrightarrow> pos < sz \<Longrightarrow> k < pos \<or> sz \<le> k \<Longrightarrow> k < length xs \<Longrightarrow>
   heapify lt xs sz pos ! k = xs ! k"
proof (induction lt xs sz pos rule: heapify.induct)
  case (1 lt xs sz pos)
  let ?i = "largest lt xs sz pos"
  have i: "?i < sz" "pos \<le> ?i" using largest_cases [of lt xs sz pos] "1.prems" by auto
  with 1 show ?case
    by (subst heapify.simps) (auto simp: Let_def nth_swap)
qed

lemma length_build_heap [simp]: "length (build_heap lt xs n i) = length xs"
  by (induction i arbitrary: xs) auto

lemma mset_build_heap [simp]:
  "n \<le> length xs \<Longrightarrow> i \<le> n \<Longrightarrow> mset (build_heap lt xs n i) = mset xs"
  by (induction i arbitrary: xs) auto

lemma length_extract_heap [simp]: "length (extract_heap lt xs i) = length xs"
  by (induction i arbitrary: xs) auto

lemma mset_extract_heap [simp]:
  "i < length xs \<Longrightarrow> mset (extract_heap lt xs i) = mset xs"
proof (induction i arbitrary: xs)
  case (Suc i)
  then have "mset (swap xs 0 (Suc i)) = mset xs"
    by (intro mset_swap_idx) auto
  with Suc show ?case by simp
qed simp

lemma mset_heap_sort [simp]: "mset (heap_sort lt xs) = mset xs"
  by (simp add: heap_sort_def)

lemma length_heap_sort [simp]: "length (heap_sort lt xs) = length xs"
  by (simp add: heap_sort_def)

lemma set_heap_sort [simp]: "set (heap_sort lt xs) = set xs"
  by (metis mset_heap_sort set_mset_mset)


text \<open>It permutes the elements inside \<open>[0, sz)\<close>.\<close>

lemma heapify_inside [heap_simps]:
  "sz \<le> length xs \<Longrightarrow> pos < sz \<Longrightarrow> a < sz \<Longrightarrow>
   \<exists>b < sz. heapify lt xs sz pos ! a = xs ! b"
proof (induction lt xs sz pos rule: heapify.induct)
  case (1 lt xs sz pos)
  let ?i = "largest lt xs sz pos"
  have i: "?i < sz" using largest_cases [of lt xs sz pos] "1.prems" by auto
  show ?case
  proof (cases "?i = pos")
    case True
    with "1.prems" show ?thesis by (subst heapify.simps) auto
  next
    case False
    with "1" i obtain b where b: "b < sz"
      "heapify lt (swap xs pos ?i) sz ?i ! a = swap xs pos ?i ! b" by auto
    have "\<exists>c < sz. swap xs pos ?i ! b = xs ! c"
      using b i "1.prems" by (auto simp: nth_swap)
    with b False show ?thesis by (subst heapify.simps) (auto simp: Let_def)
  qed
qed

section \<open>What a comparison has to satisfy\<close>

text \<open>
  The interface between the sort and a comparison: \<open>lt\<close> is asymmetric, and \<open>\<not> lt\<close> is transitive
  (a strict weak order).  \<open>precedes\<close> is the order of the result: \<open>a\<close> may stand before \<open>b\<close>.
\<close>

definition heap_at :: "('a \<Rightarrow> 'a \<Rightarrow> bool) \<Rightarrow> 'a list \<Rightarrow> nat \<Rightarrow> nat \<Rightarrow> bool" where
  "heap_at lt xs sz i \<longleftrightarrow>
     (2 * i + 1 < sz \<longrightarrow> \<not> lt (xs ! i) (xs ! (2 * i + 1))) \<and>
     (2 * i + 2 < sz \<longrightarrow> \<not> lt (xs ! i) (xs ! (2 * i + 2)))"

definition heap_from :: "('a \<Rightarrow> 'a \<Rightarrow> bool) \<Rightarrow> 'a list \<Rightarrow> nat \<Rightarrow> nat \<Rightarrow> bool" where
  "heap_from lt xs sz k \<longleftrightarrow> (\<forall>i. k \<le> i \<longrightarrow> i < sz \<longrightarrow> heap_at lt xs sz i)"

definition sorted_from :: "('a \<Rightarrow> 'a \<Rightarrow> bool) \<Rightarrow> 'a list \<Rightarrow> nat \<Rightarrow> bool" where
  "sorted_from lt xs sz \<longleftrightarrow>
     (\<forall>a b. a < b \<longrightarrow> sz \<le> b \<longrightarrow> b < length xs \<longrightarrow> \<not> lt (xs ! b) (xs ! a))"

locale sort_order =
  fixes lt :: "'a \<Rightarrow> 'a \<Rightarrow> bool"
  assumes asym: "lt a b \<Longrightarrow> \<not> lt b a"
    and ntrans: "\<not> lt a b \<Longrightarrow> \<not> lt b c \<Longrightarrow> \<not> lt a c"
begin

lemma irrefl: "\<not> lt a a"
  using asym by blast

text \<open>The value at \<open>largest\<close> is below none of the three that the step compares.\<close>

lemma step_max:
  assumes "m1 = (if p \<and> lt a b then b else a)" and "m = (if q \<and> lt m1 c then c else m1)"
  shows "p \<Longrightarrow> \<not> lt m b" "q \<Longrightarrow> \<not> lt m c" "\<not> lt m a"
proof -
  have m1: "\<not> lt m1 a" "p \<Longrightarrow> \<not> lt m1 b"
    using assms(1) asym irrefl by (auto split: if_splits)
  have m: "\<not> lt m m1" "q \<Longrightarrow> \<not> lt m c"
    using assms(2) asym irrefl by (auto split: if_splits)
  show "p \<Longrightarrow> \<not> lt m b" "\<not> lt m a"
    using m(1) m1 ntrans by blast+
  show "q \<Longrightarrow> \<not> lt m c" by (rule m(2))
qed

lemma nth_largest:
  "xs ! largest lt xs sz pos =
     (let m1 = (if 2 * pos + 1 < sz \<and> lt (xs ! pos) (xs ! (2 * pos + 1))
                then xs ! (2 * pos + 1) else xs ! pos)
      in if 2 * pos + 2 < sz \<and> lt m1 (xs ! (2 * pos + 2)) then xs ! (2 * pos + 2) else m1)"
  by (auto simp: largest_def Let_def)

lemma largest_max:
  "2 * pos + 1 < sz \<Longrightarrow> \<not> lt (xs ! largest lt xs sz pos) (xs ! (2 * pos + 1))"
  "2 * pos + 2 < sz \<Longrightarrow> \<not> lt (xs ! largest lt xs sz pos) (xs ! (2 * pos + 2))"
  "\<not> lt (xs ! largest lt xs sz pos) (xs ! pos)"
  unfolding nth_largest Let_def by (rule step_max [OF refl refl], assumption?)+

lemma heapify_heap:
  assumes "sz \<le> length xs" "k \<le> pos" "pos < sz"
    and "\<And>i. k \<le> i \<Longrightarrow> i < sz \<Longrightarrow> i \<noteq> pos \<Longrightarrow> heap_at lt xs sz i"
    and "\<And>q c. k \<le> q \<Longrightarrow> pos = 2 * q + 1 \<or> pos = 2 * q + 2 \<Longrightarrow>
           c = 2 * pos + 1 \<or> c = 2 * pos + 2 \<Longrightarrow> c < sz \<Longrightarrow> \<not> lt (xs ! q) (xs ! c)"
  shows "heap_from lt (heapify lt xs sz pos) sz k"
  using assms
proof (induction "sz - pos" arbitrary: xs pos rule: less_induct)
  case less
  let ?m = "largest lt xs sz pos"
  let ?ys = "swap xs pos ?m"
  note prems = less.prems
  show ?case
  proof (cases "?m = pos")
    case True
    then have "heap_at lt xs sz pos"
      using largest_max(1,2) by (metis heap_at_def)
    with prems(4) have "heap_from lt xs sz k"
      by (auto simp: heap_from_def)
    with True show ?thesis by (subst heapify.simps) simp
  next
    case False
    then have m: "?m < sz" "pos < ?m" "?m = 2 * pos + 1 \<or> ?m = 2 * pos + 2"
      using largest_cases [of lt xs sz pos] by auto
    have nth: "?ys ! j = (if j = ?m then xs ! pos else if j = pos then xs ! ?m else xs ! j)"
      if "j < sz" for j
      using that m prems(1) by (auto simp: nth_swap)
    have heap: "heap_at lt ?ys sz i" if i: "k \<le> i" "i < sz" "i \<noteq> ?m" for i
    proof -
      have child: "\<not> lt (?ys ! i) (?ys ! c)" if c: "c = 2 * i + 1 \<or> c = 2 * i + 2" "c < sz" for c
      proof (cases "i = pos")
        case True
        with c m nth [of c] nth [of pos] largest_max [where pos = pos and sz = sz and xs = xs] prems(3)
        show ?thesis by auto
      next
        case False
        then have old: "\<not> lt (xs ! i) (xs ! c)"
          using prems(4) [OF i(1,2)] c by (auto simp: heap_at_def)
        have up: "c = pos \<Longrightarrow> \<not> lt (xs ! i) (xs ! ?m)"
          using prems(5) [of i ?m] i c m by auto
        have "c \<noteq> ?m" using False c m by auto
        with old up False i nth [of i] nth [of c] c show ?thesis by auto
      qed
      then show ?thesis by (simp add: heap_at_def)
    qed
    have parent: "\<not> lt (?ys ! q) (?ys ! c)"
      if q: "k \<le> q" "?m = 2 * q + 1 \<or> ?m = 2 * q + 2"
        and c: "c = 2 * ?m + 1 \<or> c = 2 * ?m + 2" "c < sz" for q c
    proof -
      have "q = pos" using q(2) m(3) by auto
      moreover have "heap_at lt xs sz ?m" using prems(2,4) m by simp
      ultimately show ?thesis using c m nth [of pos] nth [of c] prems(3)
        by (auto simp: heap_at_def)
    qed
    have "heap_from lt (heapify lt ?ys sz ?m) sz k"
      by (rule less.hyps) (use prems m heap parent in auto)
    with False show ?thesis by (subst heapify.simps) (simp add: Let_def)
  qed
qed

lemma build_heap_heap:
  "n \<le> length xs \<Longrightarrow> i \<le> n \<Longrightarrow> heap_from lt xs n i \<Longrightarrow>
   heap_from lt (build_heap lt xs n i) n 0"
proof (induction i arbitrary: xs)
  case (Suc i)
  have "heap_from lt (heapify lt xs n i) n i"
    by (rule heapify_heap) (use Suc.prems in \<open>auto simp: heap_from_def\<close>)
  with Suc show ?case by simp
qed simp

text \<open>The root of a heap is below no element.\<close>

lemma heap_root_max: "heap_from lt xs sz 0 \<Longrightarrow> i < sz \<Longrightarrow> \<not> lt (xs ! 0) (xs ! i)"
proof (induction i rule: less_induct)
  case (less i)
  show ?case
  proof (cases "i = 0")
    case True
    then show ?thesis by (simp add: irrefl)
  next
    case False
    let ?q = "(i - 1) div 2"
    have q: "i = 2 * ?q + 1 \<or> i = 2 * ?q + 2" "?q < i" using False by auto
    then have "\<not> lt (xs ! 0) (xs ! ?q)" using less by simp
    moreover have "\<not> lt (xs ! ?q) (xs ! i)"
    proof -
      have "heap_at lt xs sz ?q" using less.prems q(2) by (simp add: heap_from_def)
      with q(1) less.prems(2) show ?thesis unfolding heap_at_def by metis
    qed
    ultimately show ?thesis by (rule ntrans)
  qed
qed

lemma heap_after_swap:
  "heap_from lt xs (Suc (Suc i)) 0 \<Longrightarrow> Suc i < length xs \<Longrightarrow>
   heap_from lt (heapify lt (swap xs 0 (Suc i)) (Suc i) 0) (Suc i) 0"
proof (rule heapify_heap)
  assume h: "heap_from lt xs (Suc (Suc i)) 0" and i: "Suc i < length xs"
  have nth: "swap xs 0 (Suc i) ! k = xs ! k" if "0 < k" "k < Suc i" for k
    using that i by (simp add: swap_def)
  fix k assume k: "k < Suc i" "k \<noteq> 0"
  then have "heap_at lt xs (Suc (Suc i)) k" using h by (simp add: heap_from_def)
  then show "heap_at lt (swap xs 0 (Suc i)) (Suc i) k"
    using k by (auto simp: heap_at_def nth)
qed auto

lemma extract_sorted:
  "heap_from lt xs (Suc i) 0 \<Longrightarrow> i < length xs \<Longrightarrow> sorted_from lt xs (Suc i) \<Longrightarrow>
   sorted_from lt (extract_heap lt xs i) 0"
proof (induction i arbitrary: xs)
  case 0
  then show ?case by (auto simp: sorted_from_def)
next
  case (Suc i)
  let ?ys = "swap xs 0 (Suc i)"
  let ?zs = "heapify lt ?ys (Suc i) 0"
  have len: "Suc i \<le> length ?ys" "0 < Suc i" using Suc.prems(2) by auto
  have low: "\<exists>b < Suc (Suc i). ?zs ! a = xs ! b" if a: "a < Suc i" for a
  proof -
    obtain b where b: "b < Suc i" "?zs ! a = ?ys ! b" using heapify_inside [OF len a] by blast
    moreover have "?ys ! b = (if b = 0 then xs ! Suc i else xs ! b)"
      using b(1) Suc.prems(2) by (subst nth_swap) auto
    ultimately show ?thesis by (metis lessI less_SucI)
  qed
  have high: "?zs ! b = (if b = Suc i then xs ! 0 else xs ! b)" if "Suc i \<le> b" "b < length xs" for b
  proof -
    have "?ys ! b = (if b = Suc i then xs ! 0 else xs ! b)"
      using that Suc.prems(2) by (subst nth_swap) auto
    with heapify_outside [OF len, of b "lt"] that show ?thesis by simp
  qed
  have "sorted_from lt ?zs (Suc i)"
    unfolding sorted_from_def
  proof (intro allI impI)
    fix a b
    assume ab: "a < b" "Suc i \<le> b" "b < length ?zs"
    show "\<not> lt (?zs ! b) (?zs ! a)"
    proof (cases "a < Suc i")
      case True
      then obtain a' where a': "a' < Suc (Suc i)" "?zs ! a = xs ! a'" using low by blast
      then show ?thesis using ab high [of b] heap_root_max [OF Suc.prems(1), of a'] Suc.prems(3)
        by (auto simp: sorted_from_def)
    next
      case False
      then show ?thesis using ab high [of b] high [of a] Suc.prems(3) by (auto simp: sorted_from_def)
    qed
  qed
  with heap_after_swap [OF Suc.prems(1,2)] Suc.prems(2) show ?case
    by (simp add: Suc.IH)
qed

theorem heap_sort_sorted: "sorted_wrt (\<lambda>a b. \<not> lt b a) (heap_sort lt xs)"
proof (cases "xs = []")
  case False
  let ?n = "length xs"
  let ?h = "build_heap lt xs ?n ?n"
  have "heap_from lt ?h ?n 0"
    by (rule build_heap_heap) (auto simp: heap_from_def)
  then have "sorted_from lt (extract_heap lt ?h (?n - 1)) 0"
    using False by (intro extract_sorted) (auto simp: sorted_from_def)
  then show ?thesis using False
    by (simp add: heap_sort_def sorted_wrt_iff_nth_less sorted_from_def)
qed (simp add: heap_sort_def)

end

end
