(* ===== verification/Index_Describe.thy ===== *)
theory Index_Describe
  imports Prelude
begin

text \<open>
  \<^verbatim>\<open>make_index.c\<close>, part 1: the record of a port and how one "describe" line is split into it
  (\<^verbatim>\<open>makelist\<close>, \<^verbatim>\<open>portify\<close>).

  The union \<open>DEP\<close> holds a port directory name until \<open>translateport\<close> has run and a \<open>PORT *\<close>
  afterwards, so the record is parameterised by what its dependency lists hold: \<^typ>\<open>string\<close>
  before, an index into the sorted array of ports after.  The counters \<open>n_edep\<close> \<dots> are the lengths
  of the lists.
\<close>

record 'd port =
  pkgname :: c_string
  portdir :: c_string
  prefix :: c_string
  comment :: c_string
  pkgdescr :: c_string
  maintainer :: c_string
  categories :: c_string
  edep :: "'d list"
  pdep :: "'d list"
  fdep :: "'d list"
  bdep :: "'d list"
  rdep :: "'d list"
  www :: c_string
  recursed :: nat

text \<open>The ways in which the program stops early.  \<open>Undefined\<close> is behaviour that C leaves undefined.\<close>

datatype mi_error =
  Usage
| FopenFailed c_string
| FgetlnFailed c_string
| FcloseFailed c_string
| Unterminated
| Corrupt c_string
| NoEntry c_string c_string
| Circular c_string
| Undefined string
| OutOfFuel

section \<open>makelist\<close>

text \<open>
  The loop of \<open>makelist\<close>: \<open>n\<close> times \<open>strsep(&str, " ")\<close>, then the trailing slash is stripped.
  On an empty field \<open>d[i].name[strlen(d[i].name) - 1]\<close> reads the byte before the string.
\<close>

fun makelist_loop :: "nat \<Rightarrow> c_string option \<Rightarrow> mi_error + c_string list" where
  "makelist_loop 0 str = Inr []"
| "makelist_loop (Suc n) None = Inl (Undefined ''strdup2(NULL)'')"
| "makelist_loop (Suc n) (Some str) =
     (case strsep (CHR '' '') str of (name, rest) \<Rightarrow>
        if name = [] then Inl (Undefined ''name[-1]'')
        else (let name' = (if last name = CHR ''/'' then butlast name else name) in
              case makelist_loop n rest of Inl e \<Rightarrow> Inl e | Inr d \<Rightarrow> Inr (name' # d)))"

definition makelist :: "c_string \<Rightarrow> mi_error + c_string list" where
  "makelist str =
     (if str = [] then Inr [] else makelist_loop (Suc (count_list str (CHR '' ''))) (Some str))"

section \<open>portify\<close>

text \<open>\<open>k\<close> calls of \<open>strsep(&line, "|")\<close>; \<open>None\<close> if one of them returns \<open>NULL\<close>.\<close>

fun strseps :: "char \<Rightarrow> nat \<Rightarrow> c_string option \<Rightarrow> c_string list option" where
  "strseps c 0 line = Some []"
| "strseps c (Suc k) None = None"
| "strseps c (Suc k) (Some line) =
     (case strsep c line of (t, r) \<Rightarrow> map_option (Cons t) (strseps c k r))"

definition portify :: "c_string \<Rightarrow> mi_error + c_string port" where
  "portify line =
     (if count_list line (CHR ''|'') \<noteq> 12 then Inl (Corrupt line)
      else case strseps (CHR ''|'') 13 (Some line) of
        Some [f_pkgname, f_portdir, f_prefix, f_comment, f_pkgdescr, f_maintainer, f_categories,
              f_edep, f_pdep, f_fdep, f_bdep, f_rdep, f_www] \<Rightarrow>
          (case makelist f_edep of Inl e \<Rightarrow> Inl e | Inr e \<Rightarrow>
           case makelist f_pdep of Inl e \<Rightarrow> Inl e | Inr p \<Rightarrow>
           case makelist f_fdep of Inl e \<Rightarrow> Inl e | Inr f \<Rightarrow>
           case makelist f_bdep of Inl e \<Rightarrow> Inl e | Inr b \<Rightarrow>
           case makelist f_rdep of Inl e \<Rightarrow> Inl e | Inr r \<Rightarrow>
             Inr \<lparr>pkgname = f_pkgname, portdir = f_portdir, prefix = f_prefix,
                  comment = f_comment, pkgdescr = f_pkgdescr, maintainer = f_maintainer,
                  categories = f_categories, edep = e, pdep = p, fdep = f, bdep = b, rdep = r,
                  www = f_www, recursed = 0\<rparr>)
      | _ \<Rightarrow> Inl (Undefined ''strdup2(NULL)''))"

section \<open>Fields of a separated line\<close>

lemma strseps_pieces: "strseps c (length (pieces c s)) (Some s) = Some (pieces c s)"
proof (induction s rule: length_induct)
  case (1 s)
  show ?case
  proof (cases rule: strsep_cases [of c s])
    case last
    then show ?thesis by (simp add: pieces_last)
  next
    case (sep t r)
    with 1 show ?thesis by (simp add: pieces_sep strsep_append)
  qed
qed

section \<open>What makelist returns\<close>

definition strip_slash :: "c_string \<Rightarrow> c_string" where
  "strip_slash f = (if last f = CHR ''/'' then butlast f else f)"

lemma makelist_loop_fields:
  "makelist_loop (length (pieces (CHR '' '') s)) (Some s) =
     (if [] \<in> set (pieces (CHR '' '') s) then Inl (Undefined ''name[-1]'')
      else Inr (map strip_slash (pieces (CHR '' '') s)))"
proof (induction s rule: length_induct)
  case (1 s)
  show ?case
  proof (cases rule: strsep_cases [of "CHR '' ''" s])
    case last
    then show ?thesis by (simp add: pieces_last strip_slash_def Let_def)
  next
    case (sep t r)
    with 1 have "makelist_loop (length (pieces (CHR '' '') r)) (Some r) =
      (if [] \<in> set (pieces (CHR '' '') r) then Inl (Undefined ''name[-1]'')
       else Inr (map strip_slash (pieces (CHR '' '') r)))" by simp
    with sep show ?thesis
      by (simp add: pieces_sep strsep_append strip_slash_def Let_def)
  qed
qed

lemma makelist_eq:
  "makelist s =
     (if s = [] then Inr []
      else if [] \<in> set (pieces (CHR '' '') s) then Inl (Undefined ''name[-1]'')
      else Inr (map strip_slash (pieces (CHR '' '') s)))"
  using makelist_loop_fields [of s] by (simp add: makelist_def length_pieces)

text \<open>A list of names that \<open>makelist\<close> reads back as it was written.\<close>

definition dep_name :: "c_string \<Rightarrow> bool" where
  "dep_name f \<longleftrightarrow> f \<noteq> [] \<and> CHR '' '' \<notin> set f \<and> CHR ''|'' \<notin> set f \<and> last f \<noteq> CHR ''/''"

lemma makelist_join: "\<forall>f \<in> set fs. dep_name f \<Longrightarrow> makelist (join (CHR '' '') fs) = Inr fs"
proof (cases "fs = []")
  case True
  then show ?thesis by (simp add: makelist_eq)
next
  case False
  assume *: "\<forall>f \<in> set fs. dep_name f"
  have "map strip_slash fs = fs"
    using * by (induction fs) (auto simp: strip_slash_def dep_name_def)
  moreover have "join (CHR '' '') fs \<noteq> []"
    using False * by (auto simp: dep_name_def elim!: join.elims)
  moreover have "pieces (CHR '' '') (join (CHR '' '') fs) = fs"
    using False * by (intro pieces_join) (auto simp: dep_name_def)
  ultimately show ?thesis using * by (auto simp: makelist_eq dep_name_def)
qed

lemma join_no_sep: "\<forall>f \<in> set fs. d \<notin> set f \<Longrightarrow> d \<noteq> c \<Longrightarrow> d \<notin> set (join c fs)"
  by (induction c fs rule: join.induct) auto

section \<open>What portify returns\<close>

text \<open>The five dependency fields of a line, and when \<open>makelist\<close> accepts one.\<close>

definition dep_fields :: "c_string \<Rightarrow> c_string list" where
  "dep_fields line = take 5 (drop 7 (pieces (CHR ''|'') line))"

definition dep_field_ok :: "c_string \<Rightarrow> bool" where
  "dep_field_ok f \<longleftrightarrow> f = [] \<or> [] \<notin> set (pieces (CHR '' '') f)"

definition dep_list :: "c_string \<Rightarrow> c_string list" where
  "dep_list f = (if f = [] then [] else map strip_slash (pieces (CHR '' '') f))"

lemma makelist_cases:
  "makelist f = (if dep_field_ok f then Inr (dep_list f) else Inl (Undefined ''name[-1]''))"
  by (simp add: makelist_eq dep_field_ok_def dep_list_def)

lemma length_13:
  "length xs = 13 \<Longrightarrow> \<exists>a b c d e f g h i j k l m. xs = [a, b, c, d, e, f, g, h, i, j, k, l, m]"
  by (simp add: eval_nat_numeral length_Suc_conv) blast

lemma strseps_13:
  assumes "count_list line (CHR ''|'') = 12"
  shows "strseps (CHR ''|'') 13 (Some line) = Some (pieces (CHR ''|'') line)"
    and "length (pieces (CHR ''|'') line) = 13"
  using strseps_pieces [of "CHR ''|''" line] assms by (simp_all add: length_pieces)

lemma portify_result:
  assumes "pieces (CHR ''|'') line = [a, b, c, d, e, f, g, h, i, j, k, l, m]"
  shows "portify line =
     (if list_all dep_field_ok [h, i, j, k, l]
      then Inr \<lparr>pkgname = a, portdir = b, prefix = c, comment = d, pkgdescr = e, maintainer = f,
                categories = g, edep = dep_list h, pdep = dep_list i, fdep = dep_list j,
                bdep = dep_list k, rdep = dep_list l, www = m, recursed = 0\<rparr>
      else Inl (Undefined ''name[-1]''))"
proof -
  have "count_list line (CHR ''|'') = 12"
    using length_pieces [of "CHR ''|''" line] assms by simp
  with assms show ?thesis
    by (simp add: portify_def strseps_13 makelist_cases)
qed

text \<open>The describe line of a port whose dependencies are still names.\<close>

definition describe_line :: "c_string port \<Rightarrow> c_string" where
  "describe_line p = join (CHR ''|'')
     [pkgname p, portdir p, prefix p, comment p, pkgdescr p, maintainer p, categories p,
      join (CHR '' '') (edep p), join (CHR '' '') (pdep p), join (CHR '' '') (fdep p),
      join (CHR '' '') (bdep p), join (CHR '' '') (rdep p), www p]"

definition describable :: "c_string port \<Rightarrow> bool" where
  "describable p \<longleftrightarrow>
     (\<forall>f \<in> set [pkgname p, portdir p, prefix p, comment p, pkgdescr p, maintainer p,
        categories p, www p]. CHR ''|'' \<notin> set f) \<and>
     (\<forall>f \<in> set (edep p @ pdep p @ fdep p @ bdep p @ rdep p). dep_name f) \<and>
     recursed p = 0"

lemma join_deps_no_bar:
  "\<forall>f \<in> set fs. dep_name f \<Longrightarrow> CHR ''|'' \<notin> set (join (CHR '' '') fs)"
  by (rule join_no_sep) (auto simp: dep_name_def)

lemma fields_describe_line:
  assumes "describable p"
  shows "pieces (CHR ''|'') (describe_line p) =
     [pkgname p, portdir p, prefix p, comment p, pkgdescr p, maintainer p, categories p,
      join (CHR '' '') (edep p), join (CHR '' '') (pdep p), join (CHR '' '') (fdep p),
      join (CHR '' '') (bdep p), join (CHR '' '') (rdep p), www p]"
  unfolding describe_line_def
  by (rule pieces_join) (use assms in \<open>auto simp: describable_def join_deps_no_bar\<close>)

lemma dep_list_join:
  assumes "\<forall>f \<in> set fs. dep_name f"
  shows "dep_field_ok (join (CHR '' '') fs)" "dep_list (join (CHR '' '') fs) = fs"
  using makelist_join [OF assms] by (auto simp: makelist_cases split: if_splits)

lemma portify_describe_line:
  "describable p \<Longrightarrow> portify (describe_line p) = Inr p"
proof -
  assume p: "describable p"
  then have "\<forall>f \<in> set (edep p). dep_name f" "\<forall>f \<in> set (pdep p). dep_name f"
    "\<forall>f \<in> set (fdep p). dep_name f" "\<forall>f \<in> set (bdep p). dep_name f"
    "\<forall>f \<in> set (rdep p). dep_name f" "recursed p = 0"
    by (auto simp: describable_def)
  then show ?thesis
    by (simp add: portify_result [OF fields_describe_line [OF p]] dep_list_join)
qed

text \<open>C32: A describe line whose thirteen fields hold no bar and whose dependency names are
  well formed is split by \<open>portify\<close> into exactly the port it was written from.\<close>

theorem portify_roundtrip:
  "describable p \<Longrightarrow> portify (describe_line p) = Inr p"
  by (rule portify_describe_line)

definition sample_port :: "c_string port" where
  "sample_port = \<lparr>pkgname = ''a-1'', portdir = ''x/a'', prefix = ''/usr'', comment = ''c'',
     pkgdescr = ''d'', maintainer = ''m'', categories = ''x'', edep = [], pdep = [], fdep = [],
     bdep = [''x/b''], rdep = [''x/b'', ''y/c''], www = [], recursed = 0\<rparr>"

theorem portify_roundtrip_witness:
  "describable sample_port \<and> portify (describe_line sample_port) = Inr sample_port"
proof -
  have "describable sample_port"
    by (simp add: describable_def sample_port_def dep_name_def)
  then show ?thesis using portify_roundtrip by blast
qed

text \<open>\<open>portify\<close> stops with the corrupt-line message exactly when the line does not have twelve
  bars; otherwise it returns a port exactly when none of the five dependency fields has an empty
  name, and on an empty name (two spaces, or a space at an end) it runs into the read of the byte
  before the string.  It never hands \<open>NULL\<close> to \<open>strdup2\<close>.\<close>

theorem portify_outcomes:
  "(portify line = Inl (Corrupt line) \<longleftrightarrow> count_list line (CHR ''|'') \<noteq> 12) \<and>
   ((\<exists>p. portify line = Inr p) \<longleftrightarrow>
      count_list line (CHR ''|'') = 12 \<and> list_all dep_field_ok (dep_fields line)) \<and>
   (portify line = Inl (Undefined ''name[-1]'') \<longleftrightarrow>
      count_list line (CHR ''|'') = 12 \<and> \<not> list_all dep_field_ok (dep_fields line)) \<and>
   portify line \<noteq> Inl (Undefined ''strdup2(NULL)'')"
proof (cases "count_list line (CHR ''|'') = 12")
  case True
  then obtain a b c d e f g h i j k l m
    where fs: "pieces (CHR ''|'') line = [a, b, c, d, e, f, g, h, i, j, k, l, m]"
    using length_13 [OF strseps_13(2) [OF True]] by blast
  then have "dep_fields line = [h, i, j, k, l]"
    by (simp add: dep_fields_def)
  with True fs show ?thesis by (auto simp: portify_result)
next
  case False
  then show ?thesis by (simp add: portify_def)
qed

end
