(* ===== verification/Index_Sort.thy ===== *)
theory Index_Sort
  imports Heap_Sort Index_Describe
begin

text \<open>
  \<^verbatim>\<open>make_index.c\<close>, part 2: the order on port directories (\<^verbatim>\<open>portcompare\<close>), the heap sort of the
  array of ports (\<^verbatim>\<open>heapifyports\<close> and step 2 of \<^verbatim>\<open>main\<close>), and the binary search that turns names
  into ports (\<^verbatim>\<open>findport\<close>, \<^verbatim>\<open>translateport\<close> and step 3 of \<^verbatim>\<open>main\<close>).
\<close>

section \<open>portcompare\<close>

fun portcompare :: "c_string \<Rightarrow> c_string \<Rightarrow> int" where
  "portcompare [] [] = 0"
| "portcompare [] (b # bs) = - 1"
| "portcompare (a # as) [] = 1"
| "portcompare (a # as) (b # bs) =
     (if a = b then portcompare as bs
      else if a = CHR ''/'' then - 1
      else if b = CHR ''/'' then 1
      else if schar a < schar b then - 1
      else 1)"

lemma portcompare_0: "portcompare a b = 0 \<longleftrightarrow> a = b"
  by (induction a b rule: portcompare.induct) auto

lemma portcompare_swap: "portcompare b a = - portcompare a b"
  by (induction a b rule: portcompare.induct) (auto dest: schar_inj)

lemma portcompare_range: "portcompare a b \<in> {- 1, 0, 1}"
  by (induction a b rule: portcompare.induct) auto

text \<open>
  The reference: directories are compared component by component, each component byte by byte, the
  way a directory listing would be sorted category first.
\<close>

definition bytes_less :: "(c_string \<times> c_string) set" where
  "bytes_less = lexord {(a, b). schar a < schar b}"

definition dir_less :: "c_string \<Rightarrow> c_string \<Rightarrow> bool" where
  "dir_less a b \<longleftrightarrow>
     (pieces (CHR ''/'') a, pieces (CHR ''/'') b) \<in> lexord bytes_less"

lemma bytes_less_Nil [simp]: "([], bs) \<in> bytes_less \<longleftrightarrow> bs \<noteq> []" "(as, []) \<notin> bytes_less"
  by (auto simp: bytes_less_def neq_Nil_conv)

lemma bytes_less_Cons [simp]:
  "(a # as, b # bs) \<in> bytes_less \<longleftrightarrow> schar a < schar b \<or> a = b \<and> (as, bs) \<in> bytes_less"
  by (simp add: bytes_less_def)

lemma dir_less_Nil: "dir_less a [] \<longleftrightarrow> False"
  by (cases a) (auto simp: dir_less_def split: list.splits)

lemma dir_less_Nil_Cons: "dir_less [] (b # bs)"
proof (cases "pieces (CHR ''/'') bs")
  case (Cons f fs)
  then show ?thesis by (auto simp: dir_less_def)
qed simp

lemma dir_less_Cons:
  "dir_less (a # as) (b # bs) \<longleftrightarrow>
     (if a = b then dir_less as bs
      else if a = CHR ''/'' then True
      else if b = CHR ''/'' then False
      else schar a < schar b)"
  by (auto simp: dir_less_def split: list.splits)

text \<open>\<open>portcompare\<close> is negative exactly when the first directory comes first in the
  component-wise order (a category that is a prefix of another one comes first), zero exactly on
  equal strings, and positive exactly in the other direction.\<close>

theorem portcompare_dir_less:
  "(portcompare a b < 0 \<longleftrightarrow> dir_less a b) \<and>
   (portcompare a b = 0 \<longleftrightarrow> a = b) \<and>
   (0 < portcompare a b \<longleftrightarrow> dir_less b a)"
proof -
  have neg: "portcompare a b < 0 \<longleftrightarrow> dir_less a b" for a b
    by (induction a b rule: portcompare.induct)
       (auto simp: dir_less_Nil dir_less_Nil_Cons dir_less_Cons)
  have "0 < portcompare a b \<longleftrightarrow> portcompare b a < 0"
    by (simp add: portcompare_swap [of b a])
  then show ?thesis by (simp add: neg portcompare_0)
qed

text \<open>Its value is an order key, which gives transitivity.\<close>

definition slash_key :: "char \<Rightarrow> int" where
  "slash_key c = (if c = CHR ''/'' then - 129 else schar c)"

lemma slash_key_inj: "slash_key a = slash_key b \<longleftrightarrow> a = b"
  using schar_range [of a] schar_range [of b] by (auto simp: slash_key_def dest: schar_inj)

lemma portcompare_key:
  "portcompare (a # as) (b # bs) =
     (if a = b then portcompare as bs else if slash_key a < slash_key b then - 1 else 1)"
  using schar_range [of a] schar_range [of b] by (auto simp: slash_key_def)

lemma portcompare_trans: "portcompare a b \<le> 0 \<Longrightarrow> portcompare b c \<le> 0 \<Longrightarrow> portcompare a c \<le> 0"
proof (induction a b arbitrary: c rule: portcompare.induct)
  case (2 b bs)
  then show ?case by (cases c) auto
next
  case (4 x xs y ys)
  then show ?case
    by (cases c) (auto simp: portcompare_key slash_key_inj simp del: portcompare.simps(4)
      split: if_splits)
qed auto

section \<open>Sorting the ports\<close>

definition port_less :: "'d port \<Rightarrow> 'd port \<Rightarrow> bool" where
  "port_less p q \<longleftrightarrow> portcompare (portdir p) (portdir q) < 0"

definition heapifyports :: "'d port list \<Rightarrow> nat \<Rightarrow> nat \<Rightarrow> 'd port list" where
  "heapifyports pp sz pos = heapify port_less pp sz pos"

text \<open>Step 2 of \<open>main\<close> (only reached with at least one port).\<close>

definition sort_ports :: "'d port list \<Rightarrow> 'd port list" where
  "sort_ports pp = heap_sort port_less pp"

interpretation ports: sort_order "port_less :: 'd port \<Rightarrow> 'd port \<Rightarrow> bool"
proof unfold_locales
  fix a b c :: "'d port"
  show "\<not> port_less b a" if "port_less a b"
    using that portcompare_swap [of "portdir a" "portdir b"] by (simp add: port_less_def)
  show "\<not> port_less a c" if "\<not> port_less a b" "\<not> port_less b c"
    using that portcompare_trans [of "portdir c" "portdir b" "portdir a"]
      portcompare_swap [of "portdir a" "portdir b"] portcompare_swap [of "portdir b" "portdir c"]
      portcompare_swap [of "portdir a" "portdir c"]
    by (simp add: port_less_def)
qed

definition ports_sorted :: "'d port list \<Rightarrow> bool" where
  "ports_sorted pp \<longleftrightarrow> sorted_wrt (\<lambda>p q. portcompare (portdir p) (portdir q) \<le> 0) pp"

lemma sort_ports_sorted: "ports_sorted (sort_ports pp)"
proof -
  have "sorted_wrt (\<lambda>p q. \<not> port_less q p) (sort_ports pp)"
    unfolding sort_ports_def by (rule ports.heap_sort_sorted)
  then show ?thesis
    unfolding ports_sorted_def
    by (rule sorted_wrt_mono_rel [rotated])
       (metis linorder_not_less neg_0_less_iff_less port_less_def portcompare_swap)
qed

text \<open>The sort of step 2 returns the same ports, ordered by \<open>portcompare\<close> of their
  directories.\<close>

theorem sort_ports_correct:
  "mset (sort_ports pp) = mset pp \<and> ports_sorted (sort_ports pp)"
  by (simp add: sort_ports_sorted) (simp add: sort_ports_def)

lemma set_sort_ports [simp]: "set (sort_ports pp) = set pp"
  by (simp add: sort_ports_def)

lemma length_sort_ports [simp]: "length (sort_ports pp) = length pp"
  by (simp add: sort_ports_def)

section \<open>findport\<close>

text \<open>
  The binary search over \<open>pp[st] \<dots> pp[en - 1]\<close>; the result is the index of the port.  The callers
  start with \<open>st = 0 \<le> en\<close>, and \<open>st \<le> en\<close> is kept, so \<open>en < st\<close> does not arise.
\<close>

function findport :: "'d port list \<Rightarrow> nat \<Rightarrow> nat \<Rightarrow> c_string \<Rightarrow> c_string \<Rightarrow> mi_error + nat" where
  "findport pp st en name from =
     (if st = en then Inl (NoEntry from name)
      else if en < st then Inl (Undefined ''st > en'')
      else (let mid = (st + en) div 2;
                r = portcompare (portdir (pp ! mid)) name
            in if r = 0 then Inr mid
               else if r < 0 then findport pp (mid + 1) en name from
               else findport pp st mid name from))"
  by pat_completeness auto
termination
  by (relation "measure (\<lambda>(pp, st, en, name, from). en - st)") auto

declare findport.simps [simp del]

lemma sorted_dirs:
  "ports_sorted pp \<Longrightarrow> i \<le> j \<Longrightarrow> j < length pp \<Longrightarrow>
   portcompare (portdir (pp ! i)) (portdir (pp ! j)) \<le> 0"
proof (cases "i = j")
  case True
  then show ?thesis using portcompare_0 [of "portdir (pp ! j)" "portdir (pp ! j)"] by simp
qed (auto simp: ports_sorted_def sorted_wrt_iff_nth_less)

lemma findport_range:
  "st \<le> en \<Longrightarrow> en \<le> length pp \<Longrightarrow> findport pp st en name from = Inr i \<Longrightarrow>
   st \<le> i \<and> i < en \<and> portdir (pp ! i) = name"
proof (induction pp st en name "from" rule: findport.induct)
  case (1 pp st en name "from")
  note def = findport.simps [of pp st en name "from"]
  let ?mid = "(st + en) div 2"
  have "st \<noteq> en" using "1.prems"(3) def by auto
  with "1.prems"(1) have mid: "st \<le> ?mid" "?mid < en" "\<not> en < st" by auto
  then show ?case
    using "1.prems" "1.IH" \<open>st \<noteq> en\<close>
    by (fastforce simp: def Let_def portcompare_0 split: if_splits)
qed

lemma findport_none:
  "ports_sorted pp \<Longrightarrow> st \<le> en \<Longrightarrow> en \<le> length pp \<Longrightarrow> findport pp st en name from = Inl e \<Longrightarrow>
   e = NoEntry from name \<and> (\<forall>i. st \<le> i \<longrightarrow> i < en \<longrightarrow> portdir (pp ! i) \<noteq> name)"
proof (induction pp st en name "from" rule: findport.induct)
  case (1 pp st en name "from")
  note def = findport.simps [of pp st en name "from"]
  let ?mid = "(st + en) div 2"
  let ?r = "portcompare (portdir (pp ! ?mid)) name"
  show ?case
  proof (cases "st = en")
    case True
    with "1.prems" def show ?thesis by auto
  next
    case False
    with "1.prems" have mid: "st \<le> ?mid" "?mid < en" "\<not> en < st" by auto
    have "?r \<noteq> 0" using def False mid "1.prems" by auto
    then consider "?r < 0" | "0 < ?r" by linarith
    then show ?thesis
    proof cases
      case 1
      have IH: "e = NoEntry from name \<and> (\<forall>i. ?mid + 1 \<le> i \<longrightarrow> i < en \<longrightarrow> portdir (pp ! i) \<noteq> name)"
        by (rule "1.IH"(1) [OF False mid(3) refl refl \<open>?r \<noteq> 0\<close> 1 "1.prems"(1)])
           (use mid "1.prems" def False 1 in \<open>auto simp: Let_def\<close>)
      have "portdir (pp ! i) \<noteq> name" if "i \<le> ?mid" for i
        using sorted_dirs [OF "1.prems"(1) that] 1 mid "1.prems"(3)
          portcompare_swap [of "portdir (pp ! i)" "portdir (pp ! ?mid)"] by auto
      with IH show ?thesis by (metis Suc_eq_plus1 not_less_eq_eq)
    next
      case 2
      have IH: "e = NoEntry from name \<and> (\<forall>i. st \<le> i \<longrightarrow> i < ?mid \<longrightarrow> portdir (pp ! i) \<noteq> name)"
        by (rule "1.IH"(2) [OF False mid(3) refl refl \<open>?r \<noteq> 0\<close> _ "1.prems"(1)])
           (use mid "1.prems" def False 2 in \<open>auto simp: Let_def\<close>)
      have "portdir (pp ! i) \<noteq> name" if "?mid \<le> i" "i < en" for i
        using sorted_dirs [OF "1.prems"(1) that(1)] that 2 "1.prems"(3) by auto
      with IH show ?thesis by (metis not_less)
    qed
  qed
qed

text \<open>C30: On sorted ports the binary search over the whole array returns a port whose directory is
  the name, and ends with the "no entry" message exactly when there is none.\<close>

theorem findport_correct:
  assumes "ports_sorted pp"
  shows "(case findport pp 0 (length pp) name from of
            Inr i \<Rightarrow> i < length pp \<and> portdir (pp ! i) = name
          | Inl e \<Rightarrow> e = NoEntry from name \<and> name \<notin> portdir ` set pp)"
  using findport_range [of 0 "length pp" pp name "from"]
    findport_none [OF assms, of 0 "length pp" name "from"]
  by (auto split: sum.splits simp: in_set_conv_nth)

definition find_sample :: "c_string port list" where
  "find_sample = sort_ports
     [sample_port\<lparr>portdir := ''x-2/a''\<rparr>, sample_port\<lparr>portdir := ''x/b''\<rparr>, sample_port]"

theorem findport_correct_witness:
  "ports_sorted find_sample \<and>
   (case findport find_sample 0 (length find_sample) ''x/b'' ''x/a'' of
      Inr i \<Rightarrow> i < length find_sample \<and> portdir (find_sample ! i) = ''x/b''
    | Inl e \<Rightarrow> e = NoEntry ''x/a'' ''x/b'' \<and> ''x/b'' \<notin> portdir ` set find_sample)"
proof -
  have "ports_sorted find_sample" by (simp add: find_sample_def sort_ports_sorted)
  then show ?thesis using findport_correct by blast
qed

section \<open>translateport\<close>

text \<open>One of the five loops of \<open>translateport\<close>; the first missing entry ends the program.\<close>

fun translate_deps ::
  "'d port list \<Rightarrow> nat \<Rightarrow> c_string \<Rightarrow> c_string list \<Rightarrow> mi_error + nat list" where
  "translate_deps pp pplen from [] = Inr []"
| "translate_deps pp pplen from (name # ds) =
     (case findport pp 0 pplen name from of Inl e \<Rightarrow> Inl e | Inr i \<Rightarrow>
      case translate_deps pp pplen from ds of Inl e \<Rightarrow> Inl e | Inr is \<Rightarrow> Inr (i # is))"

definition retype_port ::
  "c_string port \<Rightarrow> nat list \<Rightarrow> nat list \<Rightarrow> nat list \<Rightarrow> nat list \<Rightarrow> nat list \<Rightarrow> nat port" where
  "retype_port p e pd f b r =
     \<lparr>pkgname = pkgname p, portdir = portdir p, prefix = prefix p, comment = comment p,
      pkgdescr = pkgdescr p, maintainer = maintainer p, categories = categories p,
      edep = e, pdep = pd, fdep = f, bdep = b, rdep = r, www = www p, recursed = recursed p\<rparr>"

definition translateport ::
  "c_string port list \<Rightarrow> nat \<Rightarrow> c_string port \<Rightarrow> mi_error + nat port" where
  "translateport pp pplen p =
     (case translate_deps pp pplen (portdir p) (edep p) of Inl e \<Rightarrow> Inl e | Inr e \<Rightarrow>
      case translate_deps pp pplen (portdir p) (pdep p) of Inl e \<Rightarrow> Inl e | Inr pd \<Rightarrow>
      case translate_deps pp pplen (portdir p) (fdep p) of Inl e \<Rightarrow> Inl e | Inr f \<Rightarrow>
      case translate_deps pp pplen (portdir p) (bdep p) of Inl e \<Rightarrow> Inl e | Inr b \<Rightarrow>
      case translate_deps pp pplen (portdir p) (rdep p) of Inl e \<Rightarrow> Inl e | Inr r \<Rightarrow>
        Inr (retype_port p e pd f b r))"

text \<open>Step 3 of \<open>main\<close>.  The search only reads directories, which no step of the loop writes.\<close>

fun translate_all ::
  "c_string port list \<Rightarrow> c_string port list \<Rightarrow> mi_error + nat port list" where
  "translate_all pp [] = Inr []"
| "translate_all pp (p # ps) =
     (case translateport pp (length pp) p of Inl e \<Rightarrow> Inl e | Inr q \<Rightarrow>
      case translate_all pp ps of Inl e \<Rightarrow> Inl e | Inr qs \<Rightarrow> Inr (q # qs))"

text \<open>A dependency list and the names it was translated from.\<close>

definition names_of :: "'d port list \<Rightarrow> nat list \<Rightarrow> c_string list \<Rightarrow> bool" where
  "names_of pp is ns \<longleftrightarrow> list_all2 (\<lambda>i n. i < length pp \<and> portdir (pp ! i) = n) is ns"

lemma translate_deps_Inr:
  "translate_deps pp (length pp) from ns = Inr is \<Longrightarrow> names_of pp is ns"
proof (induction pp "length pp" "from" ns arbitrary: "is" rule: translate_deps.induct)
  case (2 pp "from" name ds)
  then show ?case
    using findport_range [of 0 "length pp" pp name "from"]
    by (auto simp: names_of_def split: sum.splits)
qed (simp add: names_of_def)

lemma translate_deps_Inl:
  "ports_sorted pp \<Longrightarrow> translate_deps pp (length pp) from ns = Inl e \<Longrightarrow>
   \<exists>n \<in> set ns. e = NoEntry from n \<and> n \<notin> portdir ` set pp"
proof (induction pp "length pp" "from" ns rule: translate_deps.induct)
  case (2 pp "from" name ds)
  from 2 show ?case
    using findport_none [of pp 0 "length pp" name "from"]
    by (auto split: sum.splits simp: in_set_conv_nth)
qed simp

definition all_deps :: "'d port \<Rightarrow> 'd list" where
  "all_deps p = edep p @ pdep p @ fdep p @ bdep p @ rdep p"

definition translated :: "'d port list \<Rightarrow> c_string port \<Rightarrow> nat port \<Rightarrow> bool" where
  "translated pp p q \<longleftrightarrow>
     names_of pp (edep q) (edep p) \<and> names_of pp (pdep q) (pdep p) \<and>
     names_of pp (fdep q) (fdep p) \<and> names_of pp (bdep q) (bdep p) \<and>
     names_of pp (rdep q) (rdep p) \<and>
     q = retype_port p (edep q) (pdep q) (fdep q) (bdep q) (rdep q)"

lemma translateport_Inr: "translateport pp (length pp) p = Inr q \<Longrightarrow> translated pp p q"
  by (auto simp: translateport_def translated_def retype_port_def split: sum.splits
      dest!: translate_deps_Inr)

lemma translateport_Inl:
  "ports_sorted pp \<Longrightarrow> translateport pp (length pp) p = Inl e \<Longrightarrow>
   \<exists>n \<in> set (all_deps p). e = NoEntry (portdir p) n \<and> n \<notin> portdir ` set pp"
  by (auto simp: translateport_def all_deps_def split: sum.splits dest!: translate_deps_Inl)

lemma translate_all_Inr:
  "translate_all pp ps = Inr qs \<Longrightarrow> list_all2 (translated pp) ps qs"
  by (induction pp ps arbitrary: qs rule: translate_all.induct)
     (auto split: sum.splits dest: translateport_Inr)

lemma translate_all_Inl:
  "ports_sorted pp \<Longrightarrow> translate_all pp ps = Inl e \<Longrightarrow>
   \<exists>p \<in> set ps. \<exists>n \<in> set (all_deps p). e = NoEntry (portdir p) n \<and> n \<notin> portdir ` set pp"
  by (induction pp ps rule: translate_all.induct)
     (auto split: sum.splits dest: translateport_Inl)

text \<open>Step 3 on sorted ports either replaces every dependency name by the index of a port with
  that directory and changes nothing else, or reports a dependency of some port that names no
  port; it succeeds exactly when every name has an entry.\<close>

theorem translate_all_correct:
  assumes "ports_sorted pp"
  shows "case translate_all pp pp of
           Inr qs \<Rightarrow> list_all2 (translated pp) pp qs
         | Inl e \<Rightarrow> \<exists>p \<in> set pp. \<exists>n \<in> set (all_deps p).
                     e = NoEntry (portdir p) n \<and> n \<notin> portdir ` set pp"
  using translate_all_Inr [of pp pp] translate_all_Inl [OF assms, of pp]
  by (auto split: sum.splits)

theorem translate_all_correct_witness:
  "ports_sorted find_sample \<and>
   (case translate_all find_sample find_sample of
      Inr qs \<Rightarrow> list_all2 (translated find_sample) find_sample qs
    | Inl e \<Rightarrow> \<exists>p \<in> set find_sample. \<exists>n \<in> set (all_deps p).
                e = NoEntry (portdir p) n \<and> n \<notin> portdir ` set find_sample)"
proof -
  have "ports_sorted find_sample" by (simp add: find_sample_def sort_ports_sorted)
  then show ?thesis using translate_all_correct by blast
qed

end
