(* ===== verification/Index_Closure.thy ===== *)
theory Index_Closure
  imports Index_Sort
begin

text \<open>
  \<^verbatim>\<open>make_index.c\<close>, part 3: the transitive closure of the dependency lists (\<^verbatim>\<open>recurse_one\<close>,
  \<^verbatim>\<open>recurse\<close> and step 4 of \<^verbatim>\<open>main\<close>).

  The ports are a store, indexed by the pointers that the dependency lists hold.  A list under
  construction is the array \<open>d[0 .. N-1]\<close> together with the number \<open>nd\<close> of allocated entries, so
  that a write past the allocation is an outcome of the model.
\<close>

type_synonym store = "nat port list"

section \<open>The code\<close>

text \<open>
  The two inner loops of \<open>recurse_one\<close>: each entry of the other port's run-time dependencies that
  is not among \<open>d[0 .. N-1]\<close> is stored at \<open>k = N\<close>, after \<open>N++\<close> and after the array was doubled
  if \<open>N >= *nd\<close>.
\<close>

fun merge_rdeps :: "nat list \<Rightarrow> nat list \<times> nat \<Rightarrow> mi_error + nat list \<times> nat" where
  "merge_rdeps [] (d, nd) = Inr (d, nd)"
| "merge_rdeps (q # qs) (d, nd) =
     (if q \<in> set d then merge_rdeps qs (d, nd)
      else (let k = length d;
                N = k + 1;
                nd' = (if N \<ge> nd then nd + nd else nd)
            in if k < nd' then merge_rdeps qs (d @ [q], nd')
               else Inl (Undefined ''d[k] past the allocation'')))"

text \<open>The five lists of a port, in the order in which \<open>recurse\<close> expands them.\<close>

datatype deplist = EDep | PDep | FDep | BDep | RDep

fun get_deps :: "deplist \<Rightarrow> 'd port \<Rightarrow> 'd list" where
  "get_deps EDep p = edep p"
| "get_deps PDep p = pdep p"
| "get_deps FDep p = fdep p"
| "get_deps BDep p = bdep p"
| "get_deps RDep p = rdep p"

fun set_deps :: "deplist \<Rightarrow> 'd list \<Rightarrow> 'd port \<Rightarrow> 'd port" where
  "set_deps EDep d p = p\<lparr>edep := d\<rparr>"
| "set_deps PDep d p = p\<lparr>pdep := d\<rparr>"
| "set_deps FDep d p = p\<lparr>fdep := d\<rparr>"
| "set_deps BDep d p = p\<lparr>bdep := d\<rparr>"
| "set_deps RDep d p = p\<lparr>rdep := d\<rparr>"

text \<open>
  \<open>recurse_one\<close> runs over the first \<open>n\<close> entries of \<open>d\<close>, which the loop body never changes, so the
  loop is a recursion over them.  The nested calls of \<open>recurse\<close> are the argument \<open>rec\<close>, which
  \<open>recurse\<close> ties back to itself.
\<close>

type_synonym rec_call = "store \<Rightarrow> nat \<Rightarrow> mi_error + store"

fun recurse_loop ::
  "rec_call \<Rightarrow> store \<Rightarrow> nat list \<Rightarrow> nat list \<times> nat \<Rightarrow> mi_error + store \<times> nat list" where
  "recurse_loop rec pp [] acc = Inr (pp, fst acc)"
| "recurse_loop rec pp (x # xs) acc =
     (case rec pp x of Inl e \<Rightarrow> Inl e | Inr pp' \<Rightarrow>
      case merge_rdeps (rdep (pp' ! x)) acc of Inl e \<Rightarrow> Inl e | Inr acc' \<Rightarrow>
        recurse_loop rec pp' xs acc')"

definition recurse_one :: "rec_call \<Rightarrow> store \<Rightarrow> nat list \<Rightarrow> mi_error + store \<times> nat list" where
  "recurse_one rec pp d = recurse_loop rec pp d (d, length d)"

text \<open>The statements \<open>p->xdep = recurse_one(p->xdep, &p->n_xdep)\<close>, for a sequence of lists.\<close>

fun recurse_lists :: "rec_call \<Rightarrow> store \<Rightarrow> nat \<Rightarrow> deplist list \<Rightarrow> mi_error + store" where
  "recurse_lists rec pp p [] = Inr pp"
| "recurse_lists rec pp p (k # ks) =
     (case recurse_one rec pp (get_deps k (pp ! p)) of
        Inl e \<Rightarrow> Inl e
      | Inr (pp', d) \<Rightarrow> recurse_lists rec (pp'[p := set_deps k d (pp' ! p)]) p ks)"

text \<open>
  \<open>recurse\<close> of the port with index \<open>p\<close>.  Fuel bounds the nesting of its calls; step 4 starts with
  one more than there are ports, which \<open>close_all_correct\<close> shows to be enough.
\<close>

fun recurse :: "nat \<Rightarrow> store \<Rightarrow> nat \<Rightarrow> mi_error + store" where
  "recurse 0 pp p = Inl OutOfFuel"
| "recurse (Suc fuel) pp p =
     (if recursed (pp ! p) = 1 then Inl (Circular (pkgname (pp ! p)))
      else if recursed (pp ! p) = 2 then Inr pp
      else (let pp = (if recursed (pp ! p) = 0 then pp[p := (pp ! p)\<lparr>recursed := 1\<rparr>] else pp) in
        case recurse_lists (recurse fuel) pp p [EDep, PDep, FDep, BDep, RDep] of
          Inl e \<Rightarrow> Inl e
        | Inr pp \<Rightarrow> Inr (pp[p := (pp ! p)\<lparr>recursed := 2\<rparr>])))"

text \<open>Step 4 of \<open>main\<close>.\<close>

fun recurse_all :: "nat \<Rightarrow> store \<Rightarrow> nat list \<Rightarrow> mi_error + store" where
  "recurse_all fuel pp [] = Inr pp"
| "recurse_all fuel pp (i # is) =
     (case recurse fuel pp i of Inl e \<Rightarrow> Inl e | Inr pp' \<Rightarrow> recurse_all fuel pp' is)"

definition close_all :: "store \<Rightarrow> mi_error + store" where
  "close_all pp = recurse_all (Suc (length pp)) pp [0..<length pp]"

section \<open>The array never overflows\<close>

lemma merge_rdeps_ok:
  assumes "0 < nd" "length d \<le> nd"
  shows "\<exists>ext nd'. merge_rdeps qs (d, nd) = Inr (d @ ext, nd') \<and>
           length (d @ ext) \<le> nd' \<and> 0 < nd' \<and> distinct ext \<and> set ext = set qs - set d"
  using assms
proof (induction qs arbitrary: d nd)
  case (Cons q qs)
  show ?case
  proof (cases "q \<in> set d")
    case True
    with Cons.IH [OF Cons.prems] show ?thesis by (simp add: insert_Diff_if)
  next
    case False
    let ?nd = "if length d + 1 \<ge> nd then nd + nd else nd"
    have room: "length d < ?nd" "0 < ?nd" "length (d @ [q]) \<le> ?nd"
      using Cons.prems by auto
    obtain ext nd' where ext: "merge_rdeps qs (d @ [q], ?nd) = Inr ((d @ [q]) @ ext, nd')"
      "length ((d @ [q]) @ ext) \<le> nd'" "0 < nd'" "distinct ext" "set ext = set qs - set (d @ [q])"
      using Cons.IH [OF room(2,3)] by blast
    with False room show ?thesis
      by (intro exI [of _ "q # ext"] exI [of _ nd']) (auto simp: Let_def)
  qed
qed simp

section \<open>The graph of the dependencies\<close>

text \<open>\<open>dep_edges\<close>: port to port through any of the five lists; \<open>run_edges\<close>: through the run-time
  list only.\<close>

definition dep_edges :: "store \<Rightarrow> (nat \<times> nat) set" where
  "dep_edges st = {(x, y). x < length st \<and> y \<in> set (all_deps (st ! x))}"

definition run_edges :: "store \<Rightarrow> (nat \<times> nat) set" where
  "run_edges st = {(x, y). x < length st \<and> y \<in> set (rdep (st ! x))}"

definition fresh_store :: "store \<Rightarrow> bool" where
  "fresh_store st \<longleftrightarrow>
     (\<forall>p \<in> set st. recursed p = 0 \<and> (\<forall>y \<in> set (all_deps p). y < length st))"

text \<open>\<open>expanded st0 d d'\<close>: the list \<open>d\<close> of the initial store, completed by every port that some
  entry reaches over run-time dependencies, each added once and behind the original entries.\<close>

definition expanded :: "store \<Rightarrow> nat list \<Rightarrow> nat list \<Rightarrow> bool" where
  "expanded st0 d d' \<longleftrightarrow>
     (\<exists>ext. d' = d @ ext \<and> distinct ext \<and> set ext \<inter> set d = {}) \<and>
     set d' = (run_edges st0)\<^sup>* `` set d"

lemma in_all_deps: "y \<in> set (all_deps p) \<longleftrightarrow> (\<exists>k. y \<in> set (get_deps k p))"
proof
  assume "y \<in> set (all_deps p)"
  then show "\<exists>k. y \<in> set (get_deps k p)"
    using get_deps.simps unfolding all_deps_def set_append Un_iff by metis
next
  assume "\<exists>k. y \<in> set (get_deps k p)"
  then obtain k where "y \<in> set (get_deps k p)" by blast
  then show "y \<in> set (all_deps p)" by (cases k) (auto simp: all_deps_def)
qed

lemma dep_edgesI: "x < length st \<Longrightarrow> y \<in> set (get_deps k (st ! x)) \<Longrightarrow> (x, y) \<in> dep_edges st"
  by (auto simp: dep_edges_def in_all_deps)

lemma dep_edges_iff:
  "(x, y) \<in> dep_edges st \<longleftrightarrow> x < length st \<and> (\<exists>k. y \<in> set (get_deps k (st ! x)))"
  by (auto simp: dep_edges_def in_all_deps)

lemma run_edges_dep: "run_edges st \<subseteq> dep_edges st"
  by (auto simp: run_edges_def dep_edges_def all_deps_def)

lemma get_set_deps [simp]:
  "get_deps k (set_deps k' d p) = (if k = k' then d else get_deps k p)"
  by (cases k; cases k') auto

lemma recursed_set_deps [simp]: "recursed (set_deps k d p) = recursed p"
  by (cases k) auto

lemma get_deps_recursed [simp]: "get_deps k (p\<lparr>recursed := r\<rparr>) = get_deps k p"
  by (cases k) auto

text \<open>Everything but the lists and the mark.\<close>

definition port_info :: "'d port \<Rightarrow> c_string list" where
  "port_info p = [pkgname p, portdir p, prefix p, comment p, pkgdescr p, maintainer p,
     categories p, www p]"

lemma port_info_simps [simp]:
  "port_info (set_deps k d p) = port_info p" "port_info (p\<lparr>recursed := r\<rparr>) = port_info p"
  by (cases k) (auto simp: port_info_def)

lemma port_info_pkgname: "port_info p = port_info q \<Longrightarrow> pkgname p = pkgname q"
  by (simp add: port_info_def)

section \<open>The invariant of the search\<close>

definition done_port :: "store \<Rightarrow> store \<Rightarrow> nat \<Rightarrow> bool" where
  "done_port st0 st x \<longleftrightarrow>
     (\<forall>k. expanded st0 (get_deps k (st0 ! x)) (get_deps k (st ! x))) \<and>
     (\<forall>y. (x, y) \<in> dep_edges st0 \<longrightarrow> recursed (st ! y) = 2) \<and>
     (x, x) \<notin> (dep_edges st0)\<^sup>+"

definition search_inv :: "store \<Rightarrow> store \<Rightarrow> bool" where
  "search_inv st0 st \<longleftrightarrow>
     length st = length st0 \<and>
     (\<forall>x < length st0. port_info (st ! x) = port_info (st0 ! x) \<and>
        recursed (st ! x) \<le> 2 \<and>
        (recursed (st ! x) = 0 \<longrightarrow> (\<forall>k. get_deps k (st ! x) = get_deps k (st0 ! x))) \<and>
        (recursed (st ! x) = 2 \<longrightarrow> done_port st0 st x))"

text \<open>What a call may change: only ports that it found unvisited, and it leaves none half done.\<close>

definition search_frame :: "store \<Rightarrow> store \<Rightarrow> bool" where
  "search_frame st st' \<longleftrightarrow>
     (\<forall>x < length st. recursed (st ! x) \<noteq> 0 \<longrightarrow> st' ! x = st ! x) \<and>
     (\<forall>x < length st. recursed (st ! x) = 0 \<longrightarrow> recursed (st' ! x) \<noteq> 1)"

definition open_ports :: "store \<Rightarrow> nat set" where
  "open_ports st = {x. x < length st \<and> recursed (st ! x) = 1}"

definition new_ports :: "store \<Rightarrow> nat set" where
  "new_ports st = {x. x < length st \<and> recursed (st ! x) = 0}"

definition cycle_error :: "store \<Rightarrow> mi_error \<Rightarrow> bool" where
  "cycle_error st0 e \<longleftrightarrow>
     (\<exists>p < length st0. e = Circular (pkgname (st0 ! p)) \<and> (p, p) \<in> (dep_edges st0)\<^sup>+)"

text \<open>What one call of \<open>recurse\<close> owes its caller, with \<open>f\<close> levels of fuel.\<close>

definition rec_ok :: "store \<Rightarrow> nat \<Rightarrow> rec_call \<Rightarrow> bool" where
  "rec_ok st0 f rec \<longleftrightarrow>
     (\<forall>st x. search_inv st0 st \<longrightarrow> x < length st0 \<longrightarrow>
        (\<forall>g \<in> open_ports st. (g, x) \<in> (dep_edges st0)\<^sup>+) \<longrightarrow> card (new_ports st) < f \<longrightarrow>
        (case rec st x of
           Inr st' \<Rightarrow> search_inv st0 st' \<and> search_frame st st' \<and> recursed (st' ! x) = 2
         | Inl e \<Rightarrow> cycle_error st0 e))"

lemma search_frame_refl: "search_frame st st"
  by (simp add: search_frame_def)

lemma search_frame_trans:
  "search_frame a b \<Longrightarrow> search_frame b c \<Longrightarrow> length b = length a \<Longrightarrow> search_frame a c"
  unfolding search_frame_def by metis

lemma finite_new_ports [simp]: "finite (new_ports st)"
  by (simp add: new_ports_def)

lemma frame_new_ports: "search_frame st st' \<Longrightarrow> length st' = length st \<Longrightarrow> new_ports st' \<subseteq> new_ports st"
  by (auto simp: search_frame_def new_ports_def)

lemma frame_open_ports:
  "search_frame st st' \<Longrightarrow> length st' = length st \<Longrightarrow> open_ports st' = open_ports st"
  by (auto simp: search_frame_def open_ports_def)

lemma search_inv_length: "search_inv st0 st \<Longrightarrow> length st = length st0"
  by (simp add: search_inv_def)

text \<open>The ports that are done are closed under the dependencies.\<close>

lemma done_closed:
  "(x, y) \<in> (dep_edges st0)\<^sup>* \<Longrightarrow> fresh_store st0 \<Longrightarrow> search_inv st0 st \<Longrightarrow> x < length st0 \<Longrightarrow>
   recursed (st ! x) = 2 \<Longrightarrow> y < length st0 \<and> recursed (st ! y) = 2"
proof (induction rule: rtrancl_induct)
  case (step y z)
  then have "done_port st0 st y" by (simp add: search_inv_def)
  moreover have "z < length st0"
    using step by (auto simp: dep_edges_def fresh_store_def)
  ultimately show ?case using step by (auto simp: done_port_def)
qed auto


section \<open>The loops\<close>

lemma run_reach_step: "R\<^sup>* `` (R `` {x}) = R\<^sup>+ `` {x}"
  by (auto simp: trancl_unfold_left)

lemma run_edges_Image: "x < length st \<Longrightarrow> run_edges st `` {x} = set (rdep (st ! x))"
  by (auto simp: run_edges_def)

lemma done_rdep:
  assumes "search_inv st0 st" "x < length st0" "recursed (st ! x) = 2"
  shows "set (rdep (st ! x)) = (run_edges st0)\<^sup>+ `` {x}"
proof -
  have "expanded st0 (get_deps RDep (st0 ! x)) (get_deps RDep (st ! x))"
    using assms unfolding search_inv_def done_port_def by blast
  then have "set (rdep (st ! x)) = (run_edges st0)\<^sup>* `` set (rdep (st0 ! x))"
    by (simp add: expanded_def)
  with assms(2) show ?thesis by (simp add: run_reach_step flip: run_edges_Image)
qed

lemma reach_image: "R\<^sup>* `` A = A \<union> (\<Union>x\<in>A. R\<^sup>+ `` {x})"
  by (auto simp: rtrancl_eq_or_trancl)

definition loop_post :: "store \<Rightarrow> store \<Rightarrow> nat list \<Rightarrow> nat list \<Rightarrow> mi_error + store \<times> nat list \<Rightarrow> bool" where
  "loop_post st0 st xs d r \<longleftrightarrow>
     (case r of
        Inl e \<Rightarrow> cycle_error st0 e
      | Inr (st', d') \<Rightarrow> search_inv st0 st' \<and> search_frame st st' \<and>
          (\<forall>x \<in> set xs. recursed (st' ! x) = 2) \<and>
          (\<exists>ext. d' = d @ ext \<and> distinct ext \<and>
             set ext = (\<Union>x \<in> set xs. (run_edges st0)\<^sup>+ `` {x}) - set d))"

lemma recurse_loop_ok:
  assumes "rec_ok st0 f rec" "search_inv st0 st" "set xs \<subseteq> {..<length st0}"
    "\<forall>x \<in> set xs. \<forall>g \<in> open_ports st. (g, x) \<in> (dep_edges st0)\<^sup>+"
    "card (new_ports st) < f" "xs = [] \<or> 0 < nd" "length d \<le> nd"
  shows "loop_post st0 st xs d (recurse_loop rec st xs (d, nd))"
  using assms(2-)
proof (induction xs arbitrary: st d nd)
  case Nil
  then show ?case by (simp add: loop_post_def search_frame_refl)
next
  case (Cons x xs)
  show ?case
  proof (cases "rec st x")
    case (Inl e)
    with assms(1) Cons.prems have "cycle_error st0 e"
      unfolding rec_ok_def by fastforce
    with Inl show ?thesis by (simp add: loop_post_def)
  next
    case (Inr st1)
    with assms(1) Cons.prems
    have st1: "search_inv st0 st1" "search_frame st st1" "recursed (st1 ! x) = 2"
      unfolding rec_ok_def by fastforce+
    have len: "length st1 = length st" "x < length st0"
      using st1(1) Cons.prems by (auto simp: search_inv_def)
    have opn: "open_ports st1 = open_ports st" and new: "new_ports st1 \<subseteq> new_ports st"
      using frame_open_ports frame_new_ports st1(2) len(1) by blast+
    then have card: "card (new_ports st1) < f"
      using Cons.prems(4) card_mono [OF finite_new_ports new] by simp
    obtain ext nd' where m: "merge_rdeps (rdep (st1 ! x)) (d, nd) = Inr (d @ ext, nd')"
      "length (d @ ext) \<le> nd'" "0 < nd'" "distinct ext" "set ext = set (rdep (st1 ! x)) - set d"
      using merge_rdeps_ok Cons.prems(5,6) by (metis list.distinct(1))
    have ext: "set ext = (run_edges st0)\<^sup>+ `` {x} - set d"
      using m(5) done_rdep [OF st1(1) len(2) st1(3)] by simp
    have IH: "loop_post st0 st1 xs (d @ ext) (recurse_loop rec st1 xs (d @ ext, nd'))"
      using Cons.IH [OF st1(1) _ _ card _ m(2)] m(3) Cons.prems(2,3) opn by simp
    have keep: "recursed (st2 ! x) = 2" if "search_frame st1 st2" for st2
      using that st1(3) len search_inv_length [OF st1(1)] by (auto simp: search_frame_def)
    show ?thesis
    proof (cases "recurse_loop rec st1 xs (d @ ext, nd')")
      case (Inl e)
      with IH Inr m(1) show ?thesis by (simp add: loop_post_def)
    next
      case r: (Inr sd)
      obtain st2 d2 where sd: "sd = (st2, d2)" by (cases sd)
      obtain ext2 where e2: "search_inv st0 st2" "search_frame st1 st2"
        "\<forall>x \<in> set xs. recursed (st2 ! x) = 2" "d2 = (d @ ext) @ ext2" "distinct ext2"
        "set ext2 = (\<Union>x \<in> set xs. (run_edges st0)\<^sup>+ `` {x}) - set (d @ ext)"
        using IH r sd by (auto simp: loop_post_def)
      have "distinct (ext @ ext2)" using m(4) e2(5,6) by auto
      moreover have "set (ext @ ext2) = (\<Union>x \<in> set (x # xs). (run_edges st0)\<^sup>+ `` {x}) - set d"
        using ext e2(6) by auto
      moreover have "search_frame st st2"
        using search_frame_trans st1(2) e2(2) len(1) by blast
      ultimately show ?thesis
        using Inr m(1) r sd e2 keep by (simp add: loop_post_def)
    qed
  qed
qed

text \<open>While the five lists of the port \<open>p\<close> are expanded, one after the other.\<close>

definition frame_but :: "nat \<Rightarrow> store \<Rightarrow> store \<Rightarrow> bool" where
  "frame_but p st st' \<longleftrightarrow>
     (\<forall>x < length st. x \<noteq> p \<longrightarrow>
        (recursed (st ! x) \<noteq> 0 \<longrightarrow> st' ! x = st ! x) \<and>
        (recursed (st ! x) = 0 \<longrightarrow> recursed (st' ! x) \<noteq> 1))"

definition lists_post :: "store \<Rightarrow> store \<Rightarrow> nat \<Rightarrow> deplist list \<Rightarrow> mi_error + store \<Rightarrow> bool" where
  "lists_post st0 st p ks r \<longleftrightarrow>
     (case r of
        Inl e \<Rightarrow> cycle_error st0 e
      | Inr st' \<Rightarrow> search_inv st0 st' \<and> recursed (st' ! p) = 1 \<and> frame_but p st st' \<and>
          (\<forall>k \<in> set ks. expanded st0 (get_deps k (st0 ! p)) (get_deps k (st' ! p)) \<and>
             (\<forall>y \<in> set (get_deps k (st0 ! p)). recursed (st' ! y) = 2)) \<and>
          (\<forall>k. k \<notin> set ks \<longrightarrow> get_deps k (st' ! p) = get_deps k (st ! p)))"

lemma search_inv_set_deps:
  assumes "search_inv st0 st" "recursed (st ! p) = 1" "p < length st0"
  shows "search_inv st0 (st[p := set_deps k d (st ! p)])" (is "search_inv st0 ?st")
proof -
  have len: "length st = length st0" using assms(1) by (rule search_inv_length)
  have rec: "recursed (?st ! x) = recursed (st ! x)" for x
    using assms(3) len by (cases "x = p") auto
  have other: "?st ! x = st ! x" if "x \<noteq> p" for x using that by simp
  have dn: "done_port st0 ?st x" if "x < length st0" "recursed (st ! x) = 2" for x
  proof -
    have "x \<noteq> p" using that(2) assms(2) by auto
    moreover have "done_port st0 st x" using assms(1) that by (simp add: search_inv_def)
    ultimately show ?thesis unfolding done_port_def rec by (simp add: other)
  qed
  have info: "port_info (?st ! x) = port_info (st0 ! x)" if "x < length st0" for x
    using assms(1,3) that len by (cases "x = p") (simp_all add: search_inv_def)
  have deps: "get_deps k' (?st ! x) = get_deps k' (st0 ! x)"
    if "x < length st0" "recursed (st ! x) = 0" for x k'
    using assms(1,2) that by (cases "x = p") (simp_all add: search_inv_def)
  have le: "recursed (st ! x) \<le> 2" if "x < length st0" for x
    using assms(1) that by (simp add: search_inv_def)
  have len1: "length ?st = length st0" using len by simp
  show ?thesis
    unfolding search_inv_def rec
    apply (intro conjI allI impI)
        apply (rule len1)
       apply (erule info)
      apply (erule le)
     apply (erule (1) deps)
    apply (erule (1) dn)
    done
qed

lemma fresh_deps_lt:
  assumes "fresh_store st0" "x < length st0" "y \<in> set (get_deps k (st0 ! x))"
  shows "y < length st0"
proof -
  have "st0 ! x \<in> set st0" using assms(2) by simp
  moreover have "y \<in> set (all_deps (st0 ! x))" using assms(3) in_all_deps by metis
  ultimately show ?thesis using assms(1) by (simp add: fresh_store_def)
qed

lemma expandedI:
  "d' = d @ ext \<Longrightarrow> distinct ext \<Longrightarrow>
   set ext = (\<Union>x \<in> set d. (run_edges st0)\<^sup>+ `` {x}) - set d \<Longrightarrow> expanded st0 d d'"
  unfolding expanded_def reach_image by (intro conjI exI [of _ ext]) (simp_all, blast+)

lemma recurse_lists_ok:
  assumes "rec_ok st0 f rec" "fresh_store st0" "p < length st0"
    "search_inv st0 st" "recursed (st ! p) = 1" "distinct ks"
    "\<forall>g \<in> open_ports st. g = p \<or> (g, p) \<in> (dep_edges st0)\<^sup>+" "card (new_ports st) < f"
    "\<forall>k \<in> set ks. get_deps k (st ! p) = get_deps k (st0 ! p)"
  shows "lists_post st0 st p ks (recurse_lists rec st p ks)"
  using assms(4-)
proof (induction ks arbitrary: st)
  case Nil
  then show ?case by (simp add: lists_post_def frame_but_def)
next
  case (Cons k ks)
  let ?d = "get_deps k (st0 ! p)"
  have d: "get_deps k (st ! p) = ?d" using Cons.prems(6) by simp
  have reach: "(g, x) \<in> (dep_edges st0)\<^sup>+" if "x \<in> set ?d" "g \<in> open_ports st" for x g
    using that Cons.prems(4) dep_edgesI [OF assms(3) that(1)]
    by (metis r_into_trancl' trancl.trancl_into_trancl)
  have loop: "loop_post st0 st ?d ?d (recurse_one rec st ?d)"
    unfolding recurse_one_def
    by (rule recurse_loop_ok [OF assms(1) Cons.prems(1)])
      (use reach fresh_deps_lt [OF assms(2,3)] Cons.prems(5) in auto)
  show ?case
  proof (cases "recurse_one rec st ?d")
    case (Inl e)
    with loop d show ?thesis by (simp add: lists_post_def loop_post_def)
  next
    case (Inr sd)
    obtain st1 d1 where sd: "sd = (st1, d1)" by (cases sd)
    obtain ext where one: "search_inv st0 st1" "search_frame st st1"
      "\<forall>x \<in> set ?d. recursed (st1 ! x) = 2" "d1 = ?d @ ext" "distinct ext"
      "set ext = (\<Union>x \<in> set ?d. (run_edges st0)\<^sup>+ `` {x}) - set ?d"
      using loop Inr sd by (auto simp: loop_post_def)
    let ?st = "st1[p := set_deps k d1 (st1 ! p)]"
    have len: "length st1 = length st0" "length st = length st0"
      using one(1) Cons.prems(1) by (auto dest: search_inv_length)
    have same: "st1 ! p = st ! p" using one(2) Cons.prems(2) assms(3) len by (simp add: search_frame_def)
    have inv: "search_inv st0 ?st" "recursed (?st ! p) = 1"
      using search_inv_set_deps [OF one(1) _ assms(3)] same Cons.prems(2) len assms(3) by simp_all
    have rec: "recursed (?st ! x) = recursed (st1 ! x)" for x
      using len assms(3) by (cases "x = p") auto
    have opn: "open_ports ?st = open_ports st" "new_ports ?st \<subseteq> new_ports st"
      using frame_open_ports [OF one(2)] frame_new_ports [OF one(2)] rec len
      by (auto simp: open_ports_def new_ports_def)
    have card: "card (new_ports ?st) < f"
      using Cons.prems(5) card_mono [OF finite_new_ports opn(2)] by simp
    have frame: "frame_but p st ?st"
      using one(2) unfolding frame_but_def search_frame_def by simp
    have IH: "lists_post st0 ?st p ks (recurse_lists rec ?st p ks)"
      by (rule Cons.IH [OF inv _ _ card]) (use Cons.prems opn same len assms(3) in auto)
    show ?thesis
    proof (cases "recurse_lists rec ?st p ks")
      case (Inl e)
      with IH Inr sd d show ?thesis by (simp add: lists_post_def)
    next
      case r: (Inr st2)
      have two: "search_inv st0 st2" "recursed (st2 ! p) = 1" "frame_but p ?st st2"
        "\<forall>k \<in> set ks. expanded st0 (get_deps k (st0 ! p)) (get_deps k (st2 ! p)) \<and>
             (\<forall>y \<in> set (get_deps k (st0 ! p)). recursed (st2 ! y) = 2)"
        "\<forall>k. k \<notin> set ks \<longrightarrow> get_deps k (st2 ! p) = get_deps k (?st ! p)"
        using IH r by (simp_all add: lists_post_def)
      have "get_deps k (st2 ! p) = d1"
        using two(5) Cons.prems(3) len assms(3) by simp
      then have exp: "expanded st0 ?d (get_deps k (st2 ! p))"
        using expandedI [OF one(4-6)] by simp
      have fin: "recursed (st2 ! y) = 2" if "y \<in> set ?d" for y
      proof -
        have "recursed (?st ! y) = 2" "y < length ?st"
          using one(3) rec that fresh_deps_lt [OF assms(2,3) that] len by simp_all
        moreover from this inv(2) have "y \<noteq> p" by auto
        ultimately have "st2 ! y = ?st ! y"
          using two(3) unfolding frame_but_def by (simp del: nth_list_update)
        with \<open>recursed (?st ! y) = 2\<close> show ?thesis by simp
      qed
      have "frame_but p st st2"
        using frame two(3) len unfolding frame_but_def by (metis length_list_update)
      moreover have "get_deps k' (st2 ! p) = get_deps k' (st ! p)" if "k' \<notin> set (k # ks)" for k'
        using two(5) that same len assms(3) by auto
      ultimately show ?thesis
        using r Inr sd d two exp fin by (simp add: lists_post_def)
    qed
  qed
qed

section \<open>The recursion\<close>

lemma search_inv_mark1:
  assumes "search_inv st0 st" "recursed (st ! p) = 0" "p < length st0"
  shows "search_inv st0 (st[p := (st ! p)\<lparr>recursed := 1\<rparr>])" (is "search_inv st0 ?st")
proof -
  have len: "length st = length st0" using assms(1) by (rule search_inv_length)
  have other: "?st ! x = st ! x" if "x \<noteq> p" for x using that by simp
  have two: "recursed (st ! x) = 2 \<Longrightarrow> recursed (?st ! x) = 2" for x
    using assms(2) other by (cases "x = p") auto
  have "done_port st0 ?st x" if "done_port st0 st x" "x \<noteq> p" for x
    using that two unfolding done_port_def by (simp add: other)
  then have "port_info (?st ! x) = port_info (st0 ! x) \<and> recursed (?st ! x) \<le> 2 \<and>
      (recursed (?st ! x) = 0 \<longrightarrow> (\<forall>k. get_deps k (?st ! x) = get_deps k (st0 ! x))) \<and>
      (recursed (?st ! x) = 2 \<longrightarrow> done_port st0 ?st x)" if "x < length st0" for x
    using assms that len by (cases "x = p") (simp_all add: search_inv_def)
  then show ?thesis unfolding search_inv_def using len by simp
qed

lemma search_inv_mark2:
  assumes "search_inv st0 st" "recursed (st ! p) = 1" "p < length st0" "fresh_store st0"
    "\<forall>k. expanded st0 (get_deps k (st0 ! p)) (get_deps k (st ! p)) \<and>
       (\<forall>y \<in> set (get_deps k (st0 ! p)). recursed (st ! y) = 2)"
  shows "search_inv st0 (st[p := (st ! p)\<lparr>recursed := 2\<rparr>])" (is "search_inv st0 ?st")
proof -
  have len: "length st = length st0" using assms(1) by (rule search_inv_length)
  have other: "?st ! x = st ! x" if "x \<noteq> p" for x using that by simp
  have at: "?st ! p = (st ! p)\<lparr>recursed := 2\<rparr>" using len assms(3) by simp
  have two: "recursed (st ! x) = 2 \<Longrightarrow> recursed (?st ! x) = 2" for x
    using at other by (cases "x = p") auto
  have acyclic: "(p, p) \<notin> (dep_edges st0)\<^sup>+"
  proof
    assume "(p, p) \<in> (dep_edges st0)\<^sup>+"
    then obtain y where y: "(p, y) \<in> dep_edges st0" "(y, p) \<in> (dep_edges st0)\<^sup>*"
      by (meson tranclD)
    then have "recursed (st ! y) = 2" "y < length st0"
      using assms(5) fresh_deps_lt [OF assms(4)] by (auto simp: dep_edges_iff)
    then show False
      using done_closed [OF y(2) assms(4,1)] assms(2) by simp
  qed
  have "done_port st0 ?st p"
    using assms(5) two acyclic unfolding done_port_def at by (auto simp: dep_edges_iff)
  moreover have "done_port st0 ?st x" if "done_port st0 st x" "x \<noteq> p" for x
    using that two unfolding done_port_def by (simp add: other)
  ultimately have "port_info (?st ! x) = port_info (st0 ! x) \<and> recursed (?st ! x) \<le> 2 \<and>
      (recursed (?st ! x) = 0 \<longrightarrow> (\<forall>k. get_deps k (?st ! x) = get_deps k (st0 ! x))) \<and>
      (recursed (?st ! x) = 2 \<longrightarrow> done_port st0 ?st x)" if "x < length st0" for x
    using assms(1-3) that len by (cases "x = p") (simp_all add: search_inv_def)
  then show ?thesis unfolding search_inv_def using len by simp
qed

lemma deplist_all: "k \<in> set [EDep, PDep, FDep, BDep, RDep]"
  by (cases k) auto

lemma recurse_ok:
  assumes "fresh_store st0"
  shows "rec_ok st0 f (recurse f)"
proof (induction f)
  case 0
  show ?case by (simp add: rec_ok_def)
next
  case (Suc f)
  show ?case unfolding rec_ok_def
  proof (intro allI impI)
    fix st x
    assume inv: "search_inv st0 st" and x: "x < length st0"
      and opn: "\<forall>g \<in> open_ports st. (g, x) \<in> (dep_edges st0)\<^sup>+"
      and card: "card (new_ports st) < Suc f"
    have len: "length st = length st0" using inv by (rule search_inv_length)
    have at: "recursed (st ! x) \<le> 2" "port_info (st ! x) = port_info (st0 ! x)"
      using inv x by (simp_all add: search_inv_def)
    show "case recurse (Suc f) st x of
        Inr st' \<Rightarrow> search_inv st0 st' \<and> search_frame st st' \<and> recursed (st' ! x) = 2
      | Inl e \<Rightarrow> cycle_error st0 e"
    proof -
      consider "recursed (st ! x) = 0" | "recursed (st ! x) = 1" | "recursed (st ! x) = 2"
        using at(1) by linarith
      then show ?thesis
      proof cases
        case 1
        let ?st = "st[x := (st ! x)\<lparr>recursed := 1\<rparr>]"
        let ?ks = "[EDep, PDep, FDep, BDep, RDep]"
        have inv1: "search_inv st0 ?st" using search_inv_mark1 inv 1 x by blast
        have at1: "recursed (?st ! x) = 1" using x len by simp
        have opn1: "\<forall>g \<in> open_ports ?st. g = x \<or> (g, x) \<in> (dep_edges st0)\<^sup>+"
          using opn by (auto simp: open_ports_def nth_list_update split: if_splits)
        have "new_ports ?st = new_ports st - {x}" "x \<in> new_ports st"
          using x len 1 by (auto simp: new_ports_def nth_list_update)
        then have card1: "card (new_ports ?st) < f"
          using card card_Suc_Diff1 [of "new_ports st" x] by simp
        have deps: "\<forall>k \<in> set ?ks. get_deps k (?st ! x) = get_deps k (st0 ! x)"
          using inv 1 x len by (simp add: search_inv_def)
        have post: "lists_post st0 ?st x ?ks (recurse_lists (recurse f) ?st x ?ks)"
          by (rule recurse_lists_ok [OF Suc assms x inv1 at1 _ opn1 card1 deps]) simp
        show ?thesis
        proof (cases "recurse_lists (recurse f) ?st x ?ks")
          case (Inl e)
          with post 1 show ?thesis by (simp add: lists_post_def)
        next
          case (Inr st')
          have p: "search_inv st0 st'" "recursed (st' ! x) = 1" "frame_but x ?st st'"
            and q: "\<forall>k \<in> set ?ks. expanded st0 (get_deps k (st0 ! x)) (get_deps k (st' ! x)) \<and>
               (\<forall>y \<in> set (get_deps k (st0 ! x)). recursed (st' ! y) = 2)"
            using post unfolding Inr lists_post_def sum.case by blast+
          have lists: "\<forall>k. expanded st0 (get_deps k (st0 ! x)) (get_deps k (st' ! x)) \<and>
               (\<forall>y \<in> set (get_deps k (st0 ! x)). recursed (st' ! y) = 2)"
            using bspec [OF q deplist_all] by (rule allI)
          let ?st' = "st'[x := (st' ! x)\<lparr>recursed := 2\<rparr>]"
          have "search_inv st0 ?st'"
            by (rule search_inv_mark2 [OF p(1,2) x assms lists])
          moreover have "search_frame st ?st'"
            using p(3) 1 len x search_inv_length [OF p(1)]
            by (auto simp: search_frame_def frame_but_def nth_list_update)
          moreover have "recursed (?st' ! x) = 2" using x search_inv_length [OF p(1)] by simp
          ultimately show ?thesis using 1 Inr by simp
        qed
      next
        case 2
        then have "(x, x) \<in> (dep_edges st0)\<^sup>+" using opn x len by (simp add: open_ports_def)
        with 2 x at(2) show ?thesis
          by (auto simp: cycle_error_def dest: port_info_pkgname)
      next
        case 3
        with inv show ?thesis by (simp add: search_frame_refl)
      qed
    qed
  qed
qed

lemma recurse_all_ok:
  assumes "fresh_store st0" "search_inv st0 st" "open_ports st = {}" "card (new_ports st) < f"
    "set is \<subseteq> {..<length st0}"
  shows "case recurse_all f st is of
      Inl e \<Rightarrow> cycle_error st0 e
    | Inr st' \<Rightarrow> search_inv st0 st' \<and> search_frame st st' \<and> (\<forall>x \<in> set is. recursed (st' ! x) = 2)"
  using assms(2-)
proof (induction "is" arbitrary: st)
  case Nil
  then show ?case by (simp add: search_frame_refl)
next
  case (Cons i "is")
  have one: "case recurse f st i of
      Inl e \<Rightarrow> cycle_error st0 e
    | Inr st' \<Rightarrow> search_inv st0 st' \<and> search_frame st st' \<and> recursed (st' ! i) = 2"
    using recurse_ok [OF assms(1)] Cons.prems unfolding rec_ok_def by (auto split: sum.splits)
  show ?case
  proof (cases "recurse f st i")
    case (Inl e)
    with one show ?thesis by simp
  next
    case (Inr st1)
    with one have st1: "search_inv st0 st1" "search_frame st st1" "recursed (st1 ! i) = 2"
      by simp_all
    have len: "length st1 = length st" "length st1 = length st0"
      using st1(1) Cons.prems(1) by (simp_all add: search_inv_length)
    have opn: "open_ports st1 = {}" using frame_open_ports [OF st1(2) len(1)] Cons.prems(2) by simp
    have card: "card (new_ports st1) < f"
      using Cons.prems(3) card_mono [OF finite_new_ports frame_new_ports [OF st1(2) len(1)]] by simp
    have keep: "recursed (st2 ! i) = 2" if "search_frame st1 st2" for st2
      using that st1(3) len(2) Cons.prems(4) by (auto simp: search_frame_def)
    from Cons.IH [OF st1(1) opn card] Cons.prems(4) Inr keep search_frame_trans [OF st1(2) _ len(1)]
    show ?thesis by (auto split: sum.splits)
  qed
qed

lemma fresh_search_inv: "fresh_store st0 \<Longrightarrow> search_inv st0 st0"
  by (simp add: search_inv_def fresh_store_def)

lemma fresh_open_ports: "fresh_store st0 \<Longrightarrow> open_ports st0 = {}"
  by (auto simp: open_ports_def fresh_store_def)

lemma card_new_ports: "card (new_ports st) \<le> length st"
  using card_mono [of "{..<length st}" "new_ports st"] by (auto simp: new_ports_def)

lemma close_all_ok:
  assumes "fresh_store st0"
  shows "case close_all st0 of
      Inl e \<Rightarrow> cycle_error st0 e
    | Inr st \<Rightarrow> search_inv st0 st \<and> (\<forall>x < length st0. done_port st0 st x)"
proof -
  have "card (new_ports st0) < Suc (length st0)" using card_new_ports [of st0] by simp
  then have "case close_all st0 of
      Inl e \<Rightarrow> cycle_error st0 e
    | Inr st \<Rightarrow> search_inv st0 st \<and> search_frame st0 st \<and>
        (\<forall>x \<in> set [0..<length st0]. recursed (st ! x) = 2)"
    unfolding close_all_def
    by (intro recurse_all_ok fresh_search_inv fresh_open_ports assms) auto
  then show ?thesis by (auto simp: search_inv_def split: sum.splits)
qed

lemma no_self_reach_acyclic:
  assumes "\<forall>x < length st. (x, x) \<notin> (dep_edges st)\<^sup>+"
  shows "acyclic (dep_edges st)"
proof (rule acyclicI, intro allI)
  fix x show "(x, x) \<notin> (dep_edges st)\<^sup>+"
    using assms by (metis (no_types, lifting) dep_edges_iff tranclD)
qed

text \<open>What step 4 makes of a port: its five lists are completed, the rest of it is kept.\<close>

definition closed_port :: "store \<Rightarrow> nat port \<Rightarrow> nat port \<Rightarrow> bool" where
  "closed_port st0 p q \<longleftrightarrow>
     port_info q = port_info p \<and>
     expanded st0 (edep p) (edep q) \<and> expanded st0 (pdep p) (pdep q) \<and>
     expanded st0 (fdep p) (fdep q) \<and> expanded st0 (bdep p) (bdep q) \<and>
     expanded st0 (rdep p) (rdep q)"

lemma done_closed_port:
  "search_inv st0 st \<Longrightarrow> x < length st0 \<Longrightarrow> done_port st0 st x \<Longrightarrow> closed_port st0 (st0 ! x) (st ! x)"
  unfolding search_inv_def done_port_def closed_port_def by (metis get_deps.simps)

lemma close_all_closes:
  assumes "fresh_store st0"
  shows "case close_all st0 of
      Inr st \<Rightarrow> acyclic (dep_edges st0) \<and> list_all2 (closed_port st0) st0 st
    | Inl e \<Rightarrow> cycle_error st0 e"
proof (cases "close_all st0")
  case (Inr st)
  with close_all_ok [OF assms] have inv: "search_inv st0 st" "\<forall>x < length st0. done_port st0 st x"
    by simp_all
  have "list_all2 (closed_port st0) st0 st"
    using inv done_closed_port search_inv_length [OF inv(1)] by (simp add: list_all2_conv_all_nth)
  moreover have "acyclic (dep_edges st0)"
    using inv(2) by (intro no_self_reach_acyclic) (simp add: done_port_def)
  ultimately show ?thesis using Inr by simp
qed (use close_all_ok [OF assms] in simp)

section \<open>Properties\<close>

definition closure_sample :: store where
  "closure_sample =
     (let p = \<lparr>pkgname = ''a'', portdir = ''x/a'', prefix = [], comment = [], pkgdescr = [],
               maintainer = [], categories = [], edep = [], pdep = [], fdep = [], bdep = [],
               rdep = [], www = [], recursed = 0\<rparr>
      in [p\<lparr>bdep := [1]\<rparr>, p\<lparr>pkgname := ''b'', rdep := [2]\<rparr>, p\<lparr>pkgname := ''c''\<rparr>])"

lemma closure_sample_fresh: "fresh_store closure_sample"
  by (simp add: fresh_store_def closure_sample_def all_deps_def)

text \<open>One step of \<open>recurse_one\<close> appends to a list exactly the run-time dependencies that it does
  not have yet, each once and in any case behind the old entries, and no write goes past the
  doubled allocation, if the list was not empty and fitted its allocation.\<close>

theorem merge_rdeps_correct:
  assumes "0 < nd" "length d \<le> nd"
  shows "case merge_rdeps qs (d, nd) of
           Inr (d', nd') \<Rightarrow> take (length d) d' = d \<and> length d' \<le> nd' \<and>
             distinct (drop (length d) d') \<and> set (drop (length d) d') = set qs - set d
         | Inl e \<Rightarrow> False"
  using merge_rdeps_ok [OF assms, of qs] by auto

theorem merge_rdeps_correct_witness:
  "case merge_rdeps [7, 5, 8, 7] ([5], 1) of
     Inr (d', nd') \<Rightarrow> take 1 d' = [5] \<and> length d' \<le> nd' \<and>
       distinct (drop 1 d') \<and> set (drop 1 d') = {7, 8}
   | Inl e \<Rightarrow> False"
  using merge_rdeps_correct [of 1 "[5]" "[7, 5, 8, 7]"] by (auto split: sum.splits)

text \<open>C1: Step 4 on any store of ports whose dependencies are in the store, cyclic or not, comes to an
  end.  Either it completes each of the five lists of every port to the set of ports that some
  entry reaches over run-time dependencies, keeps everything else, and the graph of all
  dependencies has no cycle; or it stops with the message about a port that lies on a cycle.\<close>

theorem close_all_correct:
  assumes "fresh_store st0"
  shows "case close_all st0 of
           Inr st \<Rightarrow> acyclic (dep_edges st0) \<and> list_all2 (closed_port st0) st0 st
         | Inl e \<Rightarrow> cycle_error st0 e"
  using close_all_closes [OF assms] .

theorem close_all_correct_witness:
  "fresh_store closure_sample \<and> map bdep (projr (close_all closure_sample)) = [[1, 2], [], []] \<and>
   (case close_all closure_sample of
      Inr st \<Rightarrow> acyclic (dep_edges closure_sample) \<and>
        list_all2 (closed_port closure_sample) closure_sample st
    | Inl e \<Rightarrow> cycle_error closure_sample e)"
proof (intro conjI)
  show "map bdep (projr (close_all closure_sample)) = [[1, 2], [], []]"
    by (simp add: close_all_def closure_sample_def recurse_one_def upt_rec Let_def)
qed (rule closure_sample_fresh close_all_correct [OF closure_sample_fresh])+

end
