(* ===== verification/Index_Main.thy ===== *)
theory Index_Main
  imports Index_Closure
begin

text \<open>
  \<^verbatim>\<open>make_index.c\<close>, part 4: sorting the dependency lists (\<^verbatim>\<open>heapifypkgs\<close>, \<^verbatim>\<open>sortpkgs\<close>), printing a
  port (\<^verbatim>\<open>printport\<close>) and the whole program (\<^verbatim>\<open>main\<close>).

  The program reads one file and writes to the standard output.  The file is what \<open>fopen\<close> and the
  stream give: not there, or the bytes up to its end or to a read error, and whether \<open>fclose\<close>
  succeeds.  Running out of memory is not modelled.
\<close>

section \<open>heapifypkgs and sortpkgs\<close>

text \<open>The lists hold pointers, that is indices into the store.\<close>

definition pkg_less :: "store \<Rightarrow> nat \<Rightarrow> nat \<Rightarrow> bool" where
  "pkg_less st a b \<longleftrightarrow> strcmp (pkgname (st ! a)) (pkgname (st ! b)) < 0"

definition heapifypkgs :: "store \<Rightarrow> nat list \<Rightarrow> nat \<Rightarrow> nat \<Rightarrow> nat list" where
  "heapifypkgs st d sz pos = heapify (pkg_less st) d sz pos"

definition sortpkgs :: "store \<Rightarrow> nat list \<Rightarrow> nat list" where
  "sortpkgs st d = heap_sort (pkg_less st) d"

interpretation pkgs: sort_order "pkg_less st" for st
proof unfold_locales
  fix a b c
  show "\<not> pkg_less st b a" if "pkg_less st a b"
    using that strcmp_neg [of "pkgname (st ! a)" "pkgname (st ! b)"] by (simp add: pkg_less_def)
  show "\<not> pkg_less st a c" if "\<not> pkg_less st a b" "\<not> pkg_less st b c"
    using that strcmp_trans [of "pkgname (st ! c)" "pkgname (st ! b)" "pkgname (st ! a)"]
      strcmp_neg [of "pkgname (st ! a)" "pkgname (st ! b)"]
      strcmp_neg [of "pkgname (st ! b)" "pkgname (st ! c)"]
      strcmp_neg [of "pkgname (st ! a)" "pkgname (st ! c)"]
    by (simp add: pkg_less_def not_less)
qed

section \<open>printport\<close>

fun print_names :: "store \<Rightarrow> nat \<Rightarrow> nat list \<Rightarrow> string" where
  "print_names st i [] = []"
| "print_names st i (x # xs) =
     (if i = 0 then [] else '' '') @ pkgname (st ! x) @ print_names st (Suc i) xs"

definition printport :: "store \<Rightarrow> nat \<Rightarrow> store \<times> string" where
  "printport st x =
     (let st = st[x := (st ! x)\<lparr>edep := sortpkgs st (edep (st ! x))\<rparr>];
          st = st[x := (st ! x)\<lparr>pdep := sortpkgs st (pdep (st ! x))\<rparr>];
          st = st[x := (st ! x)\<lparr>fdep := sortpkgs st (fdep (st ! x))\<rparr>];
          st = st[x := (st ! x)\<lparr>bdep := sortpkgs st (bdep (st ! x))\<rparr>];
          st = st[x := (st ! x)\<lparr>rdep := sortpkgs st (rdep (st ! x))\<rparr>];
          p = st ! x
      in (st, pkgname p @ ''|'' @ portdir p @ ''|'' @ prefix p @ ''|'' @ comment p @ ''|'' @
              pkgdescr p @ ''|'' @ maintainer p @ ''|'' @ categories p @ ''|'' @
              print_names st 0 (bdep p) @ ''|'' @
              print_names st 0 (rdep p) @ ''|'' @
              www p @ ''|'' @
              print_names st 0 (edep p) @ ''|'' @
              print_names st 0 (pdep p) @ ''|'' @
              print_names st 0 (fdep p) @ [CHR 0x0A]))"

text \<open>Step 5 of \<open>main\<close>.\<close>

fun print_all :: "store \<Rightarrow> nat list \<Rightarrow> string" where
  "print_all st [] = []"
| "print_all st (x # xs) = (case printport st x of (st', out) \<Rightarrow> out @ print_all st' xs)"

section \<open>main\<close>

datatype mi_file = No_File | File string bool bool

text \<open>\<open>File bytes rd cl\<close>: the bytes that can be read, whether a read error ended them, and whether
  \<open>fclose\<close> succeeds.  \<open>fgetln\<close> returns the lines with their newline; the last may have none.\<close>

fun fgetln_lines :: "string \<Rightarrow> string list" where
  "fgetln_lines [] = []"
| "fgetln_lines (c # cs) =
     (if c = CHR 0x0A then [c] # fgetln_lines cs
      else case fgetln_lines cs of [] \<Rightarrow> [[c]] | l # ls \<Rightarrow> (c # l) # ls)"

text \<open>The bytes of a line as a C string end at the first NUL.\<close>

definition c_str :: "string \<Rightarrow> c_string" where
  "c_str bytes = takeWhile (\<lambda>c. c \<noteq> CHR 0x00) bytes"

text \<open>Step 1.\<close>

fun read_ports :: "string list \<Rightarrow> mi_error + c_string port list" where
  "read_ports [] = Inr []"
| "read_ports (l # ls) =
     (if last l \<noteq> CHR 0x0A then Inl Unterminated
      else case portify (c_str (butlast l)) of Inl e \<Rightarrow> Inl e | Inr p \<Rightarrow>
        (case read_ports ls of Inl e \<Rightarrow> Inl e | Inr ps \<Rightarrow> Inr (p # ps)))"

text \<open>The result is what is written to the standard output.\<close>

definition mi_main :: "c_string list \<Rightarrow> mi_file \<Rightarrow> mi_error + string" where
  "mi_main argv file =
     (case argv of
        [_, name] \<Rightarrow>
          (case file of
             No_File \<Rightarrow> Inl (FopenFailed name)
           | File bytes read_error close_ok \<Rightarrow>
             (case read_ports (fgetln_lines bytes) of Inl e \<Rightarrow> Inl e | Inr pp \<Rightarrow>
              if read_error then Inl (FgetlnFailed name)
              else if \<not> close_ok then Inl (FcloseFailed name)
              else if pp = [] then Inr []
              else (let pp = sort_ports pp in
                case translate_all pp pp of Inl e \<Rightarrow> Inl e | Inr st \<Rightarrow>
                case close_all st of Inl e \<Rightarrow> Inl e | Inr st \<Rightarrow>
                Inr (print_all st [0..<length st]))))
      | _ \<Rightarrow> Inl Usage)"

section \<open>The lines of the index\<close>

text \<open>\<open>names_sorted st d ns\<close>: \<open>ns\<close> are the package names of the ports in \<open>d\<close> in byte order.\<close>

definition names_sorted :: "store \<Rightarrow> nat list \<Rightarrow> c_string list \<Rightarrow> bool" where
  "names_sorted st d ns \<longleftrightarrow>
     mset ns = mset (map (\<lambda>x. pkgname (st ! x)) d) \<and> sorted_wrt (\<lambda>a b. strcmp a b \<le> 0) ns"

definition index_line :: "store \<Rightarrow> nat port \<Rightarrow> string \<Rightarrow> bool" where
  "index_line st p l \<longleftrightarrow>
     (\<exists>bs rs es ps fs.
        names_sorted st (bdep p) bs \<and> names_sorted st (rdep p) rs \<and> names_sorted st (edep p) es \<and>
        names_sorted st (pdep p) ps \<and> names_sorted st (fdep p) fs \<and>
        l = join (CHR ''|'')
          [pkgname p, portdir p, prefix p, comment p, pkgdescr p, maintainer p, categories p,
           join (CHR '' '') bs, join (CHR '' '') rs, www p, join (CHR '' '') es,
           join (CHR '' '') ps, join (CHR '' '') fs] @ [CHR 0x0A])"

lemma names_sorted_sortpkgs: "names_sorted st d (map (\<lambda>x. pkgname (st ! x)) (sortpkgs st d))"
proof -
  have "sorted_wrt (\<lambda>a b. \<not> pkg_less st b a) (sortpkgs st d)"
    unfolding sortpkgs_def by (rule pkgs.heap_sort_sorted)
  moreover have "mset (sortpkgs st d) = mset d" by (simp add: sortpkgs_def)
  ultimately show ?thesis
    by (auto simp: names_sorted_def sorted_wrt_map pkg_less_def strcmp_neg [of "pkgname _"] not_less
        elim!: sorted_wrt_mono_rel [rotated])
qed

lemma print_names_Suc:
  "print_names st (Suc i) xs = concat (map (\<lambda>x. '' '' @ pkgname (st ! x)) xs)"
  by (induction xs arbitrary: i) auto

lemma join_Cons: "join c (f # fs) = f @ concat (map (\<lambda>g. c # g) fs)"
  by (induction fs arbitrary: f) auto

lemma print_names_join: "print_names st 0 xs = join (CHR '' '') (map (\<lambda>x. pkgname (st ! x)) xs)"
  by (cases xs) (simp_all add: print_names_Suc join_Cons comp_def)

text \<open>Sorting and printing one port leaves the names, on which the others' lines depend.\<close>

lemma pkgname_update:
  "pkgname p = pkgname (st ! x) \<Longrightarrow> pkgname (st[x := p] ! a) = pkgname (st ! a)"
  by (cases "x < length st"; cases "a = x") (auto simp: list_update_beyond)

lemma same_names:
  assumes "\<And>a. pkgname (st' ! a) = pkgname (st ! a)"
  shows "sortpkgs st' d = sortpkgs st d" "print_names st' i d = print_names st i d"
    "names_sorted st' = names_sorted st" "index_line st' = index_line st"
proof -
  have "pkg_less st' = pkg_less st" by (intro ext) (simp add: pkg_less_def assms)
  then show "sortpkgs st' d = sortpkgs st d" by (simp add: sortpkgs_def)
  show "print_names st' i d = print_names st i d" by (induction d arbitrary: i) (simp_all add: assms)
  show ns: "names_sorted st' = names_sorted st" by (intro ext) (simp add: names_sorted_def assms)
  then show "index_line st' = index_line st" by (intro ext) (simp add: index_line_def)
qed

definition sorted_port :: "store \<Rightarrow> nat port \<Rightarrow> nat port" where
  "sorted_port st p =
     p\<lparr>edep := sortpkgs st (edep p), pdep := sortpkgs st (pdep p), fdep := sortpkgs st (fdep p),
       bdep := sortpkgs st (bdep p), rdep := sortpkgs st (rdep p)\<rparr>"

lemma sortpkgs_update [simp]:
  "pkgname p = pkgname (st ! x) \<Longrightarrow> sortpkgs (st[x := p]) d = sortpkgs st d"
  by (rule same_names) (rule pkgname_update)

lemma fst_printport:
  "x < length st \<Longrightarrow> fst (printport st x) = st[x := sorted_port st (st ! x)]"
  by (simp add: printport_def Let_def sorted_port_def)

lemma printport_names: "x < length st \<Longrightarrow> pkgname (fst (printport st x) ! a) = pkgname (st ! a)"
  by (simp add: fst_printport pkgname_update sorted_port_def)

lemma snd_printport:
  assumes "x < length st"
  shows "index_line st (st ! x) (snd (printport st x))"
proof -
  let ?ns = "\<lambda>d. map (\<lambda>y. pkgname (st ! y)) (sortpkgs st d)"
  have names: "print_names (st[x := sorted_port st (st ! x)]) 0 d =
      join (CHR '' '') (map (\<lambda>y. pkgname (st ! y)) d)" for d
    by (simp add: print_names_join pkgname_update sorted_port_def)
  show ?thesis
    unfolding index_line_def
    by (rule exI [of _ "?ns (bdep (st ! x))"], rule exI [of _ "?ns (rdep (st ! x))"],
        rule exI [of _ "?ns (edep (st ! x))"], rule exI [of _ "?ns (pdep (st ! x))"],
        rule exI [of _ "?ns (fdep (st ! x))"])
       (use assms names in \<open>simp add: names_sorted_sortpkgs printport_def Let_def sorted_port_def\<close>)
qed

lemma print_all_lines:
  "distinct xs \<Longrightarrow> set xs \<subseteq> {..<length st} \<Longrightarrow>
   \<exists>ls. print_all st xs = concat ls \<and> list_all2 (\<lambda>x l. index_line st (st ! x) l) xs ls"
proof (induction xs arbitrary: st)
  case (Cons x xs)
  let ?st = "fst (printport st x)"
  have x: "x < length st" using Cons.prems by simp
  have "distinct xs" "set xs \<subseteq> {..<length ?st}"
    using Cons.prems by (simp_all add: fst_printport)
  then obtain ls where ls: "print_all ?st xs = concat ls"
    "list_all2 (\<lambda>y l. index_line ?st (?st ! y) l) xs ls"
    using Cons.IH by blast
  have "list_all2 (\<lambda>y l. index_line st (st ! y) l) xs ls"
  proof (rule list.rel_mono_strong [OF ls(2)])
    fix y l assume "y \<in> set xs" "index_line ?st (?st ! y) l"
    then show "index_line st (st ! y) l"
      using same_names(4) [OF printport_names [OF x]] Cons.prems
      by (cases "y = x") (simp_all add: fst_printport x)
  qed
  then show ?case
    using ls(1) snd_printport [OF x]
    by (intro exI [of _ "snd (printport st x) # ls"]) (simp add: case_prod_beta)
qed simp

section \<open>Reading the file\<close>

text \<open>The ports that can be written as describe lines of a text file.\<close>

definition input_port :: "c_string port \<Rightarrow> bool" where
  "input_port p \<longleftrightarrow> describable p \<and>
     CHR 0x00 \<notin> set (describe_line p) \<and> CHR 0x0A \<notin> set (describe_line p)"

definition describe_file :: "c_string port list \<Rightarrow> string" where
  "describe_file ps = concat (map (\<lambda>p. describe_line p @ [CHR 0x0A]) ps)"

lemma fgetln_lines_line:
  "CHR 0x0A \<notin> set l \<Longrightarrow> fgetln_lines (l @ CHR 0x0A # r) = (l @ [CHR 0x0A]) # fgetln_lines r"
  by (induction l) auto

lemma read_describe_file:
  "\<forall>p \<in> set ps. input_port p \<Longrightarrow> read_ports (fgetln_lines (describe_file ps)) = Inr ps"
proof (induction ps)
  case (Cons p ps)
  then have p: "describable p" "CHR 0x0A \<notin> set (describe_line p)"
    "c_str (describe_line p) = describe_line p"
    by (auto simp: input_port_def c_str_def takeWhile_eq_all_conv)
  have "fgetln_lines (describe_file (p # ps)) =
      (describe_line p @ [CHR 0x0A]) # fgetln_lines (describe_file ps)"
    using fgetln_lines_line [OF p(2), of "describe_file ps"] by (simp add: describe_file_def)
  with Cons p show ?case by (simp add: portify_describe_line)
qed (simp add: describe_file_def)

lemma fgetln_lines_concat: "concat (fgetln_lines s) = s"
  by (induction s rule: fgetln_lines.induct) (auto split: list.splits)

section \<open>The whole program\<close>

text \<open>The store that steps 2 and 3 make of the ports in the file is fresh for step 4.\<close>

lemma names_of_lt: "names_of pp js ns \<Longrightarrow> j \<in> set js \<Longrightarrow> j < length pp"
  by (auto simp: names_of_def list_all2_conv_all_nth in_set_conv_nth)

lemma translated_recursed: "translated pp p q \<Longrightarrow> recursed q = recursed p"
proof -
  assume "translated pp p q"
  then have "q = retype_port p (edep q) (pdep q) (fdep q) (bdep q) (rdep q)"
    by (simp add: translated_def)
  then have "recursed q = recursed (retype_port p (edep q) (pdep q) (fdep q) (bdep q) (rdep q))"
    by (rule arg_cong)
  then show ?thesis by (simp add: retype_port_def)
qed

lemma translated_fresh:
  assumes "list_all2 (translated pp) pp st" "\<forall>p \<in> set pp. recursed p = 0"
  shows "fresh_store st"
proof -
  have len: "length st = length pp" using assms(1) by (simp add: list_all2_lengthD)
  have "recursed q = 0 \<and> (\<forall>y \<in> set (all_deps q). y < length st)" if "q \<in> set st" for q
  proof -
    obtain i where i: "i < length st" "q = st ! i"
      using \<open>q \<in> set st\<close> by (auto simp: in_set_conv_nth)
    define p where "p = pp ! i"
    have p: "p \<in> set pp" "translated pp p q"
      using list_all2_nthD2 [OF assms(1) i(1)] i len by (simp_all add: p_def)
    have "recursed q = recursed p"
      using translated_recursed [OF p(2)] .
    moreover have "\<forall>y \<in> set (all_deps q). y < length st"
      using p(2) unfolding translated_def all_deps_def len
      by (auto dest: names_of_lt)
    ultimately show ?thesis using assms(2) p(1) by simp
  qed
  then show ?thesis by (simp add: fresh_store_def)
qed

text \<open>The output on the ports of a file: the sorted ports, with every dependency resolved and every
  list completed, one line each.\<close>

definition index_of :: "c_string port list \<Rightarrow> string \<Rightarrow> bool" where
  "index_of ps out \<longleftrightarrow>
     (\<exists>pp st0 st ls. mset pp = mset ps \<and> ports_sorted pp \<and> list_all2 (translated pp) pp st0 \<and>
        acyclic (dep_edges st0) \<and> list_all2 (closed_port st0) st0 st \<and>
        list_all2 (index_line st) st ls \<and> out = concat ls)"

definition no_index :: "c_string port list \<Rightarrow> mi_error \<Rightarrow> bool" where
  "no_index ps e \<longleftrightarrow>
     (\<exists>p \<in> set ps. \<exists>n \<in> set (all_deps p). e = NoEntry (portdir p) n \<and> n \<notin> portdir ` set ps) \<or>
     (\<exists>pp st0. mset pp = mset ps \<and> ports_sorted pp \<and> list_all2 (translated pp) pp st0 \<and>
        cycle_error st0 e)"

lemma mi_main_ok:
  assumes "\<forall>p \<in> set ps. input_port p"
  shows "case mi_main [prog, name] (File (describe_file ps) False True) of
      Inr out \<Rightarrow> index_of ps out
    | Inl e \<Rightarrow> no_index ps e"
proof (cases "ps = []")
  case True
  then show ?thesis
    by (auto simp: mi_main_def describe_file_def index_of_def ports_sorted_def
        acyclic_def dep_edges_def intro!: exI [of _ "[]"])
next
  case False
  let ?pp = "sort_ports ps"
  have pp: "mset ?pp = mset ps" "ports_sorted ?pp" "set ?pp = set ps"
    by (simp_all add: sort_ports_sorted) (simp add: sort_ports_def)
  have main: "mi_main [prog, name] (File (describe_file ps) False True) =
     (case translate_all ?pp ?pp of Inl e \<Rightarrow> Inl e | Inr st \<Rightarrow>
      case close_all st of Inl e \<Rightarrow> Inl e | Inr st \<Rightarrow> Inr (print_all st [0..<length st]))"
    using False by (simp add: mi_main_def read_describe_file [OF assms] Let_def)
  show ?thesis
  proof (cases "translate_all ?pp ?pp")
    case (Inl e)
    with translate_all_Inl [OF pp(2) Inl] pp(3) main show ?thesis by (auto simp: no_index_def)
  next
    case (Inr st0)
    have tr: "list_all2 (translated ?pp) ?pp st0" using translate_all_Inr [OF Inr] .
    have "fresh_store st0"
      by (rule translated_fresh [OF tr]) (use assms pp(3) in \<open>auto simp: input_port_def describable_def\<close>)
    note close = close_all_closes [OF this]
    show ?thesis
    proof (cases "close_all st0")
      case cl: (Inl e)
      with close Inr main pp tr show ?thesis by (auto simp: no_index_def)
    next
      case cl: (Inr st)
      obtain ls where ls: "print_all st [0..<length st] = concat ls"
        "list_all2 (\<lambda>x l. index_line st (st ! x) l) [0..<length st] ls"
        using print_all_lines [of "[0..<length st]" st] by (auto simp: lessThan_atLeast0)
      have "list_all2 (index_line st) st ls"
        using ls(2) by (simp add: list_all2_conv_all_nth)
      with close cl Inr main pp tr ls(1) show ?thesis by (auto simp: index_of_def)
    qed
  qed
qed

lemma read_ports_recursed: "read_ports ls = Inr ps \<Longrightarrow> \<forall>p \<in> set ps. recursed p = 0"
  by (induction ls arbitrary: ps)
     (auto simp: portify_def split: if_splits sum.splits option.splits list.splits)

definition reading_error :: "mi_error \<Rightarrow> bool" where
  "reading_error e \<longleftrightarrow> e = Unterminated \<or> (\<exists>l. e = Corrupt l) \<or> e = Undefined ''name[-1]''"

lemma portify_error:
  assumes "portify line = Inl e"
  shows "reading_error e"
proof (cases "count_list line (CHR ''|'') = 12")
  case True
  then obtain a b c d e f g h i j k l m
    where fs: "pieces (CHR ''|'') line = [a, b, c, d, e, f, g, h, i, j, k, l, m]"
    using length_13 [OF strseps_13(2) [OF True]] by blast
  then show ?thesis using assms
    by (auto simp: portify_result reading_error_def split: if_splits)
next
  case False
  then show ?thesis using assms by (auto simp: portify_def reading_error_def)
qed

lemma read_ports_error: "read_ports ls = Inl e \<Longrightarrow> reading_error e"
  by (induction ls) (auto split: if_splits sum.splits dest: portify_error simp: reading_error_def)

text \<open>How the program can end, on any arguments and any file.\<close>

definition documented_error :: "mi_error \<Rightarrow> bool" where
  "documented_error e \<longleftrightarrow> (case e of
     OutOfFuel \<Rightarrow> False
   | Undefined what \<Rightarrow> what = ''name[-1]''
   | _ \<Rightarrow> True)"

lemma mi_main_total:
  "mi_main argv file = Inl e \<Longrightarrow> documented_error e"
proof (cases "\<exists>prog name bytes ps. argv = [prog, name] \<and> file = File bytes False True \<and>
    read_ports (fgetln_lines bytes) = Inr ps \<and> ps \<noteq> []")
  case True
  assume e: "mi_main argv file = Inl e"
  obtain prog name bytes ps where m: "argv = [prog, name]" "file = File bytes False True"
    "read_ports (fgetln_lines bytes) = Inr ps" "ps \<noteq> []" using True by blast
  show ?thesis
  proof (cases "translate_all (sort_ports ps) (sort_ports ps)")
    case (Inl e')
    with e m translate_all_Inl [OF sort_ports_sorted Inl] show ?thesis
      by (auto simp: mi_main_def documented_error_def)
  next
    case (Inr st)
    have "fresh_store st"
      by (rule translated_fresh [OF translate_all_Inr [OF Inr]])
        (use read_ports_recursed [OF m(3)] in simp)
    from close_all_closes [OF this] e m Inr show ?thesis
      by (auto simp: mi_main_def documented_error_def cycle_error_def Let_def split: sum.splits)
  qed
next
  case False
  assume "mi_main argv file = Inl e"
  then have "e = Usage \<or> (\<exists>n. e = FopenFailed n \<or> e = FgetlnFailed n \<or> e = FcloseFailed n) \<or>
      reading_error e"
    using False unfolding mi_main_def
    by (auto split: list.splits mi_file.splits sum.splits if_splits dest: read_ports_error)
  then show ?thesis by (auto simp: documented_error_def reading_error_def)
qed

section \<open>Properties\<close>

text \<open>\<open>printport\<close> writes one line with thirteen fields, in which each of the five dependency fields
  holds the package names of the ports in that list, in byte order and separated by blanks; it
  changes only the order of the port's own lists.\<close>

theorem printport_correct:
  assumes "x < length st"
  shows "index_line st (st ! x) (snd (printport st x)) \<and>
         fst (printport st x) = st[x := sorted_port st (st ! x)] \<and>
         mset (edep (sorted_port st (st ! x))) = mset (edep (st ! x)) \<and>
         mset (rdep (sorted_port st (st ! x))) = mset (rdep (st ! x))"
  using snd_printport [OF assms] fst_printport [OF assms] by (simp add: sorted_port_def sortpkgs_def)

theorem printport_correct_witness:
  "snd (printport (closure_sample[0 := (closure_sample ! 0)\<lparr>bdep := [2, 1]\<rparr>]) 0) =
     ''a|x/a||||||b c|||||'' @ [CHR 0x0A] \<and>
   index_line closure_sample (closure_sample ! 0) (snd (printport closure_sample 0))"
proof
  show "index_line closure_sample (closure_sample ! 0) (snd (printport closure_sample 0))"
    using printport_correct [of 0 closure_sample] by (simp add: closure_sample_def Let_def)
qed (simp add: closure_sample_def Let_def printport_def sortpkgs_def heap_sort_def
    heapify.simps largest_def swap_def pkg_less_def uchar_def)

text \<open>C2: Run on the describe lines of ports without bars, NULs and newlines in their fields, whose
  dependency names are not empty, hold no blank and do not end in a slash, the program either writes
  the index of these ports, that is the ports in directory order with every dependency name resolved
  and every list completed and sorted, or it ends with the message about a dependency that names no
  port or about a port that depends on itself.\<close>

theorem mi_main_correct:
  assumes "\<forall>p \<in> set ps. input_port p"
  shows "case mi_main [prog, name] (File (describe_file ps) False True) of
           Inr out \<Rightarrow> index_of ps out
         | Inl e \<Rightarrow> no_index ps e"
  using mi_main_ok [OF assms] .

definition main_sample :: "c_string port list" where
  "main_sample =
     [sample_port, sample_port\<lparr>pkgname := ''c'', portdir := ''y/c'', bdep := [], rdep := []\<rparr>,
      sample_port\<lparr>pkgname := ''b'', portdir := ''x/b'', bdep := [], rdep := [''y/c'']\<rparr>]"

theorem mi_main_correct_witness:
  "list_all input_port main_sample \<and>
   (case mi_main [''make_index'', ''f''] (File (describe_file main_sample) False True) of
      Inr out \<Rightarrow> index_of main_sample out
    | Inl e \<Rightarrow> no_index main_sample e)"
proof -
  have "\<forall>p \<in> set main_sample. input_port p"
    by (simp add: main_sample_def input_port_def describable_def sample_port_def dep_name_def
        describe_line_def)
  then show ?thesis using mi_main_correct by (simp add: list_all_iff)
qed

text \<open>Whatever the arguments and the bytes of the file are, the program ends: it writes an
  output or ends with one of its messages, except that a dependency field with an empty name makes
  it read the byte before a string.  The recursion needs no more levels than there are ports.\<close>

theorem mi_main_ends:
  "case mi_main argv file of Inr out \<Rightarrow> True | Inl e \<Rightarrow> documented_error e"
  using mi_main_total [of argv "file"] by (auto split: sum.splits)

end
