(* ===== verification/Http_Auth.thy ===== *)
theory Http_Auth
  imports Prelude
begin

text \<open>
  \<^verbatim>\<open>phttpget.c\<close>, part 1: the Base64 encoder (\<^verbatim>\<open>b64enc\<close>), the environment (\<^verbatim>\<open>readenv\<close>) and the text of
  a request (\<^verbatim>\<open>makerequest\<close>).
\<close>

unbundle bit_operations_syntax

section \<open>b64enc\<close>

definition base64 :: string where
  "base64 = ''ABCDEFGHIJKLMNOPQRSTUVWXYZabcdefghijklmnopqrstuvwxyz0123456789+/''"

definition SIZE_MAX :: nat where
  "SIZE_MAX = 2 ^ 64 - 1"

text \<open>The loop that reads three bytes into the 32-bit \<open>t\<close>; \<open>*pt\<close> is a signed \<open>char\<close>.\<close>

function b64_read :: "nat \<Rightarrow> nat \<Rightarrow> 32 word \<Rightarrow> c_string \<Rightarrow> 32 word \<times> c_string" where
  "b64_read j ptlen t pt =
     (if j < 3
      then (let t = push_bit 8 t in
            if j < ptlen then b64_read (j + 1) ptlen (t + word_of_int (schar (hd pt))) (tl pt)
            else b64_read (j + 1) ptlen t pt)
      else (t, pt))"
  by pat_completeness auto
termination by (relation "measure (\<lambda>(j, _). 3 - j)") auto

text \<open>The loop that writes four characters.\<close>

function b64_write :: "nat \<Rightarrow> nat \<Rightarrow> 32 word \<Rightarrow> string" where
  "b64_write j ptlen t =
     (if j < 4
      then (if j \<le> ptlen + 1 then base64 ! unat (drop_bit 18 t AND 0x3f) else CHR ''='')
           # b64_write (j + 1) ptlen (push_bit 6 t)
      else [])"
  by pat_completeness auto
termination by (relation "measure (\<lambda>(j, _). 4 - j)") auto

declare b64_read.simps [simp del] b64_write.simps [simp del]

text \<open>The loop over the text; the result is what is written to \<open>ctext\<close> before its last byte.\<close>

function b64_loop :: "nat \<Rightarrow> c_string \<Rightarrow> string" where
  "b64_loop ptlen pt =
     (if ptlen = 0 then []
      else (case b64_read 0 ptlen 0 pt of (t, pt') \<Rightarrow>
              b64_write 0 ptlen t @ (if ptlen \<le> 3 then [] else b64_loop (ptlen - 3) pt')))"
  by pat_completeness auto
termination by (relation "measure fst") auto

declare b64_loop.simps [simp del]

definition b64_ctlen :: "nat \<Rightarrow> nat" where
  "b64_ctlen ptlen = 4 * ((ptlen + 2) div 3) + 1"

definition b64enc :: "c_string \<Rightarrow> string option" where
  "b64enc ptext =
     (if length ptext > ((SIZE_MAX - 1) div 4) * 3 - 2 then None
      else Some (b64_loop (length ptext) ptext))"

section \<open>The decoder of RFC 4648\<close>

text \<open>The position of a character in the alphabet.\<close>

fun index_of_char :: "string \<Rightarrow> char \<Rightarrow> nat" where
  "index_of_char [] c = 0"
| "index_of_char (x # xs) c = (if x = c then 0 else Suc (index_of_char xs c))"

definition sextets :: "char \<Rightarrow> char \<Rightarrow> char \<Rightarrow> char \<Rightarrow> nat" where
  "sextets a b c d =
     (let v = (\<lambda>x. if x = CHR ''='' then 0 else index_of_char base64 x)
      in 262144 * v a + 4096 * v b + 64 * v c + v d)"

fun b64_decode :: "string \<Rightarrow> c_string" where
  "b64_decode (a # b # c # d # r) =
     (let v = sextets a b c d in
      char_of (v div 65536) #
      (if c = CHR ''='' then [] else [char_of (v div 256 mod 256)]) @
      (if d = CHR ''='' then [] else [char_of (v mod 256)]) @ b64_decode r)"
| "b64_decode r = []"

text \<open>The bytes at which \<open>t += *pt++\<close> adds a negative number into bits that matter: those at \<open>0x80\<close>
  and above that are not the first of their group of three.\<close>

fun b64_safe :: "c_string \<Rightarrow> bool" where
  "b64_safe (a # b # c # r) \<longleftrightarrow> uchar b < 128 \<and> uchar c < 128 \<and> b64_safe r"
| "b64_safe (a # b # []) \<longleftrightarrow> uchar b < 128"
| "b64_safe r \<longleftrightarrow> True"

section \<open>The loops on one group\<close>

lemma base64_index: "i < 64 \<Longrightarrow> index_of_char base64 (base64 ! i) = i \<and> base64 ! i \<noteq> CHR ''=''"
proof -
  have "\<forall>i \<in> set [0..<64]. index_of_char base64 (base64 ! i) = i \<and> base64 ! i \<noteq> CHR ''=''"
    by code_simp
  then show "i < 64 \<Longrightarrow> ?thesis" by simp
qed

definition sextet :: "nat \<Rightarrow> int \<Rightarrow> nat" where
  "sextet k u = nat (u div 2 ^ k mod 64)"

lemma sextet_lt [simp]: "sextet k u < 64"
  by (simp add: sextet_def)

lemma shifted_bit:
  fixes u :: int
  shows "n < LENGTH(32) \<Longrightarrow>
    bit (drop_bit 18 (push_bit m (word_of_int u :: 32 word)) AND mask 6) n \<longleftrightarrow>
    n < 6 \<and> m \<le> 18 + n \<and> bit u (18 + n - m)"
  by (simp add: bit_simps) auto

lemma taken_bit:
  fixes u :: int
  shows "n < LENGTH(32) \<Longrightarrow>
    bit (word_of_int (take_bit 6 (drop_bit k u)) :: 32 word) n \<longleftrightarrow> n < 6 \<and> bit u (k + n)"
  by (simp add: bit_simps)

lemma sextet_word:
  fixes u :: int
  assumes "m + k = 18"
  shows "unat (drop_bit 18 (push_bit m (word_of_int u :: 32 word)) AND 0x3f) = sextet k u"
proof -
  have mask: "(0x3f :: 32 word) = mask 6" by (simp add: mask_eq_exp_minus_1)
  have "drop_bit 18 (push_bit m (word_of_int u :: 32 word)) AND 0x3f =
      word_of_int (take_bit 6 (drop_bit k u))"
    unfolding mask
  proof (rule bit_word_eqI)
    fix n assume n: "n < LENGTH(32)"
    have k: "18 + n - m = k + n" "m \<le> 18 + n" using assms by linarith+
    show "bit (drop_bit 18 (push_bit m (word_of_int u :: 32 word)) AND mask 6) n =
        bit (word_of_int (take_bit 6 (drop_bit k u)) :: 32 word) n"
      unfolding shifted_bit [OF n] taken_bit [OF n] k(1) using k(2) by blast
  qed
  moreover have "take_bit 6 (drop_bit k u) = int (sextet k u)"
    by (simp add: take_bit_eq_mod drop_bit_eq_div sextet_def)
  ultimately have "drop_bit 18 (push_bit m (word_of_int u :: 32 word)) AND 0x3f = of_nat (sextet k u)"
    by simp
  moreover have "unat (of_nat (sextet k u) :: 32 word) = sextet k u"
    unfolding unat_of_nat by (rule mod_less) (rule less_trans [OF sextet_lt], simp)
  ultimately show ?thesis by simp
qed

text \<open>One group: the number that the reading loop leaves in \<open>t\<close>, and the four characters.\<close>

lemma b64_read_group:
  "b64_read 0 (Suc (Suc (Suc n))) 0 (a # b # c # r) =
     (word_of_int (65536 * schar a + 256 * schar b + schar c), r)"
  "b64_read 0 2 0 [a, b] = (word_of_int (65536 * schar a + 256 * schar b), [])"
  "b64_read 0 1 0 [a] = (word_of_int (65536 * schar a), [])"
  by (simp_all add: b64_read.simps push_bit_eq_mult Let_def algebra_simps)

lemma b64_write_group:
  "b64_write 0 ptlen (word_of_int u) =
     [base64 ! sextet 18 u, base64 ! sextet 12 u,
      if 1 \<le> ptlen then base64 ! sextet 6 u else CHR ''='',
      if 2 \<le> ptlen then base64 ! sextet 0 u else CHR ''='']"
proof -
  have "drop_bit 18 (word_of_int u :: 32 word) AND 0x3f = drop_bit 18 (push_bit 0 (word_of_int u)) AND 0x3f"
    by simp
  then have "unat (drop_bit 18 (word_of_int u :: 32 word) AND 0x3f) = sextet 18 u"
    using sextet_word [of 0 18 u] by simp
  then show ?thesis
    using sextet_word [of 6 12 u] sextet_word [of 12 6 u] sextet_word [of 18 0 u]
    by (simp add: b64_write.simps numeral_eq_Suc)
qed

section \<open>What the encoder writes\<close>

lemma sextets_value:
  "262144 * sextet 18 u + 4096 * sextet 12 u + 64 * sextet 6 u + sextet 0 u = nat (u mod 2 ^ 24)"
proof -
  have q: "u div 4096 = u div 64 div 64" "u div 262144 = u div 4096 div 64"
    "u div 16777216 = u div 262144 div 64"
    by simp_all
  have "262144 * (u div 262144 mod 64) + 4096 * (u div 4096 mod 64) + 64 * (u div 64 mod 64) + u mod 64
      = u mod 16777216"
    using mult_div_mod_eq [of 64 u] mult_div_mod_eq [of 64 "u div 64"]
      mult_div_mod_eq [of 64 "u div 4096"] mult_div_mod_eq [of 64 "u div 262144"]
      mult_div_mod_eq [of 16777216 u]
    unfolding q by linarith
  moreover have s: "int (sextet 18 u) = u div 262144 mod 64" "int (sextet 12 u) = u div 4096 mod 64"
    "int (sextet 6 u) = u div 64 mod 64" "int (sextet 0 u) = u mod 64"
    by (simp_all add: sextet_def)
  ultimately have "int (262144 * sextet 18 u + 4096 * sextet 12 u + 64 * sextet 6 u + sextet 0 u) =
      u mod 16777216"
    by (simp only: of_nat_add of_nat_mult of_nat_numeral s)
  then have "nat (u mod 16777216) =
      262144 * sextet 18 u + 4096 * sextet 12 u + 64 * sextet 6 u + sextet 0 u"
    by (metis nat_int)
  then show ?thesis by simp
qed

lemma schar_uchar: "schar c = (if uchar c < 128 then uchar c else uchar c - 256)"
  by (simp add: schar_def uchar_def Let_def)

lemma int_of_char: "int (of_char c) = uchar c"
  unfolding uchar_def by (metis of_nat_of_char)

lemma group_value:
  assumes "uchar b < 128" "uchar c < 128"
  shows "nat ((65536 * schar a + 256 * schar b + schar c) mod 2 ^ 24) =
    65536 * of_char a + 256 * of_char b + of_char c"
proof -
  let ?u = "65536 * uchar a + 256 * uchar b + uchar c"
  have u: "0 \<le> ?u" "?u < 16777216"
    using uchar_range [of a] uchar_range [of b] uchar_range [of c] by linarith+
  have "65536 * schar a + 256 * schar b + schar c = ?u + 16777216 * (if uchar a < 128 then 0 else - 1)"
    using assms by (simp add: schar_uchar)
  then have "(65536 * schar a + 256 * schar b + schar c) mod 16777216 = ?u"
    using u by (simp only: mod_mult_self2 mod_pos_pos_trivial)
  then show ?thesis by (simp flip: int_of_char)
qed

lemma nat_group:
  fixes x y z :: nat
  assumes "x < 256" "y < 256" "z < 256"
  shows "(65536 * x + 256 * y + z) div 65536 = x" "(65536 * x + 256 * y + z) div 256 mod 256 = y"
    "(65536 * x + 256 * y + z) mod 256 = z"
proof -
  show "(65536 * x + 256 * y + z) div 65536 = x"
    by (rule div_nat_eqI) (use assms in \<open>simp_all\<close>)
  have "(65536 * x + 256 * y + z) div 256 = 256 * x + y"
    by (rule div_nat_eqI) (use assms in \<open>simp_all\<close>)
  with assms show "(65536 * x + 256 * y + z) div 256 mod 256 = y" by simp
  have "65536 * x + 256 * y + z = z + 256 * (256 * x + y)" by simp
  then show "(65536 * x + 256 * y + z) mod 256 = z"
    using assms(3) by (simp only: mod_mult_self2 mod_less)
qed

lemma group_chars:
  assumes "v = 65536 * of_char a + 256 * of_char b + (of_char c :: nat)"
  shows "char_of (v div 65536) = a" "char_of (v div 256) = b" "char_of v = c"
proof -
  have "char_of (v div 65536) = a" "char_of (v div 256 mod 256) = b" "char_of (v mod 256) = c"
    unfolding assms by (simp_all only: nat_group nat_of_char_less_256 char_of_char)
  then show "char_of (v div 65536) = a" "char_of (v div 256) = b" "char_of v = c"
    by simp_all
qed

lemma sextets_base64:
  "sextets (base64 ! sextet 18 u) (base64 ! sextet 12 u) (base64 ! sextet 6 u) (base64 ! sextet 0 u) =
   nat (u mod 2 ^ 24)"
  using base64_index by (simp add: sextets_def Let_def sextets_value)

lemma b64_char_not_pad [simp]: "base64 ! sextet k u \<noteq> CHR ''=''"
  using base64_index sextet_lt by blast

lemma schar_NUL [simp]: "schar (CHR 0x00) = 0"
  by (simp add: schar_def)

lemma uchar_NUL [simp]: "uchar (CHR 0x00) = 0"
  by (simp add: uchar_def)

definition quad :: "int \<Rightarrow> string" where
  "quad u = [base64 ! sextet 18 u, base64 ! sextet 12 u, base64 ! sextet 6 u, base64 ! sextet 0 u]"

lemma decode_quad:
  assumes "uchar b < 128" "uchar c < 128"
  shows "b64_decode (quad (65536 * schar a + 256 * schar b + schar c) @ r) = a # b # c # b64_decode r"
  by (simp add: quad_def Let_def sextets_base64 group_chars [OF group_value [OF assms]] del: power_numeral)

lemma decode_one:
  "b64_decode [base64 ! sextet 18 (65536 * schar a), base64 ! sextet 12 (65536 * schar a),
     base64 ! sextet 6 (65536 * schar a), CHR ''=''] = [a, CHR 0x00]"
proof -
  let ?u = "65536 * schar a"
  have "sextets (base64 ! sextet 18 ?u) (base64 ! sextet 12 ?u) (base64 ! sextet 6 ?u) (CHR ''='') =
      sextets (base64 ! sextet 18 ?u) (base64 ! sextet 12 ?u) (base64 ! sextet 6 ?u)
        (base64 ! sextet 0 ?u)"
    using base64_index by (simp add: sextets_def Let_def) (simp add: sextet_def)
  then show ?thesis
    using group_chars [OF group_value [of "CHR 0x00" "CHR 0x00" a]]
    by (simp add: Let_def sextets_base64 del: power_numeral)
qed

lemma b64_loop_groups:
  "b64_loop (Suc (Suc (Suc n))) (a # b # c # r) =
     quad (65536 * schar a + 256 * schar b + schar c) @ b64_loop n r"
  "b64_loop 2 [a, b] = quad (65536 * schar a + 256 * schar b)"
  "b64_loop 1 [a] = [base64 ! sextet 18 (65536 * schar a), base64 ! sextet 12 (65536 * schar a),
     base64 ! sextet 6 (65536 * schar a), CHR ''='']"
  "b64_loop 0 r = []"
proof -
  note groups = b64_loop.simps [of "Suc (Suc (Suc n))"] b64_loop.simps [of 2] b64_loop.simps [of 1]
    b64_loop.simps [of 0] b64_read_group b64_write_group quad_def
  show "b64_loop 0 r = []" for r by (simp add: groups)
  then show "b64_loop (Suc (Suc (Suc n))) (a # b # c # r) =
      quad (65536 * schar a + 256 * schar b + schar c) @ b64_loop n r"
    by (auto simp: groups simp del: of_int_add of_int_mult)
  show "b64_loop 2 [a, b] = quad (65536 * schar a + 256 * schar b)"
    by (simp add: groups del: of_int_add of_int_mult)
  show "b64_loop 1 [a] = [base64 ! sextet 18 (65536 * schar a), base64 ! sextet 12 (65536 * schar a),
      base64 ! sextet 6 (65536 * schar a), CHR ''='']"
    using b64_read_group(3) [of a] b64_loop.simps [of 1 "[a]"]
      b64_write_group [of 1 "65536 * schar a"] by simp
qed

lemma b64_loop_decode:
  "b64_safe s \<Longrightarrow>
   b64_decode (b64_loop (length s) s) = s @ (if 3 dvd length s then [] else [CHR 0x00])"
proof (induction s rule: b64_safe.induct [case_names three two none one])
  case (three a b c r)
  have "3 dvd Suc (Suc (Suc (length r))) \<longleftrightarrow> 3 dvd length r" by presburger
  with three show ?case by (simp add: b64_loop_groups decode_quad)
next
  case (two a b)
  then show ?case
    using decode_quad [of b "CHR 0x00" a "[]"] b64_loop_groups(2) [of a b]
    by (simp add: numeral_2_eq_2) presburger
next
  case none
  then show ?case by (simp add: b64_loop_groups)
next
  case (one a)
  then show ?case using decode_one [of a] b64_loop_groups(3) [of a] by simp
qed

lemma length_b64_loop: "length (b64_loop (length s) s) = 4 * ((length s + 2) div 3)"
proof (induction s rule: b64_safe.induct [case_names three two none one])
  case (three a b c r)
  then show ?case by (simp add: b64_loop_groups quad_def) presburger
next
  case (two a b)
  then show ?case using b64_loop_groups(2) [of a b] by (simp add: numeral_2_eq_2 quad_def)
next
  case none
  then show ?case by (simp add: b64_loop_groups)
next
  case (one a)
  then show ?case using b64_loop_groups(3) [of a] by simp
qed

lemma b64enc_some:
  "length s \<le> ((SIZE_MAX - 1) div 4) * 3 - 2 \<Longrightarrow> b64enc s = Some (b64_loop (length s) s)"
  by (simp add: b64enc_def)

section \<open>readenv\<close>

text \<open>What the global variables hold after \<open>readenv\<close>.\<close>

record http_env =
  env_HTTP_PROXY :: "c_string option"
  proxyport :: c_string
  proxyauth :: "c_string option"
  env_HTTP_USER_AGENT :: c_string
  timo :: int

datatype ph_error =
  Usage
| Err c_string
| Write_Failed
| No_Address
| No_File_Name
| Open_Failed c_string
| Connection_Failure

text \<open>\<open>p = strchr(s, c); if (p != NULL) *p = 0\<close>\<close>

definition cut_at :: "char \<Rightarrow> c_string \<Rightarrow> c_string" where
  "cut_at c s = takeWhile (\<lambda>x. x \<noteq> c) s"

definition read_proxy :: "c_string option \<Rightarrow> c_string option \<times> c_string" where
  "read_proxy v =
     (case v of
        None \<Rightarrow> (None, [])
      | Some s \<Rightarrow>
          (let s = (if has_prefix ''http://'' s then drop 7 s else s);
               s = cut_at (CHR ''/'') s
           in case strchr s (CHR '':'') of
                Some p \<Rightarrow> (Some (cut_at (CHR '':'') s), tl p)
              | None \<Rightarrow> (Some s, ''3128'')))"

text \<open>\<open>strsep\<close> on a pointer that may be \<open>NULL\<close>.\<close>

definition strsep_opt :: "char \<Rightarrow> c_string option \<Rightarrow> c_string option \<times> c_string option" where
  "strsep_opt c str =
     (case str of None \<Rightarrow> (None, None) | Some s \<Rightarrow> (case strsep c s of (t, r) \<Rightarrow> (Some t, r)))"

definition read_userpass :: "c_string option \<Rightarrow> c_string option \<Rightarrow> c_string option \<times> c_string option" where
  "read_userpass proxy auth =
     (if proxy \<noteq> None \<and> (case auth of None \<Rightarrow> False | Some a \<Rightarrow> has_prefix_ci ''basic:'' a)
      then (let auth = snd (strsep_opt (CHR '':'') auth);
                auth = snd (strsep_opt (CHR '':'') auth)
            in strsep_opt (CHR '':'') auth)
      else (None, None))"

definition readenv :: "(c_string \<Rightarrow> c_string option) \<Rightarrow> ph_error + http_env" where
  "readenv getenv =
     (let (proxy, port) =
            read_proxy (case getenv ''HTTP_PROXY'' of None \<Rightarrow> getenv ''http_proxy'' | Some v \<Rightarrow> Some v);
          (user, pass) = read_userpass proxy (getenv ''HTTP_PROXY_AUTH'');
          auth = (case (user, pass) of
              (Some u, Some p) \<Rightarrow>
                (case b64enc (u @ '':'' @ p) of
                   None \<Rightarrow> Inl (Err ''malloc'')
                 | Some e \<Rightarrow> Inr (Some (''Proxy-Authorization: Basic '' @ e @ [CHR 0x0D, CHR 0x0A])))
            | _ \<Rightarrow> Inr None);
          agent = (case getenv ''HTTP_USER_AGENT'' of None \<Rightarrow> ''phttpget/0.1'' | Some v \<Rightarrow> v);
          secs = (case getenv ''HTTP_TIMEOUT'' of
              None \<Rightarrow> 15
            | Some v \<Rightarrow> (case strtol10 v of (n, p) \<Rightarrow>
                if v = [] \<or> p \<noteq> [] \<or> n < 0 then 15 else n))
      in case auth of Inl e \<Rightarrow> Inl e | Inr auth \<Rightarrow>
           Inr \<lparr>env_HTTP_PROXY = proxy, proxyport = port, proxyauth = auth,
                env_HTTP_USER_AGENT = agent, timo = secs\<rparr>)"

section \<open>makerequest\<close>

definition makerequest :: "http_env \<Rightarrow> c_string \<Rightarrow> c_string \<Rightarrow> bool \<Rightarrow> string" where
  "makerequest env path server connclose =
     ''GET '' @ (if env_HTTP_PROXY env \<noteq> None then ''http://'' else '''') @
     (if env_HTTP_PROXY env \<noteq> None then server else '''') @ ''/'' @ path @ '' HTTP/1.1'' @ [CHR 0x0D, CHR 0x0A] @
     ''Host: '' @ server @ [CHR 0x0D, CHR 0x0A] @
     ''User-Agent: '' @ env_HTTP_USER_AGENT env @ [CHR 0x0D, CHR 0x0A] @
     (case proxyauth env of None \<Rightarrow> '''' | Some a \<Rightarrow> a) @
     (if connclose then ''Connection: Close'' @ [CHR 0x0D, CHR 0x0A]
      else ''Connection: Keep-Alive'' @ [CHR 0x0D, CHR 0x0A]) @
     [CHR 0x0D, CHR 0x0A]"

text \<open>The pieces of \<open>readenv\<close>.\<close>

lemma tolower_colon: "tolower c = CHR '':'' \<longleftrightarrow> c = CHR '':''"
proof -
  have colon: "uchar (CHR '':'') = 58" by (simp add: uchar_def)
  have "uchar (char_of (uchar c + 32)) = uchar c + 32" if "uchar c \<le> 90"
    using that uchar_range [of c] by (simp add: uchar_def)
  then have "tolower c \<noteq> CHR '':''" if "65 \<le> uchar c" "uchar c \<le> 90"
    using that colon by (auto simp: tolower_def)
  then show ?thesis using colon by (auto simp: tolower_def)
qed

lemma strchr_append: "c \<notin> set t \<Longrightarrow> strchr (t @ c # r) c = Some (c # r)"
  by (induction t) auto

lemma strchr_none: "c \<notin> set t \<Longrightarrow> strchr t c = None"
  by (induction t) auto

lemma cut_at_append: "c \<notin> set t \<Longrightarrow> cut_at c (t @ c # r) = t"
  by (auto simp: cut_at_def takeWhile_append2 takeWhile_tail)

lemma cut_at_none: "c \<notin> set t \<Longrightarrow> cut_at c t = t"
  by (auto simp: cut_at_def takeWhile_eq_all_conv)

definition auth_value :: "c_string \<Rightarrow> c_string \<Rightarrow> c_string \<Rightarrow> c_string \<Rightarrow> c_string" where
  "auth_value scheme realm user pass =
     scheme @ CHR '':'' # realm @ CHR '':'' # user @ CHR '':'' # pass"

lemma read_userpass_basic:
  assumes "map tolower scheme = ''basic''" "CHR '':'' \<notin> set realm" "CHR '':'' \<notin> set user"
  shows "read_userpass (Some p) (Some (auth_value scheme realm user pass)) = (Some user, Some pass)"
proof -
  have "CHR '':'' \<notin> set scheme"
  proof
    assume "CHR '':'' \<in> set scheme"
    then have "tolower (CHR '':'') \<in> set (map tolower scheme)" by simp
    then have "CHR '':'' \<in> set (map tolower scheme)" using tolower_colon by metis
    with assms(1) show False by simp
  qed
  moreover have "length scheme = 5" using arg_cong [OF assms(1), of length] by simp
  moreover have "tolower (CHR '':'') = CHR '':''" by (simp add: tolower_colon)
  ultimately show ?thesis
    using assms
    by (simp add: read_userpass_def strsep_opt_def auth_value_def has_prefix_ci_def has_prefix_def
        strsep_append tolower_def uchar_def)
qed

section \<open>Properties\<close>

text \<open>C31: On a text whose bytes at \<open>0x80\<close> and above stand only first in their group of three, the
  Base64 encoder fills its buffer exactly, and what it writes decodes, by the decoder of RFC 4648, to the text
  when its length is a multiple of three; on any other length the decoder returns one NUL byte more, because
  the encoder writes one padding character too few.  It gives up only on texts that come within two bytes
  of the longest whose code fits a \<open>size_t\<close>.\<close>

theorem b64enc_decode:
  assumes "b64_safe s"
  shows "case b64enc s of
           None \<Rightarrow> length s > ((SIZE_MAX - 1) div 4) * 3 - 2
         | Some e \<Rightarrow> b64_decode e = s @ (if 3 dvd length s then [] else [CHR 0x00]) \<and>
                     Suc (length e) = b64_ctlen (length s) \<and> b64_ctlen (length s) \<le> SIZE_MAX"
  using b64_loop_decode [OF assms] length_b64_loop [of s]
  by (auto simp: b64enc_def b64_ctlen_def SIZE_MAX_def)

theorem b64enc_decode_witness:
  "b64_safe ''user:pw'' \<and> b64enc ''user:pw'' = Some ''dXNlcjpwdwA='' \<and>
   b64_decode ''dXNlcjpwdwA='' = ''user:pw'' @ [CHR 0x00]"
proof -
  have safe: "b64_safe ''user:pw''" by code_simp
  moreover have e: "b64enc ''user:pw'' = Some ''dXNlcjpwdwA=''"
    using b64_loop_groups(3) [of "CHR ''w''"]
    by (simp add: b64enc_def SIZE_MAX_def b64_loop_groups quad_def sextet_def schar_def base64_def)
  moreover have "\<not> 3 dvd length ''user:pw''" by code_simp
  ultimately show ?thesis
    using b64enc_decode [OF safe] unfolding e option.case by (simp only: if_False)
qed

text \<open>With a proxy and an \<open>HTTP_PROXY_AUTH\<close> of the documented form \<open>basic:realm:user:password\<close>
  (the scheme in any case, a password that may hold colons), the request header that \<open>readenv\<close>
  prepares carries the user and the password, and one NUL byte too many unless the length of
  \<open>user:password\<close> is a multiple of three.\<close>

theorem readenv_credentials:
  assumes "getenv ''HTTP_PROXY'' = Some proxy"
    "getenv ''HTTP_PROXY_AUTH'' = Some (auth_value scheme realm user pass)"
    "map tolower scheme = ''basic''" "CHR '':'' \<notin> set realm" "CHR '':'' \<notin> set user"
    "b64_safe (user @ '':'' @ pass)" "length (user @ '':'' @ pass) \<le> 1000000"
  shows "case readenv getenv of
           Inl e \<Rightarrow> False
         | Inr env \<Rightarrow> (case proxyauth env of
             None \<Rightarrow> False
           | Some h \<Rightarrow> \<exists>e. h = ''Proxy-Authorization: Basic '' @ e @ [CHR 0x0D, CHR 0x0A] \<and>
               b64_decode e = (user @ '':'' @ pass) @
                 (if 3 dvd length (user @ '':'' @ pass) then [] else [CHR 0x00]))"
proof -
  obtain h port where p: "read_proxy (Some proxy) = (Some h, port)"
    by (cases "read_proxy (Some proxy)") (auto simp: read_proxy_def Let_def split: option.splits)
  have "b64enc (user @ '':'' @ pass) =
      Some (b64_loop (length (user @ '':'' @ pass)) (user @ '':'' @ pass))"
    by (rule b64enc_some) (use assms(7) in \<open>simp add: SIZE_MAX_def\<close>)
  then show ?thesis
    using p read_userpass_basic [OF assms(3-5), of h pass] b64_loop_decode [OF assms(6)]
    by (simp add: readenv_def assms(1,2) Let_def)
qed

definition env_sample :: "c_string \<Rightarrow> c_string option" where
  "env_sample v =
     (if v = ''HTTP_PROXY'' then Some ''http://cache:8080/''
      else if v = ''HTTP_PROXY_AUTH'' then Some (auth_value ''Basic'' ''*'' ''user'' ''pw'')
      else None)"

theorem readenv_credentials_witness:
  "case readenv env_sample of
     Inl e \<Rightarrow> False
   | Inr env \<Rightarrow> (case proxyauth env of
       None \<Rightarrow> False
     | Some h \<Rightarrow> \<exists>e. h = ''Proxy-Authorization: Basic '' @ e @ [CHR 0x0D, CHR 0x0A] \<and>
         b64_decode e = ''user:pw'' @ (if 3 dvd length ''user:pw'' then [] else [CHR 0x00]))"
proof -
  have t: "''user'' @ '':'' @ ''pw'' = ''user:pw''" by simp
  have a: "b64_safe (''user'' @ '':'' @ ''pw'')" by code_simp
  have b: "map tolower ''Basic'' = ''basic''" by code_simp
  have c: "env_sample ''HTTP_PROXY'' = Some ''http://cache:8080/''"
    "env_sample ''HTTP_PROXY_AUTH'' = Some (auth_value ''Basic'' ''*'' ''user'' ''pw'')"
    by (simp_all add: env_sample_def)
  have d: "CHR '':'' \<notin> set ''*''" "CHR '':'' \<notin> set ''user''"
    "length (''user'' @ '':'' @ ''pw'') \<le> 1000000" by simp_all
  show ?thesis
    using readenv_credentials [OF c b d(1,2) a d(3)] unfolding t .
qed

text \<open>\<open>readenv\<close> takes the host and the port from \<open>HTTP_PROXY\<close>, with or without \<open>http://\<close> in front
  and a path behind, uses port 3128 when there is none, and the requests it leads to name the
  server in the request line only when there is a proxy.\<close>

theorem readenv_proxy:
  assumes "CHR '':'' \<notin> set host" "CHR ''/'' \<notin> set host" "CHR ''/'' \<notin> set port"
    "url \<in> {host @ '':'' @ port, ''http://'' @ host @ '':'' @ port,
            ''http://'' @ host @ '':'' @ port @ ''/'' @ path}"
  shows "read_proxy (Some url) = (Some host, port) \<and>
         read_proxy (Some (''http://'' @ host @ ''/'' @ path)) = (Some host, ''3128'')"
proof -
  have no_http: "\<not> has_prefix ''http://'' (host @ CHR '':'' # port)"
  proof
    assume "has_prefix ''http://'' (host @ CHR '':'' # port)"
    then obtain r where r: "host @ CHR '':'' # port = ''http:'' @ CHR ''/'' # CHR ''/'' # r"
      unfolding has_prefix_def by (metis append.assoc append_Cons append_Nil append_take_drop_id)
    have "cut_at (CHR '':'') (host @ CHR '':'' # port) = host"
      using assms(1) by (rule cut_at_append)
    then have "host = ''http''" using r by (auto simp: cut_at_def)
    with r assms(3) show False by auto
  qed
  have cut: "cut_at (CHR ''/'') (host @ CHR '':'' # port) = host @ CHR '':'' # port"
    "cut_at (CHR ''/'') (host @ CHR '':'' # port @ CHR ''/'' # path) = host @ CHR '':'' # port"
    "cut_at (CHR ''/'') (host @ CHR ''/'' # path) = host"
    using assms(2,3) cut_at_append [of "CHR ''/''" "host @ CHR '':'' # port" path]
    by (auto intro: cut_at_none cut_at_append)
  show ?thesis
    using assms(4) no_http cut
    by (auto simp: read_proxy_def Let_def has_prefix_def strchr_append strchr_none assms(1)
        cut_at_append cut_at_none)
qed

theorem readenv_proxy_witness:
  "read_proxy (Some ''http://cache:8080/x'') = (Some ''cache'', ''8080'') \<and>
   read_proxy (Some ''http://cache/x'') = (Some ''cache'', ''3128'')"
  using readenv_proxy [of "''cache''" "''8080''" "''http://cache:8080/x''" "''x''"] by simp

end
