(* ===== verification/Http_Stream.thy ===== *)
theory Http_Stream
  imports Http_Auth
begin

text \<open>
  \<^verbatim>\<open>phttpget.c\<close>, part 2: reading from the socket (\<^verbatim>\<open>readln\<close>, \<^verbatim>\<open>copybytes\<close>).

  The socket is the list of what its \<open>recv\<close> calls meet: bytes (which a call with a smaller buffer
  takes in pieces), an interruption, an error; at the end of the list the peer has closed.  The
  files are a map from names to contents, \<open>fd\<close> is the name of the open one, and \<open>writes\<close> is what
  the \<open>write\<close> calls meet: short writes or an error; at the end of the list they are complete.
  \<open>resbuflen\<close> is the length of \<open>resbuf\<close>, so bytes behind it do not exist in the model.
\<close>

datatype recv_event = Data string | Intr | Recv_Error

datatype recv_result = Got string | Closed | Eintr | Failed

datatype write_event = Wrote nat | Write_Error

record conn =
  incoming :: "recv_event list"
  resbuf :: string
  resbufpos :: nat
  writes :: "write_event list"
  fd :: "c_string option"
  disk :: "c_string \<Rightarrow> string option"

definition BUFSIZ :: nat where
  "BUFSIZ = 1024"

section \<open>The system calls\<close>

fun recv :: "nat \<Rightarrow> recv_event list \<Rightarrow> recv_result \<times> recv_event list" where
  "recv n [] = (Closed, [])"
| "recv n (Data [] # es) = recv n es"
| "recv n (Data (b # bs) # es) =
     (Got (take n (b # bs)), if length (b # bs) \<le> n then es else Data (drop n (b # bs)) # es)"
| "recv n (Intr # es) = (Eintr, es)"
| "recv n (Recv_Error # es) = (Failed, es)"

fun recv_weight :: "recv_event list \<Rightarrow> nat" where
  "recv_weight [] = 0"
| "recv_weight (Data bs # es) = Suc (length bs + recv_weight es)"
| "recv_weight (e # es) = Suc (recv_weight es)"

lemma recv_less:
  "recv n es = (Got bs, es') \<Longrightarrow> 0 < n \<Longrightarrow> recv_weight es' + length bs \<le> recv_weight es \<and> bs \<noteq> [] \<and> length bs \<le> n"
  "recv n es = (Eintr, es') \<Longrightarrow> recv_weight es' < recv_weight es"
  "recv n es = (Failed, es') \<Longrightarrow> recv_weight es' < recv_weight es"
  "recv n es = (Closed, es') \<Longrightarrow> recv_weight es' \<le> recv_weight es"
  by (induction n es arbitrary: bs es' rule: recv.induct) (auto split: if_splits)

lemma recv_shrinks:
  "(Got bs, es') = recv n es \<Longrightarrow> 0 < n \<Longrightarrow> recv_weight es' < recv_weight es"
  "(Eintr, es') = recv n es \<Longrightarrow> recv_weight es' < recv_weight es"
  using recv_less(1) [of n es bs es'] recv_less(2) [of n es es']
  by (auto simp: eq_commute [of _ "recv n es"] neq_Nil_conv)

text \<open>\<open>write(fd, buf, len)\<close>: how many bytes were written, \<open>None\<close> for the error.\<close>

fun sys_write :: "nat \<Rightarrow> write_event list \<Rightarrow> nat option \<times> write_event list" where
  "sys_write len [] = (Some len, [])"
| "sys_write len (Wrote k # es) = (Some (min k len), es)"
| "sys_write len (Write_Error # es) = (None, es)"

section \<open>readln\<close>

text \<open>\<open>strnstr(s, "\r\n", len)\<close>: it stops at a NUL.\<close>

fun find_crlf :: "string \<Rightarrow> nat option" where
  "find_crlf [] = None"
| "find_crlf (x # xs) =
     (if x = CHR 0x00 then None
      else if x = CHR 0x0D \<and> take 1 xs = [CHR 0x0A] then Some 0
      else map_option Suc (find_crlf xs))"

definition unread :: "conn \<Rightarrow> string" where
  "unread s = drop (resbufpos s) (resbuf s)"

text \<open>The buffer is never longer than \<open>BUFSIZ\<close> (\<open>readln_ok\<close>), so the test for a full one may be \<open>\<ge>\<close>.\<close>

function readln :: "conn \<Rightarrow> bool \<times> conn" where
  "readln s =
     (if find_crlf (unread s) \<noteq> None then (True, s)
      else (let s = (if resbufpos s \<noteq> 0 then s\<lparr>resbuf := unread s, resbufpos := 0\<rparr> else s) in
        if length (resbuf s) \<ge> BUFSIZ then (False, s)
        else (case recv (BUFSIZ - length (resbuf s)) (incoming s) of
                (Got bs, es) \<Rightarrow> readln (s\<lparr>incoming := es, resbuf := resbuf s @ bs\<rparr>)
              | (Eintr, es) \<Rightarrow> readln (s\<lparr>incoming := es\<rparr>)
              | (_, es) \<Rightarrow> (False, s\<lparr>incoming := es\<rparr>))))"
  by pat_completeness auto
termination
  by (relation "measure (\<lambda>s. recv_weight (incoming s))")
     (auto simp: Let_def dest: recv_shrinks split: if_splits)

declare readln.simps [simp del]

section \<open>copybytes\<close>

datatype copied = Copied | Recv_Failed | Recv_Closed | Write_Died

definition append_file :: "string \<Rightarrow> conn \<Rightarrow> conn" where
  "append_file bs s =
     (case fd s of
        None \<Rightarrow> s
      | Some name \<Rightarrow> s\<lparr>disk := (disk s)(name := Some (case disk s name of None \<Rightarrow> bs | Some f \<Rightarrow> f @ bs))\<rparr>)"

function copybytes :: "nat \<Rightarrow> conn \<Rightarrow> copied \<times> conn" where
  "copybytes copylen s =
     (if copylen = 0 then (Copied, s)
      else (let len = min copylen (length (resbuf s) - resbufpos s) in
        if len > 0 then
          (case (if fd s \<noteq> None then sys_write len (writes s) else (Some len, writes s)) of
             (None, ws) \<Rightarrow> (Write_Died, s\<lparr>writes := ws\<rparr>)
           | (Some k, ws) \<Rightarrow>
               copybytes (copylen - k)
                 (append_file (take k (unread s)) (s\<lparr>writes := ws, resbufpos := resbufpos s + k\<rparr>)))
        else
          (case recv BUFSIZ (incoming s) of
             (Eintr, es) \<Rightarrow> copybytes copylen (s\<lparr>incoming := es\<rparr>)
           | (Failed, es) \<Rightarrow> (Recv_Failed, s\<lparr>incoming := es\<rparr>)
           | (Closed, es) \<Rightarrow> (Recv_Closed, s\<lparr>incoming := es\<rparr>)
           | (Got bs, es) \<Rightarrow> copybytes copylen (s\<lparr>incoming := es, resbuf := bs, resbufpos := 0\<rparr>))))"
  by pat_completeness auto

lemma append_file_simps [simp]:
  "incoming (append_file bs s) = incoming s" "resbuf (append_file bs s) = resbuf s"
  "resbufpos (append_file bs s) = resbufpos s" "writes (append_file bs s) = writes s"
  "fd (append_file bs s) = fd s"
  by (simp_all add: append_file_def split: option.splits)

lemma sys_write_progress:
  "(Some k, ws') = sys_write len ws \<Longrightarrow> 0 < len \<Longrightarrow> k \<le> len \<and> (length ws' < length ws \<or> ws' = ws \<and> k = len)"
  by (cases "(len, ws)" rule: sys_write.cases) auto

termination copybytes
proof (relation "measures [\<lambda>(n, s). recv_weight (incoming s), \<lambda>(n, s). length (writes s), fst]")
qed (auto simp: BUFSIZ_def dest: recv_shrinks dest!: sys_write_progress split: if_splits)

declare copybytes.simps [simp del]

section \<open>The stream of bytes\<close>

text \<open>What the code can still read: the rest of the buffer and what comes before the close or an
  error.\<close>

fun recv_bytes :: "recv_event list \<Rightarrow> string" where
  "recv_bytes [] = []"
| "recv_bytes (Data bs # es) = bs @ recv_bytes es"
| "recv_bytes (Intr # es) = recv_bytes es"
| "recv_bytes (Recv_Error # es) = []"

definition pending :: "conn \<Rightarrow> string" where
  "pending s = unread s @ recv_bytes (incoming s)"

definition conn_ok :: "conn \<Rightarrow> bool" where
  "conn_ok s \<longleftrightarrow> resbufpos s \<le> length (resbuf s) \<and> length (resbuf s) \<le> BUFSIZ"

lemma recv_bytes_recv:
  "recv n es = (Got bs, es') \<Longrightarrow> recv_bytes es = bs @ recv_bytes es'"
  "recv n es = (Eintr, es') \<Longrightarrow> recv_bytes es = recv_bytes es'"
  "recv n es = (Closed, es') \<Longrightarrow> recv_bytes es = []"
  "recv n es = (Failed, es') \<Longrightarrow> recv_bytes es = []"
  by (induction n es arbitrary: bs es' rule: recv.induct) (auto split: if_splits)

lemma recv_closed: "recv n es = (Closed, es') \<Longrightarrow> es' = []"
  by (induction n es rule: recv.induct) (auto split: if_splits)

lemma find_crlf_append: "find_crlf xs = Some k \<Longrightarrow> find_crlf (xs @ ys) = Some k"
proof (induction xs arbitrary: k)
  case (Cons x xs)
  then show ?case by (cases xs) (auto split: if_splits)
qed simp

lemma find_crlf_bound: "find_crlf xs = Some k \<Longrightarrow> k + 2 \<le> length xs"
proof (induction xs arbitrary: k)
  case (Cons x xs)
  show ?case
  proof (cases "x = CHR 0x0D \<and> take 1 xs = [CHR 0x0A]")
    case True
    with Cons.prems show ?thesis by (cases xs) (auto split: if_splits)
  qed (use Cons in \<open>auto split: if_splits\<close>)
qed simp

lemma find_crlf_prefix: "find_crlf (xs @ ys) = Some k \<Longrightarrow> k + 2 \<le> length xs \<Longrightarrow> find_crlf xs = Some k"
proof (induction xs arbitrary: k)
  case (Cons x xs)
  show ?case
  proof (cases "x = CHR 0x0D \<and> take 1 (xs @ ys) = [CHR 0x0A]")
    case True
    with Cons.prems show ?thesis by (cases xs) (auto split: if_splits)
  next
    case False
    with Cons.prems have "\<not> (x = CHR 0x0D \<and> take 1 xs = [CHR 0x0A])" by (cases xs) auto
    with False Cons show ?thesis by (auto split: if_splits)
  qed
qed simp

text \<open>\<open>readln\<close> finds a line exactly when the stream has one that fits the buffer.\<close>

definition has_line :: "string \<Rightarrow> bool" where
  "has_line bs \<longleftrightarrow> (case find_crlf bs of None \<Rightarrow> False | Some k \<Rightarrow> k + 2 \<le> BUFSIZ)"

definition same_files :: "conn \<Rightarrow> conn \<Rightarrow> bool" where
  "same_files s t \<longleftrightarrow> writes t = writes s \<and> fd t = fd s \<and> disk t = disk s"

definition readln_post :: "conn \<Rightarrow> bool \<times> conn \<Rightarrow> bool" where
  "readln_post s r \<longleftrightarrow>
     (case r of (ok, t) \<Rightarrow> conn_ok t \<and> same_files s t \<and> ok = has_line (pending s) \<and>
        (ok \<longrightarrow> pending t = pending s \<and> find_crlf (unread t) = find_crlf (pending s)))"

lemma has_line_full:
  assumes "find_crlf xs = None" "BUFSIZ \<le> length xs"
  shows "\<not> has_line (xs @ ys)"
  using assms find_crlf_prefix [of xs ys] by (auto simp: has_line_def split: option.splits)

lemma readln_post_step:
  "readln_post s' r \<Longrightarrow> pending s' = pending s \<Longrightarrow> same_files s s' \<Longrightarrow> readln_post s r"
  by (auto simp: readln_post_def same_files_def)

lemma readln_ok: "conn_ok s \<Longrightarrow> readln_post s (readln s)"
proof (induction s rule: readln.induct)
  case (1 s)
  let ?s = "if resbufpos s \<noteq> 0 then s\<lparr>resbuf := unread s, resbufpos := 0\<rparr> else s"
  let ?r = "recv (BUFSIZ - length (resbuf ?s)) (incoming ?s)"
  show ?case
  proof (cases "find_crlf (unread s)")
    case (Some k)
    then have "k + 2 \<le> BUFSIZ" "find_crlf (pending s) = Some k"
      using find_crlf_bound [of "unread s" k] "1.prems" find_crlf_append
      by (auto simp: conn_ok_def unread_def pending_def)
    with Some "1.prems" show ?thesis
      by (simp add: readln.simps [of s] readln_post_def same_files_def has_line_def)
  next
    case None
    have s: "conn_ok ?s" "pending ?s = pending s" "same_files s ?s" "resbuf ?s = unread s"
      "unread ?s = unread s"
      using "1.prems" by (auto simp: conn_ok_def pending_def unread_def same_files_def)
    show ?thesis
    proof (cases "BUFSIZ \<le> length (resbuf ?s)")
      case True
      then have "\<not> has_line (pending s)"
        using has_line_full [OF None] s(4) by (simp add: pending_def)
      with True None s show ?thesis
        by (subst readln.simps) (simp add: Let_def readln_post_def)
    next
      case False
      obtain x es where r: "?r = (x, es)" by (cases ?r)
      have loop: "readln s = (case x of
            Got bs \<Rightarrow> readln (?s\<lparr>incoming := es, resbuf := resbuf ?s @ bs\<rparr>)
          | Eintr \<Rightarrow> readln (?s\<lparr>incoming := es\<rparr>)
          | _ \<Rightarrow> (False, ?s\<lparr>incoming := es\<rparr>))"
        by (subst readln.simps) (use None False r in \<open>simp add: Let_def split: recv_result.splits\<close>)
      have zero: "resbufpos ?s = 0" by simp
      have end_post: "readln_post s (False, ?s\<lparr>incoming := es\<rparr>)" if "recv_bytes (incoming ?s) = []"
      proof -
        have "pending s = unread s" using s(2,5) that by (simp add: pending_def)
        with None have "\<not> has_line (pending s)" by (simp add: has_line_def)
        then show ?thesis using s by (simp add: readln_post_def conn_ok_def same_files_def)
      qed
      show ?thesis
      proof (cases x)
        case (Got bs)
        let ?t = "?s\<lparr>incoming := es, resbuf := resbuf ?s @ bs\<rparr>"
        have "length bs \<le> BUFSIZ - length (resbuf ?s)"
          using recv_less(1) [OF r [unfolded Got]] False by simp
        then have "conn_ok ?t" using False s(1) by (simp add: conn_ok_def)
        moreover have "pending ?t = pending s"
          using recv_bytes_recv(1) [OF r [unfolded Got]] s(2,5) zero
          by (simp add: pending_def unread_def)
        moreover have "same_files s ?t" using s(3) by (simp add: same_files_def)
        ultimately show ?thesis
          using "1.IH"(1) [OF _ refl False r [symmetric] Got] None loop readln_post_step
          unfolding Got recv_result.case by simp
      next
        case Eintr
        let ?t = "?s\<lparr>incoming := es\<rparr>"
        have "conn_ok ?t" using s(1) by (simp add: conn_ok_def)
        moreover have "pending ?t = pending s"
          using recv_bytes_recv(2) [OF r [unfolded Eintr]] s(2)
          by (simp add: pending_def unread_def)
        moreover have "same_files s ?t" using s(3) by (simp add: same_files_def)
        ultimately show ?thesis
          using "1.IH"(2) [OF _ refl False r [symmetric] Eintr] None loop readln_post_step
          unfolding Eintr recv_result.case by simp
      qed (use r loop end_post recv_bytes_recv(3,4) in simp_all)
    qed
  qed
qed

text \<open>\<open>copybytes\<close> moves the next bytes of the stream to the end of the open file.\<close>

definition file_ok :: "conn \<Rightarrow> bool" where
  "file_ok s \<longleftrightarrow> (case fd s of None \<Rightarrow> True | Some name \<Rightarrow> disk s name \<noteq> None)"

definition appended :: "string \<Rightarrow> conn \<Rightarrow> conn \<Rightarrow> bool" where
  "appended bs s t \<longleftrightarrow> fd t = fd s \<and> disk t = disk (append_file bs s) \<and>
     (Write_Error \<in> set (writes t) \<longrightarrow> Write_Error \<in> set (writes s))"

definition copy_post :: "nat \<Rightarrow> conn \<Rightarrow> copied \<times> conn \<Rightarrow> bool" where
  "copy_post n s r \<longleftrightarrow>
     (case r of
        (Copied, t) \<Rightarrow> conn_ok t \<and> file_ok t \<and> n \<le> length (pending s) \<and>
          pending t = drop n (pending s) \<and> appended (take n (pending s)) s t
      | (Recv_Failed, t) \<Rightarrow> conn_ok t \<and> file_ok t \<and> length (pending s) < n \<and> appended (pending s) s t
      | (Recv_Closed, t) \<Rightarrow> conn_ok t \<and> file_ok t \<and> length (pending s) < n \<and>
          pending t = [] \<and> appended (pending s) s t
      | (Write_Died, t) \<Rightarrow> fd s \<noteq> None \<and> Write_Error \<in> set (writes s))"

lemma append_file_Nil: "file_ok s \<Longrightarrow> disk (append_file [] s) = disk s"
  by (auto simp: append_file_def file_ok_def split: option.splits)

lemma append_file_append:
  "fd t = fd s \<Longrightarrow> disk t = disk (append_file a s) \<Longrightarrow>
   disk (append_file b t) = disk (append_file (a @ b) s)"
  by (auto simp: append_file_def split: option.splits)

lemma file_ok_append: "file_ok s \<Longrightarrow> file_ok (append_file bs s)"
  by (auto simp: append_file_def file_ok_def split: option.splits)

lemma appended_trans: "appended a s t \<Longrightarrow> appended b t u \<Longrightarrow> appended (a @ b) s u"
  unfolding appended_def using append_file_append by simp

lemma copy_post_step:
  assumes "copy_post (n - length a) t r" "appended a s t" "pending s = a @ pending t"
    "length a \<le> n"
  shows "copy_post n s r"
proof -
  have take: "take n (pending s) = a @ take (n - length a) (pending t)"
    "drop n (pending s) = drop (n - length a) (pending t)" using assms(3,4) by simp_all
  have "fd t = fd s" "Write_Error \<in> set (writes t) \<longrightarrow> Write_Error \<in> set (writes s)"
    using assms(2) by (simp_all add: appended_def)
  then show ?thesis
    using assms(1) appended_trans [OF assms(2)] assms(4)
    unfolding copy_post_def take by (auto simp: assms(3) split: prod.splits copied.splits)
qed

lemma sys_write_errors:
  "sys_write len ws = (k, ws') \<Longrightarrow> set ws' \<subseteq> set ws \<and> (k = None \<longrightarrow> Write_Error \<in> set ws)"
  by (cases "(len, ws)" rule: sys_write.cases) auto

lemma copybytes_ok: "conn_ok s \<Longrightarrow> file_ok s \<Longrightarrow> copy_post n s (copybytes n s)"
proof (induction n s rule: copybytes.induct)
  case (1 n s)
  let ?len = "min n (length (resbuf s) - resbufpos s)"
  show ?case
  proof (cases "n = 0")
    case True
    with "1.prems" show ?thesis
      by (simp add: copybytes.simps [of 0 s] copy_post_def appended_def append_file_Nil)
  next
    case n: False
    show ?thesis
    proof (cases "?len > 0")
      case True
      obtain k ws where w: "(if fd s \<noteq> None then sys_write ?len (writes s) else (Some ?len, writes s)) = (k, ws)"
        by fastforce
      show ?thesis
      proof (cases k)
        case None
        with w have "fd s \<noteq> None" "Write_Error \<in> set (writes s)"
          using sys_write_errors by (auto split: if_splits)
        with w n True None show ?thesis
          by (subst copybytes.simps) (simp add: copy_post_def Let_def)
      next
        case (Some j)
        let ?m = "s\<lparr>writes := ws, resbufpos := resbufpos s + j\<rparr>"
        let ?t = "append_file (take j (unread s)) ?m"
        have j: "j \<le> ?len" "set ws \<subseteq> set (writes s)"
          using w True Some sys_write_progress [of j ws ?len "writes s"] sys_write_errors [of ?len "writes s" k ws]
          by (auto split: if_splits)
        then have j': "j \<le> n" "j \<le> length (resbuf s) - resbufpos s" by simp_all
        have m: "file_ok ?m" using "1.prems"(2) by (simp add: file_ok_def split: option.splits)
        have ok: "conn_ok ?t" "file_ok ?t"
          using "1.prems"(1) j' file_ok_append [OF m] by (auto simp: conn_ok_def)
        have app: "appended (take j (unread s)) s ?t"
          using j(2) by (auto simp: appended_def append_file_def split: option.splits)
        have pend: "pending s = take j (unread s) @ pending ?t"
          using j' "1.prems"(1) by (simp add: pending_def unread_def conn_ok_def add.commute flip: drop_drop)
        have len: "length (take j (unread s)) = j" using j' by (simp add: unread_def)
        have "copy_post (n - j) ?t (copybytes (n - j) ?t)"
          by (rule "1.IH"(1) [OF n refl True w [unfolded Some, symmetric] refl ok])
        then have "copy_post n s (copybytes (n - j) ?t)"
          using copy_post_step [of n "take j (unread s)" ?t _ s] app pend len j' by simp
        moreover have "copybytes n s = copybytes (n - j) ?t"
          by (subst copybytes.simps) (use n True w Some in \<open>simp add: Let_def\<close>)
        ultimately show ?thesis by simp
      qed
    next
      case False
      then have empty: "unread s = []" using n by (simp add: unread_def)
      obtain x es where r: "recv BUFSIZ (incoming s) = (x, es)" by fastforce
      have loop: "copybytes n s = (case x of
            Eintr \<Rightarrow> copybytes n (s\<lparr>incoming := es\<rparr>)
          | Failed \<Rightarrow> (Recv_Failed, s\<lparr>incoming := es\<rparr>)
          | Closed \<Rightarrow> (Recv_Closed, s\<lparr>incoming := es\<rparr>)
          | Got bs \<Rightarrow> copybytes n (s\<lparr>incoming := es, resbuf := bs, resbufpos := 0\<rparr>))"
        by (subst copybytes.simps) (use n False r in \<open>simp add: Let_def split: recv_result.splits\<close>)
      have same: "appended [] s t" if "same_files s t" for t
        using that "1.prems"(2) by (simp add: appended_def same_files_def append_file_Nil)
      show ?thesis
      proof (cases x)
        case (Got bs)
        let ?t = "s\<lparr>incoming := es, resbuf := bs, resbufpos := 0\<rparr>"
        have "length bs \<le> BUFSIZ" using recv_less(1) [OF r [unfolded Got]] by (simp add: BUFSIZ_def)
        then have ok: "conn_ok ?t" "file_ok ?t" using "1.prems" by (simp_all add: conn_ok_def file_ok_def split: option.splits)
        have "copy_post n ?t (copybytes n ?t)"
          using "1.IH"(2) [OF n refl False r [symmetric] Got ok] .
        moreover have "pending s = pending ?t"
          using recv_bytes_recv(1) [OF r [unfolded Got]] empty by (simp add: pending_def unread_def)
        ultimately show ?thesis
          using copy_post_step [of n "[]" ?t _ s] same [of ?t] loop Got by (simp add: same_files_def)
      next
        case Eintr
        let ?t = "s\<lparr>incoming := es\<rparr>"
        have ok: "conn_ok ?t" "file_ok ?t" using "1.prems" by (simp_all add: conn_ok_def file_ok_def split: option.splits)
        have "copy_post n ?t (copybytes n ?t)"
          using "1.IH"(3) [OF n refl False r [symmetric] Eintr ok] .
        moreover have "pending s = pending ?t"
          using recv_bytes_recv(2) [OF r [unfolded Eintr]] empty by (simp add: pending_def unread_def)
        ultimately show ?thesis
          using copy_post_step [of n "[]" ?t _ s] same [of ?t] loop Eintr by (simp add: same_files_def)
      next
        case Closed
        then have "pending s = []" "recv_bytes es = []"
          using recv_bytes_recv(3) [OF r [unfolded Closed]] r empty
          by (auto simp: pending_def dest: recv_closed)
        with Closed n empty loop same [of "s\<lparr>incoming := es\<rparr>"] "1.prems" show ?thesis
          by (simp add: copy_post_def conn_ok_def file_ok_def same_files_def pending_def unread_def split: option.splits)
      next
        case Failed
        then have "pending s = []"
          using recv_bytes_recv(4) [OF r [unfolded Failed]] empty by (simp add: pending_def)
        with Failed n loop same [of "s\<lparr>incoming := es\<rparr>"] "1.prems" show ?thesis
          by (simp add: copy_post_def conn_ok_def file_ok_def same_files_def split: option.splits)
      qed
    qed
  qed
qed

section \<open>Lines\<close>

text \<open>A line is taken out of the buffer: \<open>hln\<close> is the text up to \<open>eolp\<close>, \<open>resbufpos\<close> moves behind the
  line end.\<close>

definition take_line :: "conn \<Rightarrow> string \<times> conn" where
  "take_line s =
     (case find_crlf (unread s) of
        None \<Rightarrow> ([], s)
      | Some k \<Rightarrow> (take k (unread s), s\<lparr>resbufpos := resbufpos s + k + 2\<rparr>))"

definition crlf :: string where
  "crlf = [CHR 0x0D, CHR 0x0A]"

definition plain :: "string \<Rightarrow> bool" where
  "plain l \<longleftrightarrow> CHR 0x00 \<notin> set l \<and> CHR 0x0D \<notin> set l"

lemma find_crlf_line: "plain l \<Longrightarrow> find_crlf (l @ crlf @ r) = Some (length l)"
  by (induction l) (auto simp: plain_def crlf_def)

lemma take_line_pending:
  assumes "conn_ok s" "find_crlf (unread s) = Some k"
  shows "fst (take_line s) = take k (unread s)" "conn_ok (snd (take_line s))"
    "pending (snd (take_line s)) = drop (k + 2) (pending s)" "same_files s (snd (take_line s))"
  using assms find_crlf_bound [OF assms(2)]
  by (auto simp: take_line_def conn_ok_def unread_def pending_def same_files_def add.commute)

text \<open>Reading one line that is there, and fits the buffer.\<close>

lemma readln_line:
  assumes "conn_ok s" "pending s = l @ crlf @ r" "plain l" "length l + 2 \<le> BUFSIZ"
  obtains t where "readln s = (True, t)" "fst (take_line t) = l" "conn_ok (snd (take_line t))"
    "pending (snd (take_line t)) = r" "same_files s (snd (take_line t))"
proof -
  obtain ok t where t: "readln s = (ok, t)" by fastforce
  have f: "find_crlf (pending s) = Some (length l)" using assms(2,3) by (simp add: find_crlf_line)
  with readln_ok [OF assms(1)] t assms(4)
  have post: "ok" "conn_ok t" "pending t = pending s" "find_crlf (unread t) = Some (length l)"
    "same_files s t"
    by (simp_all add: readln_post_def has_line_def)
  note take = take_line_pending [OF post(2,4)]
  have "take (length l) (unread t) = l"
  proof -
    have "take (length l) (pending t) = l" using post(3) assms(2) by simp
    with find_crlf_bound [OF post(4)] show ?thesis by (simp add: pending_def)
  qed
  with take t post assms(2) that [of t] show ?thesis
    by (simp add: crlf_def same_files_def)
qed

section \<open>Properties\<close>

definition conn_sample :: conn where
  "conn_sample =
     \<lparr>incoming = [Data ''ab'', Intr, Data [CHR 0x0D], Data (CHR 0x0A # ''cdef'')], resbuf = ''xy'',
      resbufpos = 1, writes = [Wrote 1], fd = Some ''f'', disk = (\<lambda>_. None)(''f'' := Some [])\<rparr>"

lemma conn_sample_ok: "conn_ok conn_sample" "file_ok conn_sample"
  "Write_Error \<notin> set (writes conn_sample)" "pending conn_sample = ''yab'' @ crlf @ ''cdef''"
  by (simp_all add: conn_ok_def conn_sample_def BUFSIZ_def file_ok_def pending_def unread_def crlf_def)

text \<open>\<open>readln\<close> succeeds exactly when the next line of the stream, with its end, fits the
  buffer and comes before a NUL, the close and an error, however the bytes arrive; then it has lost
  no byte and the line is in the buffer, which it never overfills.\<close>

theorem readln_correct:
  assumes "conn_ok s"
  shows "case readln s of
           (ok, t) \<Rightarrow> conn_ok t \<and> same_files s t \<and> ok = has_line (pending s) \<and>
             (if ok then pending t = pending s \<and> find_crlf (unread t) = find_crlf (pending s) else True)"
  using readln_ok [OF assms] by (auto simp: readln_post_def)

theorem readln_correct_witness:
  "conn_ok conn_sample \<and> has_line (pending conn_sample) \<and>
   (case readln conn_sample of (ok, t) \<Rightarrow> ok \<and> pending t = ''yab'' @ crlf @ ''cdef'')"
  using readln_correct [OF conn_sample_ok(1)] conn_sample_ok find_crlf_line [of "''yab''" "''cdef''"]
  by (auto simp: has_line_def plain_def BUFSIZ_def)

text \<open>C10: As long as no write fails, \<open>copybytes\<close> returns 0 exactly when the stream has the bytes asked
  for, and then exactly these were appended to the open file, whatever the sizes of the pieces in
  which they arrive and are written; otherwise all that came was appended.\<close>

theorem copybytes_correct:
  assumes "conn_ok s" "file_ok s" "Write_Error \<notin> set (writes s)"
  shows "case copybytes n s of
           (r, t) \<Rightarrow> r \<noteq> Write_Died \<and> (r = Copied \<longleftrightarrow> n \<le> length (pending s)) \<and>
             appended (take n (pending s)) s t \<and>
             (if r = Copied then pending t = drop n (pending s) else True) \<and>
             (if r = Recv_Closed then pending t = [] else True)"
proof -
  obtain r t where "copybytes n s = (r, t)" by fastforce
  then show ?thesis
    using copybytes_ok [OF assms(1,2), of n] assms(3) by (cases r) (auto simp: copy_post_def)
qed

theorem copybytes_correct_witness:
  "case copybytes 5 conn_sample of
     (r, t) \<Rightarrow> r = Copied \<and> appended (''yab'' @ crlf) conn_sample t \<and> pending t = ''cdef''"
  using copybytes_correct [OF conn_sample_ok(1-3), of 5] conn_sample_ok(4)
  by (auto simp: crlf_def numeral_eq_Suc)

end
