(* ===== verification/Http_Response.thy ===== *)
theory Http_Response
  imports Http_Stream
begin

text \<open>
  \<^verbatim>\<open>phttpget.c\<close>, part 3: one response (the header loop of \<^verbatim>\<open>main\<close> and the three ways of reading a
  body).  The NUL that the code writes over the CR of a header line is not modelled: it lies before
  \<open>resbufpos\<close>, where nothing is read again.
\<close>

section \<open>The header\<close>

record resp =
  statuscode :: "32 word"
  contentlength :: int
  chunked :: bool
  keepalive :: bool

definition OFF_MAX :: int where
  "OFF_MAX = 2 ^ 63 - 1"

text \<open>\<open>hln[i]\<close> of a C string, up to its NUL.\<close>

definition char_at :: "c_string \<Rightarrow> nat \<Rightarrow> char" where
  "char_at s i = (if i < length s then s ! i else CHR 0x00)"

text \<open>The status code is computed in an \<open>int\<close>; a long one wraps.\<close>

fun read_status :: "32 word \<Rightarrow> c_string \<Rightarrow> 32 word" where
  "read_status v [] = v"
| "read_status v (c # cs) =
     (if isdigit c then read_status (v * 10 + word_of_int (schar c) - 48) cs else v)"

text \<open>\<open>None\<close> is the jump out on a length that gets too large.  The sum \<open>contentlength * 10 + *hln\<close>
  can exceed \<open>OFF_MAX\<close> by less than 48 before the \<open>'0'\<close> is subtracted; the value modelled is the one
  after the subtraction.\<close>

fun read_length :: "int \<Rightarrow> c_string \<Rightarrow> int option" where
  "read_length v [] = Some v"
| "read_length v (c # cs) =
     (if isdigit c
      then (if v \<ge> OFF_MAX div 10 then None else read_length (v * 10 + uchar c - 48) cs)
      else Some v)"

fun read_hex :: "int \<Rightarrow> c_string \<Rightarrow> int option" where
  "read_hex v [] = Some v"
| "read_hex v (c # cs) =
     (if isxdigit c
      then (if v \<ge> OFF_MAX div 16 then None
            else if isdigit c then read_hex (v * 16 + uchar c - 48) cs
            else read_hex (v * 16 + 10 + uchar (tolower c) - 97) cs)
      else Some v)"

text \<open>What one line makes of the response and of the \<open>pipelined\<close> flag.\<close>

datatype header_step = More resp bool | Body resp bool | Garbage

definition status_line :: "bool \<Rightarrow> resp \<Rightarrow> c_string \<Rightarrow> header_step" where
  "status_line pipelined r hln =
     (if \<not> has_prefix ''HTTP/1.'' hln \<or> \<not> isdigit (char_at hln 7) then Garbage
      else (let pipelined = (if char_at hln 7 \<noteq> CHR ''0'' then True else pipelined) in
        case strchr (drop 7 hln) (CHR '' '') of
          None \<Rightarrow> Garbage
        | Some h \<Rightarrow>
            (let code = read_status 0 (tl h) in
             if sint code < 100 \<or> sint code > 599 then Garbage
             else More (r\<lparr>statuscode := code\<rparr>) pipelined)))"

definition header_line :: "bool \<Rightarrow> resp \<Rightarrow> c_string \<Rightarrow> header_step" where
  "header_line pipelined r hln =
     (if CHR 0x00 \<in> set hln then Garbage
      else if statuscode r = 0 then status_line pipelined r hln
      else if has_prefix_ci ''Connection:'' hln then
        (let hln = drop 11 hln in
         More (if strcasestr hln ''Keep-Alive'' then r\<lparr>keepalive := True\<rparr> else r)
           (if strcasestr hln ''close'' then False else pipelined))
      else if has_prefix_ci ''Content-Length:'' hln then
        (case read_length 0 (dropWhile (\<lambda>c. \<not> isdigit c) (drop 15 hln)) of
           None \<Rightarrow> Garbage
         | Some n \<Rightarrow> More (r\<lparr>contentlength := n\<rparr>) pipelined)
      else if has_prefix_ci ''Transfer-Encoding:'' hln then
        More (if strcasestr (drop 18 hln) ''chunked'' then r\<lparr>chunked := True\<rparr> else r) pipelined
      else if hln = [] then
        (if 100 \<le> sint (statuscode r) \<and> sint (statuscode r) \<le> 199
         then More (r\<lparr>statuscode := 0\<rparr>) pipelined else Body r pipelined)
      else More r pipelined)"

text \<open>The bytes that can still be taken off the connection, as a bound for the loops.\<close>

definition left :: "conn \<Rightarrow> nat" where
  "left s = recv_weight (incoming s) + length (unread s)"

lemma recv_left:
  "recv n es = (x, es') \<Longrightarrow> 0 < n \<or> x = Eintr \<Longrightarrow>
   recv_weight es' + (case x of Got bs \<Rightarrow> length bs | _ \<Rightarrow> 0) \<le> recv_weight es"
  by (induction n es rule: recv.induct) (auto split: if_splits)

lemma recv_weight_le: "recv n es = (x, es') \<Longrightarrow> recv_weight es' \<le> recv_weight es"
  by (induction n es rule: recv.induct) (auto split: if_splits)

lemma readln_left: "readln s = (ok, t) \<Longrightarrow> left t \<le> left s \<and> (ok \<longrightarrow> find_crlf (unread t) \<noteq> None)"
proof (induction s rule: readln.induct)
  case (1 s)
  let ?s = "if resbufpos s \<noteq> 0 then s\<lparr>resbuf := unread s, resbufpos := 0\<rparr> else s"
  have same: "resbuf ?s = unread s" "resbufpos ?s = 0" "incoming ?s = incoming s"
    by (auto simp: unread_def)
  show ?case
  proof (cases "find_crlf (unread s)")
    case (Some k)
    with "1.prems" show ?thesis by (subst (asm) readln.simps) simp
  next
    case None
    show ?thesis
    proof (cases "BUFSIZ \<le> length (resbuf ?s)")
      case True
      with None "1.prems" show ?thesis
        by (subst (asm) readln.simps) (auto simp: Let_def left_def unread_def)
    next
      case False
      obtain x es where r: "recv (BUFSIZ - length (resbuf ?s)) (incoming ?s) = (x, es)" by fastforce
      have loop: "readln s = (case x of
            Got bs \<Rightarrow> readln (?s\<lparr>incoming := es, resbuf := resbuf ?s @ bs\<rparr>)
          | Eintr \<Rightarrow> readln (?s\<lparr>incoming := es\<rparr>)
          | _ \<Rightarrow> (False, ?s\<lparr>incoming := es\<rparr>))"
        by (subst readln.simps) (use None False r in \<open>simp add: Let_def split: recv_result.splits\<close>)
      have le: "recv_weight es + (case x of Got bs \<Rightarrow> length bs | _ \<Rightarrow> 0) \<le> recv_weight (incoming s)"
        using recv_left [OF r] same(3) False by simp
      show ?thesis
      proof (cases x)
        case (Got bs)
        with le loop "1.prems" "1.IH"(1) [OF _ refl False r [symmetric] Got] None same show ?thesis
          by (simp add: left_def unread_def [of "_\<lparr>resbuf := _\<rparr>"])
      next
        case Eintr
        with le loop "1.prems" "1.IH"(2) [OF _ refl False r [symmetric] Eintr] None same show ?thesis
          by (simp add: left_def unread_def [of "_\<lparr>incoming := _\<rparr>"])
      qed (use le loop "1.prems" same in \<open>auto simp: left_def unread_def\<close>)
    qed
  qed
qed

lemma take_line_left: "find_crlf (unread s) \<noteq> None \<Longrightarrow> left (snd (take_line s)) < left s"
  using find_crlf_bound [of "unread s"]
  by (force simp: take_line_def left_def unread_def)

lemma next_line_left: "(True, t) = readln s \<Longrightarrow> (l, u) = take_line t \<Longrightarrow> left u < left s"
  using readln_left [of s True t] take_line_left [of t] by (metis less_le_trans snd_conv)

function read_headers :: "bool \<Rightarrow> resp \<Rightarrow> conn \<Rightarrow> (resp \<times> bool) option \<times> conn" where
  "read_headers pipelined r s =
     (case readln s of
        (False, s) \<Rightarrow> (None, s)
      | (True, s) \<Rightarrow>
          (case take_line s of (hln, s) \<Rightarrow>
             (case header_line pipelined r hln of
                Garbage \<Rightarrow> (None, s)
              | Body r pipelined \<Rightarrow> (Some (r, pipelined), s)
              | More r pipelined \<Rightarrow> read_headers pipelined r s)))"
  by pat_completeness auto
termination
  by (relation "measure (\<lambda>(_, _, s). left s)") (auto dest: next_line_left)

declare read_headers.simps [simp del]

section \<open>The body\<close>

datatype body_result = Body_Done | Body_Dead | Body_Write_Error

definition copy_result :: "copied \<Rightarrow> body_result" where
  "copy_result r = (case r of Copied \<Rightarrow> Body_Done | Write_Died \<Rightarrow> Body_Write_Error | _ \<Rightarrow> Body_Dead)"

lemma copybytes_left: "(r, t) = copybytes n s \<Longrightarrow> left t \<le> left s"
proof (induction n s rule: copybytes.induct)
  case (1 n s)
  let ?len = "min n (length (resbuf s) - resbufpos s)"
  show ?case
  proof (cases "n = 0 \<or> ?len > 0")
    case True
    then show ?thesis
      using "1.prems" "1.IH"(1)
      by (subst (asm) copybytes.simps)
         (fastforce simp: Let_def left_def unread_def split: if_splits prod.splits option.splits)
  next
    case False
    then have n: "n \<noteq> 0" "\<not> ?len > 0" by auto
    obtain x es where r: "recv BUFSIZ (incoming s) = (x, es)" by fastforce
    have loop: "copybytes n s = (case x of
            Eintr \<Rightarrow> copybytes n (s\<lparr>incoming := es\<rparr>)
          | Failed \<Rightarrow> (Recv_Failed, s\<lparr>incoming := es\<rparr>)
          | Closed \<Rightarrow> (Recv_Closed, s\<lparr>incoming := es\<rparr>)
          | Got bs \<Rightarrow> copybytes n (s\<lparr>incoming := es, resbuf := bs, resbufpos := 0\<rparr>))"
      by (subst copybytes.simps) (use n r in \<open>simp add: Let_def split: recv_result.splits\<close>)
    have le: "recv_weight es + (case x of Got bs \<Rightarrow> length bs | _ \<Rightarrow> 0) \<le> recv_weight (incoming s)"
      using recv_left [OF r] by (simp add: BUFSIZ_def)
    show ?thesis
    proof (cases x)
      case (Got bs)
      with le loop "1.prems" "1.IH"(2) [OF n(1) refl n(2) r [symmetric] Got] show ?thesis
        by (simp add: left_def unread_def)
    next
      case Eintr
      with le loop "1.prems" "1.IH"(3) [OF n(1) refl n(2) r [symmetric] Eintr] show ?thesis
        by (simp add: left_def unread_def)
    qed (use le loop "1.prems" in \<open>auto simp: left_def unread_def\<close>)
  qed
qed

text \<open>The chunks, with the code's loop: the next line is a chunk size, whatever it is.\<close>

function read_chunks :: "conn \<Rightarrow> body_result \<times> conn" where
  "read_chunks s =
     (case readln s of
        (False, s) \<Rightarrow> (Body_Dead, s)
      | (True, s) \<Rightarrow>
          (case take_line s of (hln, s) \<Rightarrow>
             (case read_hex 0 hln of
                None \<Rightarrow> (Body_Dead, s)
              | Some clen \<Rightarrow>
                  (case copybytes (nat clen) s of (c, s) \<Rightarrow>
                     if copy_result c \<noteq> Body_Done then (copy_result c, s)
                     else if clen \<noteq> 0 then read_chunks s
                     else (Body_Done, s)))))"
  by pat_completeness auto
termination
  by (relation "measure left") (auto dest!: next_line_left copybytes_left intro: le_less_trans)

text \<open>The trailer up to an empty line.\<close>

function read_trailer :: "conn \<Rightarrow> body_result \<times> conn" where
  "read_trailer s =
     (case readln s of
        (False, s) \<Rightarrow> (Body_Dead, s)
      | (True, s) \<Rightarrow>
          (case take_line s of (hln, s) \<Rightarrow>
             if hln \<noteq> [] then read_trailer s else (Body_Done, s)))"
  by pat_completeness auto
termination
  by (relation "measure left") (auto dest: next_line_left)

declare read_chunks.simps [simp del] read_trailer.simps [simp del]

definition read_body :: "resp \<Rightarrow> bool \<Rightarrow> conn \<Rightarrow> body_result \<times> bool \<times> conn" where
  "read_body r pipelined s =
     (if chunked r then
        (case read_chunks s of (b, s) \<Rightarrow>
           if b \<noteq> Body_Done then (b, pipelined, s)
           else (case read_trailer s of (b, s) \<Rightarrow> (b, pipelined, s)))
      else if contentlength r \<noteq> - 1 then
        (case copybytes (nat (contentlength r)) s of (c, s) \<Rightarrow> (copy_result c, pipelined, s))
      else
        (case copybytes (nat OFF_MAX) s of (c, s) \<Rightarrow>
           if c = Recv_Failed then (Body_Dead, pipelined, s)
           else if c = Write_Died then (Body_Write_Error, pipelined, s)
           else (Body_Done, False, s)))"

section \<open>Numbers in headers\<close>

lemma isdigit_schar: "isdigit c \<Longrightarrow> schar c = uchar c"
  by (simp add: isdigit_def schar_uchar)

text \<open>The value of a decimal number, and of a hexadecimal one.\<close>

lemma digits_value_Cons:
  "digits_value (ds @ [c]) = digits_value ds * 10 + (uchar c - 48)"
  by (simp add: digits_value_def)

lemma read_status_value:
  "read_status v cs = foldl (\<lambda>v c. v * 10 + word_of_int (uchar c - 48)) v (takeWhile isdigit cs)"
  by (induction v cs rule: read_status.induct) (auto simp: isdigit_schar add_diff_eq)

lemma foldl_word_of_int:
  "foldl (\<lambda>v c. v * 10 + word_of_int (uchar c - 48)) (word_of_int v) ds =
   word_of_int (foldl (\<lambda>v c. v * 10 + (uchar c - 48)) v ds)"
proof (induction ds arbitrary: v)
  case (Cons d ds)
  have "word_of_int v * 10 + word_of_int (uchar d - 48) = (word_of_int (v * 10 + (uchar d - 48)) :: 'a word)"
    by simp
  with Cons [of "v * 10 + (uchar d - 48)"] show ?case by simp
qed simp

lemma read_status_digits:
  "read_status 0 cs = word_of_int (digits_value (takeWhile isdigit cs))"
  using foldl_word_of_int [of 0 "takeWhile isdigit cs"] by (simp add: read_status_value digits_value_def)

lemma digits_value_nonneg:
  "list_all isdigit ds \<Longrightarrow> 0 \<le> v \<Longrightarrow> 0 \<le> foldl (\<lambda>v c. v * 10 + (uchar c - 48)) v ds"
  by (induction ds arbitrary: v) (auto simp: isdigit_def)

lemma foldl_digits_mono:
  "list_all isdigit ds \<Longrightarrow> 0 \<le> v \<Longrightarrow> v \<le> foldl (\<lambda>v c. v * 10 + (uchar c - 48)) v ds"
proof (induction ds arbitrary: v)
  case (Cons d ds)
  then have v: "v \<le> v * 10 + (uchar d - 48)" "0 \<le> v * 10 + (uchar d - 48)" by (auto simp: isdigit_def)
  show ?case using order_trans [OF v(1) Cons.IH [OF _ v(2)]] Cons.prems by simp
qed simp

lemma read_length_foldl:
  "list_all isdigit ds \<Longrightarrow> 0 \<le> v \<Longrightarrow> rest = [] \<or> \<not> isdigit (hd rest) \<Longrightarrow>
   foldl (\<lambda>v c. v * 10 + (uchar c - 48)) v ds < OFF_MAX div 10 \<Longrightarrow>
   read_length v (ds @ rest) = Some (foldl (\<lambda>v c. v * 10 + (uchar c - 48)) v ds)"
proof (induction ds arbitrary: v)
  case Nil
  then show ?case by (cases rest) auto
next
  case (Cons d ds)
  let ?v = "v * 10 + (uchar d - 48)"
  have d: "isdigit d" "list_all isdigit ds" using Cons.prems by simp_all
  then have "0 \<le> ?v" "v \<le> ?v" using Cons.prems(2) by (auto simp: isdigit_def)
  moreover have "?v \<le> foldl (\<lambda>v c. v * 10 + (uchar c - 48)) ?v ds"
    by (rule foldl_digits_mono [OF d(2)]) (use calculation in simp)
  ultimately show ?case
    using Cons.IH [of ?v] Cons.prems d by (simp add: algebra_simps)
qed

lemma read_length_bound:
  "0 \<le> v \<Longrightarrow> v < OFF_MAX \<Longrightarrow> read_length v s = Some n \<Longrightarrow> 0 \<le> n \<and> n < OFF_MAX"
proof (induction v s rule: read_length.induct)
  case (2 v c cs)
  show ?case
  proof (cases "isdigit c \<and> v < OFF_MAX div 10")
    case True
    then have "0 \<le> v * 10 + uchar c - 48" "v * 10 + uchar c - 48 < OFF_MAX"
      using "2.prems" by (auto simp: isdigit_def OFF_MAX_def)
    with True 2 show ?thesis by simp
  qed (use 2 in \<open>auto split: if_splits\<close>)
qed simp

lemma read_hex_bound:
  "0 \<le> v \<Longrightarrow> v < OFF_MAX \<Longrightarrow> read_hex v s = Some n \<Longrightarrow> 0 \<le> n \<and> n < OFF_MAX"
proof (induction v s rule: read_hex.induct)
  case (2 v c cs)
  show ?case
  proof (cases "isxdigit c \<and> v < OFF_MAX div 16")
    case True
    then have "0 \<le> v" "v * 16 + 16 < OFF_MAX" using "2.prems" by (auto simp: OFF_MAX_def)
    then have "isdigit c \<Longrightarrow> 0 \<le> v * 16 + uchar c - 48 \<and> v * 16 + uchar c - 48 < OFF_MAX"
      "\<not> isdigit c \<Longrightarrow> 0 \<le> v * 16 + 10 + uchar (tolower c) - 97 \<and>
         v * 16 + 10 + uchar (tolower c) - 97 < OFF_MAX"
      using True by (auto simp: isdigit_def isxdigit_def)
    with True 2 show ?thesis by (auto split: if_splits)
  qed (use 2 in \<open>auto split: if_splits\<close>)
qed simp

section \<open>Reading a response off the stream\<close>

definition lines :: "string list \<Rightarrow> string" where
  "lines ls = concat (map (\<lambda>l. l @ crlf) ls)"

definition line_ok :: "string \<Rightarrow> bool" where
  "line_ok l \<longleftrightarrow> plain l \<and> length l + 2 \<le> BUFSIZ"

lemma lines_simps [simp]: "lines [] = []" "lines (l # ls) = l @ crlf @ lines ls"
  "lines (ls @ ms) = lines ls @ lines ms"
  by (simp_all add: lines_def)

fun fold_header :: "bool \<Rightarrow> resp \<Rightarrow> string list \<Rightarrow> (resp \<times> bool \<times> string list) option" where
  "fold_header p r [] = None"
| "fold_header p r (l # ls) =
     (case header_line p r l of
        Garbage \<Rightarrow> None
      | Body r p \<Rightarrow> Some (r, p, ls)
      | More r p \<Rightarrow> fold_header p r ls)"

lemma same_files_trans: "same_files a b \<Longrightarrow> same_files b c \<Longrightarrow> same_files a c"
  by (simp add: same_files_def)

lemma next_line:
  assumes "conn_ok s" "pending s = l @ crlf @ r" "line_ok l"
  obtains t u where "readln s = (True, t)" "take_line t = (l, u)" "conn_ok u" "pending u = r"
    "same_files s u"
  using readln_line [OF assms(1,2)] assms(3) unfolding line_ok_def by (metis prod.collapse)

lemma read_headers_lines:
  "conn_ok s \<Longrightarrow> pending s = lines ls @ rest \<Longrightarrow> list_all line_ok ls \<Longrightarrow>
   fold_header p r ls = Some (r', p', ls') \<Longrightarrow>
   \<exists>t. read_headers p r s = (Some (r', p'), t) \<and> conn_ok t \<and> same_files s t \<and>
       pending t = lines ls' @ rest"
proof (induction ls arbitrary: s p r)
  case (Cons l ls)
  obtain t u where u: "readln s = (True, t)" "take_line t = (l, u)" "conn_ok u"
    "pending u = lines ls @ rest" "same_files s u"
    using next_line [OF Cons.prems(1), of l "lines ls @ rest"] Cons.prems(2,3) by auto
  show ?case
  proof (cases "header_line p r l")
    case (More r1 p1)
    then have "fold_header p1 r1 ls = Some (r', p', ls')" using Cons.prems(4) by simp
    with Cons.IH [OF u(3,4)] Cons.prems(3) obtain v where
      "read_headers p1 r1 u = (Some (r', p'), v)" "conn_ok v" "same_files u v"
      "pending v = lines ls' @ rest" by auto
    with More u show ?thesis
      by (subst read_headers.simps) (auto intro: same_files_trans)
  next
    case (Body r1 p1)
    with u Cons.prems(4) show ?thesis by (subst read_headers.simps) auto
  next
    case Garbage
    with Cons.prems(4) show ?thesis by simp
  qed
qed simp

lemma read_trailer_lines:
  "conn_ok s \<Longrightarrow> pending s = lines ls @ crlf @ rest \<Longrightarrow> list_all (\<lambda>l. line_ok l \<and> l \<noteq> []) ls \<Longrightarrow>
   \<exists>t. read_trailer s = (Body_Done, t) \<and> conn_ok t \<and> same_files s t \<and> pending t = rest"
proof (induction ls arbitrary: s)
  case Nil
  have "line_ok []" by (simp add: line_ok_def plain_def BUFSIZ_def)
  then obtain t u where "readln s = (True, t)" "take_line t = ([], u)" "conn_ok u"
    "pending u = rest" "same_files s u"
    using next_line [OF Nil.prems(1), of "[]" rest] Nil.prems(2) by auto
  then show ?case by (subst read_trailer.simps) auto
next
  case (Cons l ls)
  obtain t u where u: "readln s = (True, t)" "take_line t = (l, u)" "conn_ok u"
    "pending u = lines ls @ crlf @ rest" "same_files s u"
    using next_line [OF Cons.prems(1), of l "lines ls @ crlf @ rest"] Cons.prems(2,3) by auto
  with Cons.IH [OF u(3,4)] Cons.prems(3) show ?case
    by (subst read_trailer.simps) (auto intro: same_files_trans)
qed

text \<open>\<open>copybytes\<close> with enough bytes and no failing write.\<close>

definition ready :: "conn \<Rightarrow> bool" where
  "ready s \<longleftrightarrow> conn_ok s \<and> file_ok s \<and> Write_Error \<notin> set (writes s)"

lemma ready_same_files: "ready s \<Longrightarrow> same_files s t \<Longrightarrow> conn_ok t \<Longrightarrow> ready t"
  by (auto simp: ready_def same_files_def file_ok_def split: option.splits)

lemma copy_body:
  assumes "ready s" "pending s = body @ rest"
  obtains t where "copybytes (length body) s = (Copied, t)" "ready t" "appended body s t"
    "pending t = rest"
proof -
  obtain r t where t: "copybytes (length body) s = (r, t)" by fastforce
  have "copy_post (length body) s (r, t)"
    using copybytes_ok [of s "length body"] assms(1) t by (simp add: ready_def)
  with assms have "r = Copied" "ready t" "appended body s t" "pending t = rest"
    by (cases r; auto simp: copy_post_def ready_def appended_def)+
  with t that show ?thesis by simp
qed

lemma appended_same_files:
  "same_files s t \<Longrightarrow> appended bs t u \<Longrightarrow> appended bs s u"
  "appended bs s t \<Longrightarrow> same_files t u \<Longrightarrow> appended bs s u"
  by (auto simp: appended_def same_files_def append_file_def split: option.splits)

section \<open>Chunked bodies\<close>

text \<open>A chunk is its size line, which the code reads as the length of the data, and the data.\<close>

definition chunk_ok :: "string \<times> string \<Rightarrow> bool" where
  "chunk_ok hc \<longleftrightarrow> (case hc of (h, c) \<Rightarrow>
     line_ok h \<and> h \<noteq> [] \<and> c \<noteq> [] \<and> read_hex 0 h = Some (int (length c)))"

definition chunks :: "(string \<times> string) list \<Rightarrow> string" where
  "chunks hcs = concat (map (\<lambda>(h, c). h @ crlf @ c @ crlf) hcs)"

lemma read_chunks_first:
  assumes "ready s" "pending s = h @ crlf @ c @ crlf @ rest" "chunk_ok (h, c)"
  shows "\<exists>t. read_chunks s = (Body_Done, t) \<and> ready t \<and> appended c s t \<and> pending t = rest"
proof -
  have h: "line_ok h" "c \<noteq> []" "read_hex 0 h = Some (int (length c))" "conn_ok s"
    using assms(1,3) by (simp_all add: chunk_ok_def ready_def)
  obtain t1 u1 where u1: "readln s = (True, t1)" "take_line t1 = (h, u1)" "conn_ok u1"
    "pending u1 = c @ crlf @ rest" "same_files s u1"
    using next_line [OF h(4) assms(2) h(1)] by blast
  have "ready u1" using ready_same_files assms(1) u1(3,5) by blast
  then obtain v where v: "copybytes (length c) u1 = (Copied, v)" "ready v" "appended c u1 v"
    "pending v = crlf @ rest"
    using copy_body u1(4) by blast
  have "line_ok []" by (simp add: line_ok_def plain_def BUFSIZ_def)
  then obtain t2 u2 where u2: "readln v = (True, t2)" "take_line t2 = ([], u2)" "conn_ok u2"
    "pending u2 = rest" "same_files v u2"
    using next_line [of v "[]" rest] v(2,4) by (auto simp: ready_def)
  have second: "read_chunks v = (Body_Done, u2)"
    using u2(1,2) by (subst read_chunks.simps) (simp add: copybytes.simps copy_result_def)
  have "read_chunks s = read_chunks v"
    using u1(1,2) v(1) h(2,3) by (subst read_chunks.simps) (simp add: copy_result_def)
  moreover have "appended c s u2"
    using appended_same_files u1(5) v(3) u2(5) by blast
  ultimately show ?thesis
    using second ready_same_files [OF v(2) u2(5,3)] u2(4) by auto
qed

lemma read_body_chunked_ok:
  assumes "ready s" "chunked r" "list_all chunk_ok ((h, c) # hcs)"
    "list_all (\<lambda>hc. line_ok (snd hc)) hcs" "list_all (\<lambda>l. line_ok l \<and> l \<noteq> []) (last_size # trailer)"
    "pending s = chunks ((h, c) # hcs) @ lines (last_size # trailer) @ crlf @ rest"
  shows "\<exists>t. read_body r p s = (Body_Done, p, t) \<and> ready t \<and> appended c s t \<and> pending t = rest"
proof -
  let ?ls = "concat (map (\<lambda>(h, c). [h, c]) hcs) @ last_size # trailer"
  have hcs: "chunks hcs = lines (concat (map (\<lambda>(h, c). [h, c]) hcs))"
    by (induction hcs) (auto simp: chunks_def)
  have "pending s = h @ crlf @ c @ crlf @ lines ?ls @ crlf @ rest"
    using assms(6) hcs by (simp add: chunks_def)
  from read_chunks_first [OF assms(1) this] assms(3) obtain t where t:
    "read_chunks s = (Body_Done, t)" "ready t" "appended c s t" "pending t = lines ?ls @ crlf @ rest"
    by auto
  have "list_all (\<lambda>l. line_ok l \<and> l \<noteq> []) ?ls"
    using assms(3-5) by (auto simp: list_all_iff chunk_ok_def)
  from read_trailer_lines [OF _ t(4) this] t(2) obtain u where u:
    "read_trailer t = (Body_Done, u)" "conn_ok u" "same_files t u" "pending u = rest"
    by (auto simp: ready_def)
  then show ?thesis
    using t ready_same_files appended_same_files(2) assms(2) by (auto simp: read_body_def)
qed

section \<open>Bodies with a length\<close>

text \<open>Header lines that the code ignores.\<close>

definition neutral :: "string \<Rightarrow> bool" where
  "neutral l \<longleftrightarrow> line_ok l \<and> l \<noteq> [] \<and> \<not> has_prefix_ci ''Connection:'' l \<and>
     \<not> has_prefix_ci ''Content-Length:'' l \<and> \<not> has_prefix_ci ''Transfer-Encoding:'' l"

lemma neutral_header:
  "neutral l \<Longrightarrow> statuscode r \<noteq> 0 \<Longrightarrow> header_line p r l = More r p"
  by (simp add: neutral_def header_line_def line_ok_def plain_def)

lemma fold_neutral:
  "list_all neutral hs \<Longrightarrow> statuscode r \<noteq> 0 \<Longrightarrow> fold_header p r (hs @ ls) = fold_header p r ls"
  by (induction hs) (simp_all add: neutral_header)

definition status_text :: "char \<Rightarrow> string \<Rightarrow> string \<Rightarrow> string" where
  "status_text m code reason = ''HTTP/1.'' @ m # CHR '' '' # code @ reason"

lemma takeWhile_digits:
  "list_all isdigit ds \<Longrightarrow> r = [] \<or> \<not> isdigit (hd r) \<Longrightarrow> takeWhile isdigit (ds @ r) = ds"
  by (cases r; induction ds) auto

lemma sint_small: "0 \<le> n \<Longrightarrow> n < 2 ^ 31 \<Longrightarrow> sint (word_of_int n :: 32 word) = n"
  by (simp add: signed_take_bit_int_eq_self sint_sbintrunc')

lemma status_header:
  assumes "line_ok (status_text m code reason)" "isdigit m" "list_all isdigit code"
    "100 \<le> digits_value code" "digits_value code \<le> 599" "reason = [] \<or> \<not> isdigit (hd reason)"
    "statuscode r = 0"
  shows "header_line p r (status_text m code reason) =
     More (r\<lparr>statuscode := word_of_int (digits_value code)\<rparr>) (m \<noteq> CHR ''0'' \<or> p)"
proof -
  have "m \<noteq> CHR '' ''" using assms(2) by (auto simp: isdigit_def uchar_def)
  moreover have "read_status 0 (code @ reason) = word_of_int (digits_value code)"
    by (simp add: read_status_digits takeWhile_digits assms(3,6))
  moreover have "sint (word_of_int (digits_value code) :: 32 word) = digits_value code"
    using assms(4,5) by (intro sint_small) auto
  ultimately show ?thesis
    using assms
    by (auto simp: header_line_def status_line_def status_text_def line_ok_def plain_def
        has_prefix_def char_at_def Let_def)
qed

lemma length_header:
  assumes "line_ok (''Content-Length: '' @ ds)" "list_all isdigit ds"
    "digits_value ds < OFF_MAX div 10" "statuscode r \<noteq> 0"
  shows "header_line p r (''Content-Length: '' @ ds) = More (r\<lparr>contentlength := digits_value ds\<rparr>) p"
proof -
  have "dropWhile (\<lambda>c. \<not> isdigit c) (CHR '' '' # ds) = ds"
    using assms(2) by (cases ds) (simp_all add: isdigit_def uchar_def)
  moreover have "read_length 0 ds = Some (digits_value ds)"
    using read_length_foldl [of ds 0 "[]"] assms(2,3) by (simp add: digits_value_def)
  ultimately show ?thesis
    using assms(1,4)
    by (simp add: header_line_def line_ok_def plain_def has_prefix_ci_def has_prefix_def tolower_def uchar_def)
qed

text \<open>A final response with a length, as the lines of its header.\<close>

definition length_head ::
  "char \<Rightarrow> string \<Rightarrow> string \<Rightarrow> string list \<Rightarrow> string \<Rightarrow> string list \<Rightarrow> string list"
where
  "length_head m code reason hs len hs' =
     status_text m code reason # hs @ (''Content-Length: '' @ len) # hs' @ [[]]"

definition length_head_ok ::
  "char \<Rightarrow> string \<Rightarrow> string \<Rightarrow> string list \<Rightarrow> string \<Rightarrow> string list \<Rightarrow> nat \<Rightarrow> bool"
where
  "length_head_ok m code reason hs len hs' n \<longleftrightarrow>
     isdigit m \<and> list_all isdigit code \<and> 200 \<le> digits_value code \<and> digits_value code \<le> 599 \<and>
     (reason = [] \<or> \<not> isdigit (hd reason)) \<and> line_ok (status_text m code reason) \<and>
     list_all neutral (hs @ hs') \<and> line_ok (''Content-Length: '' @ len) \<and> list_all isdigit len \<and>
     digits_value len = int n \<and> int n < OFF_MAX div 10"

lemma fold_length_head:
  assumes "length_head_ok m code reason hs len hs' n" "statuscode r = 0"
  shows "fold_header p r (length_head m code reason hs len hs') =
     Some (r\<lparr>statuscode := word_of_int (digits_value code), contentlength := int n\<rparr>,
           m \<noteq> CHR ''0'' \<or> p, [])"
    "list_all line_ok (length_head m code reason hs len hs')"
proof -
  let ?c = "word_of_int (digits_value code) :: 32 word"
  note ok = assms(1) [unfolded length_head_ok_def]
  have s: "sint ?c = digits_value code" using ok by (intro sint_small) auto
  then have c: "?c \<noteq> 0" "\<not> sint ?c \<le> 199" using ok by auto
  have "header_line p r (status_text m code reason) =
      More (r\<lparr>statuscode := ?c\<rparr>) (m \<noteq> CHR ''0'' \<or> p)"
    using status_header [of m code reason r p] ok assms(2) by simp
  moreover have "header_line q (r\<lparr>statuscode := ?c\<rparr>) (''Content-Length: '' @ len) =
      More (r\<lparr>statuscode := ?c, contentlength := int n\<rparr>) q" for q
    using length_header [of len "r\<lparr>statuscode := ?c\<rparr>" q] ok c(1) by simp
  moreover have "header_line q (r\<lparr>statuscode := ?c, contentlength := int n\<rparr>) [] =
      Body (r\<lparr>statuscode := ?c, contentlength := int n\<rparr>) q" for q
    using c by (simp add: header_line_def has_prefix_ci_def has_prefix_def)
  ultimately show "fold_header p r (length_head m code reason hs len hs') =
     Some (r\<lparr>statuscode := ?c, contentlength := int n\<rparr>, m \<noteq> CHR ''0'' \<or> p, [])"
    using ok c(1) by (simp add: length_head_def fold_neutral)
  show "list_all line_ok (length_head m code reason hs len hs')"
    using ok by (auto simp: length_head_def list_all_iff neutral_def line_ok_def plain_def BUFSIZ_def)
qed

lemma response_with_length:
  assumes "ready s" "length_head_ok m code reason hs len hs' (length body)"
    "statuscode r = 0" "\<not> chunked r"
    "pending s = lines (length_head m code reason hs len hs') @ body @ rest"
  shows "\<exists>t. read_headers p r s =
       (Some (r\<lparr>statuscode := word_of_int (digits_value code), contentlength := int (length body)\<rparr>,
              m \<noteq> CHR ''0'' \<or> p), t) \<and> ready t \<and> same_files s t \<and> pending t = body @ rest"
proof -
  have "conn_ok s" using assms(1) by (simp add: ready_def)
  from read_headers_lines [OF this assms(5) fold_length_head(2,1) [OF assms(2)]] assms(2,3)
  show ?thesis using ready_same_files [OF assms(1)] by fastforce
qed

lemma body_with_length:
  assumes "ready t" "pending t = body @ rest" "\<not> chunked r" "contentlength r = int (length body)"
  shows "\<exists>u. read_body r p t = (Body_Done, p, u) \<and> ready u \<and> appended body t u \<and> pending u = rest"
proof -
  obtain u where "copybytes (length body) t = (Copied, u)" "ready u" "appended body t u"
    "pending u = rest"
    using copy_body [OF assms(1,2)] .
  then show ?thesis using assms(3,4) by (simp add: read_body_def copy_result_def)
qed

text \<open>A code of ten digits or more can wrap into the accepted range.\<close>

lemma status_code_wraps: "read_status 0 ''4294967496'' = 200"
  by (simp add: isdigit_def uchar_def schar_def)

section \<open>Properties\<close>

text \<open>A final response with a \<open>Content-Length\<close>, among any header lines that the code ignores and
  however it arrives, is read as its status code, its length and its body: exactly the body is
  appended to the open file and the stream stands at the first byte behind it.\<close>

theorem response_length_correct:
  assumes "ready s" "length_head_ok m code reason hs len hs' (length body)"
    "pending s = lines (length_head m code reason hs len hs') @ body @ rest"
  shows "case read_headers p \<lparr>statuscode = 0, contentlength = - 1, chunked = False, keepalive = k\<rparr> s of
           (None, t) \<Rightarrow> False
         | (Some (r, q), t) \<Rightarrow>
             statuscode r = word_of_int (digits_value code) \<and> contentlength r = int (length body) \<and>
             q = (m \<noteq> CHR ''0'' \<or> p) \<and>
             (case read_body r q t of
                (b, q', u) \<Rightarrow> b = Body_Done \<and> q' = q \<and> appended body s u \<and> pending u = rest)"
proof -
  let ?r = "\<lparr>statuscode = 0, contentlength = - 1, chunked = False, keepalive = k\<rparr>"
  let ?r' = "?r\<lparr>statuscode := word_of_int (digits_value code), contentlength := int (length body)\<rparr>"
  obtain t where t: "read_headers p ?r s = (Some (?r', m \<noteq> CHR ''0'' \<or> p), t)" "ready t"
    "same_files s t" "pending t = body @ rest"
    using response_with_length [OF assms(1,2) _ _ assms(3), of ?r p] by auto
  obtain u where "read_body ?r' (m \<noteq> CHR ''0'' \<or> p) t = (Body_Done, m \<noteq> CHR ''0'' \<or> p, u)"
    "appended body t u" "pending u = rest"
    using body_with_length [OF t(2,4), of ?r' "m \<noteq> CHR ''0'' \<or> p"] by auto
  with t appended_same_files(1) [OF t(3)] show ?thesis by simp
qed

definition response_sample :: conn where
  "response_sample =
     \<lparr>incoming = [Data (lines [''HTTP/1.1 200 OK'', ''Server: x'']), Intr,
        Data (lines [''Content-Length: 3'', []] @ ''a''), Data ''bcHTTP''], resbuf = [], resbufpos = 0,
      writes = [], fd = Some ''f'', disk = (\<lambda>_. None)(''f'' := Some [])\<rparr>"

lemma response_sample_ok:
  "ready response_sample"
  "length_head_ok (CHR ''1'') ''200'' '' OK'' [''Server: x''] ''3'' [] (length ''abc'')"
  "pending response_sample =
     lines (length_head (CHR ''1'') ''200'' '' OK'' [''Server: x''] ''3'' []) @ ''abc'' @ ''HTTP''"
proof -
  show "ready response_sample"
    by (simp add: ready_def response_sample_def conn_ok_def file_ok_def BUFSIZ_def)
  show "length_head_ok (CHR ''1'') ''200'' '' OK'' [''Server: x''] ''3'' [] (length ''abc'')"
    by (simp add: length_head_ok_def isdigit_def uchar_def digits_value_def line_ok_def plain_def
        status_text_def BUFSIZ_def neutral_def has_prefix_ci_def has_prefix_def tolower_def OFF_MAX_def)
  show "pending response_sample =
     lines (length_head (CHR ''1'') ''200'' '' OK'' [''Server: x''] ''3'' []) @ ''abc'' @ ''HTTP''"
    by (simp add: pending_def response_sample_def unread_def length_head_def status_text_def crlf_def)
qed

theorem response_length_correct_witness:
  "case read_headers False \<lparr>statuscode = 0, contentlength = - 1, chunked = False, keepalive = False\<rparr>
      response_sample of
     (None, t) \<Rightarrow> False
   | (Some (r, q), t) \<Rightarrow>
       statuscode r = word_of_int (digits_value ''200'') \<and> contentlength r = int (length ''abc'') \<and>
       q = (CHR ''1'' \<noteq> CHR ''0'' \<or> False) \<and>
       (case read_body r q t of
          (b, q', u) \<Rightarrow> b = Body_Done \<and> q' = q \<and> appended ''abc'' response_sample u \<and> pending u = ''HTTP'')"
  by (rule response_length_correct [OF response_sample_ok])

text \<open>A chunked body is reported as completely read although only its first chunk was
  appended to the file: the code does not skip the line end behind the data of a chunk, takes it for
  the size line of the last chunk, and reads all further chunks as lines of the trailer.  With a single
  chunk the result is right.\<close>

theorem chunked_body_first_chunk:
  assumes "ready s" "chunked r" "list_all chunk_ok ((h, c) # hcs)"
    "list_all (\<lambda>hc. line_ok (snd hc)) hcs" "list_all (\<lambda>l. line_ok l \<and> l \<noteq> []) (last_size # trailer)"
    "pending s = chunks ((h, c) # hcs) @ lines (last_size # trailer) @ crlf @ rest"
  shows "case read_body r p s of
           (b, q, t) \<Rightarrow> b = Body_Done \<and> q = p \<and> appended c s t \<and> pending t = rest"
  using read_body_chunked_ok [OF assms, of p] by auto

definition chunk_sample :: conn where
  "chunk_sample =
     \<lparr>incoming = [Data (chunks [(''2'', ''ab''), (''3'', ''cde'')] @ lines [''0''] @ crlf)],
      resbuf = [], resbufpos = 0, writes = [], fd = Some ''f'', disk = (\<lambda>_. None)(''f'' := Some [])\<rparr>"

theorem chunked_body_first_chunk_witness:
  "case read_body \<lparr>statuscode = 200, contentlength = - 1, chunked = True, keepalive = False\<rparr> True
      chunk_sample of
     (b, q, t) \<Rightarrow> b = Body_Done \<and> q = True \<and> appended ''ab'' chunk_sample t \<and> pending t = []"
proof (rule chunked_body_first_chunk)
  show "ready chunk_sample"
    by (simp add: ready_def chunk_sample_def conn_ok_def file_ok_def BUFSIZ_def)
  show "list_all chunk_ok ((''2'', ''ab'') # [(''3'', ''cde'')])"
    by (simp add: chunk_ok_def line_ok_def plain_def BUFSIZ_def isxdigit_def isdigit_def uchar_def OFF_MAX_def)
  show "pending chunk_sample =
      chunks ((''2'', ''ab'') # [(''3'', ''cde'')]) @ lines (''0'' # []) @ crlf @ []"
    by (simp add: pending_def chunk_sample_def unread_def)
qed (simp_all add: line_ok_def plain_def BUFSIZ_def)

end
