(* ===== verification/Http_Main.thy ===== *)
theory Http_Main
  imports Http_Response
begin

text \<open>
  \<^verbatim>\<open>phttpget.c\<close>, part 4: \<^verbatim>\<open>main\<close>.  Outside the program are: the result of the address lookup
  (how many addresses), what becomes of each attempt to connect and what the connection then
  delivers and takes (\<open>attempt\<close>), and which files can be opened.  \<open>fcntl\<close>, \<open>malloc\<close> and \<open>asprintf\<close> are
  taken to succeed.
\<close>

section \<open>The state\<close>

datatype send_event = Sent nat | Again | Send_Error

datatype attempt =
  Socket_Failed
| Connect_Failed
| Connected "recv_event list" "send_event list"

record ph =
  net :: conn
  sd :: bool
  sends :: "send_event list"
  sent :: string
  nreq :: nat
  nres :: nat
  firstreq :: nat
  pipelined :: bool
  reqbuf :: "string option"
  reqbufpos :: nat
  res :: nat
  attempts :: "attempt list"
  report :: "(nat \<times> 32 word) list"

text \<open>\<open>sent\<close> is what the peer of the current connection was sent, \<open>res\<close> the number of addresses left to
  try, and \<open>report\<close> the lines about finished files on the standard error.\<close>

section \<open>Connecting\<close>

function connect_loop :: "ph \<Rightarrow> ph_error + ph" where
  "connect_loop s =
     (if sd s then Inr s
      else if res s = 0 then Inl No_Address
      else (let s = s\<lparr>res := res s - 1\<rparr> in
        case attempts s of
          [] \<Rightarrow> connect_loop s
        | Connected rs ss # as \<Rightarrow>
            Inr (s\<lparr>sd := True, net := (net s)\<lparr>incoming := rs\<rparr>, sends := ss, sent := [],
                   attempts := as, firstreq := nres s\<rparr>)
        | _ # as \<Rightarrow> connect_loop (s\<lparr>attempts := as\<rparr>)))"
  by pat_completeness auto
termination by (relation "measure res") auto

declare connect_loop.simps [simp del]

section \<open>Sending\<close>

text \<open>The \<open>send\<close> loop: how far it came, and \<open>None\<close>, or \<open>Some again\<close> for a \<open>-1\<close> with or without
  \<open>EAGAIN\<close>.\<close>

fun send_loop :: "nat \<Rightarrow> nat \<Rightarrow> send_event list \<Rightarrow> nat \<times> send_event list \<times> bool option" where
  "send_loop pos len [] = (max pos len, [], None)"
| "send_loop pos len (e # es) =
     (if pos < len then
        (case e of
           Sent k \<Rightarrow> send_loop (pos + min k (len - pos)) len es
         | Again \<Rightarrow> (pos, es, Some True)
         | Send_Error \<Rightarrow> (pos, es, Some False))
      else (pos, e # es, None))"

definition send_request :: "ph \<Rightarrow> bool option \<times> ph" where
  "send_request s =
     (let buf = (case reqbuf s of None \<Rightarrow> [] | Some b \<Rightarrow> b) in
      case send_loop (reqbufpos s) (length buf) (sends s) of
        (pos, es, err) \<Rightarrow>
          (err, s\<lparr>sends := es, sent := sent s @ take (pos - reqbufpos s) (drop (reqbufpos s) buf),
                  reqbufpos := pos\<rparr>))"

function send_requests :: "http_env \<Rightarrow> c_string \<Rightarrow> c_string list \<Rightarrow> ph \<Rightarrow> bool \<times> ph" where
  "send_requests env server argv s =
     (if nreq s < length argv \<and> (reqbuf s = None \<or> pipelined s) then
        (let s = (if reqbuf s = None
                  then s\<lparr>reqbuf := Some (makerequest env (argv ! nreq s) server (nreq s = length argv - 1)),
                         reqbufpos := 0\<rparr>
                  else s)
         in if pipelined s then
              (case send_request s of
                 (Some again, s) \<Rightarrow> (again, s)
               | (None, s) \<Rightarrow> send_requests env server argv (s\<lparr>reqbuf := None, nreq := nreq s + 1\<rparr>))
            else send_requests env server argv s)
      else (True, s))"
  by pat_completeness auto

lemma send_request_same:
  "send_request s = (e, t) \<Longrightarrow>
   nres t = nres s \<and> firstreq t = firstreq s \<and> sd t = sd s \<and> pipelined t = pipelined s \<and>
   nreq t = nreq s \<and> reqbuf t = reqbuf s \<and> net t = net s \<and> attempts t = attempts s \<and>
   res t = res s \<and> report t = report s"
  by (auto simp: send_request_def Let_def split: prod.splits)

lemma send_request_nreq: "(e, t) = send_request s \<Longrightarrow> nreq t = nreq s"
  by (auto simp: send_request_def Let_def split: prod.splits)

termination send_requests
  by (relation "measures [\<lambda>(_, _, argv, s). length argv - nreq s, \<lambda>(_, _, _, s). if reqbuf s = None then 1 else 0]")
     (auto dest: send_request_nreq split: if_splits)

declare send_requests.simps [simp del]

text \<open>The blocking send of the request whose response is read next.\<close>

definition send_blocking :: "ph \<Rightarrow> bool \<times> ph" where
  "send_blocking s =
     (if nres s = nreq s then
        (case send_request s of
           (None, s) \<Rightarrow> (True, s\<lparr>reqbuf := None, nreq := nreq s + 1\<rparr>)
         | (Some _, s) \<Rightarrow> (False, s))
      else (True, s))"

section \<open>Receiving\<close>

datatype outcome = Exit ph_error | Died | Cleanup | Go_On

text \<open>\<open>strrchr(path, '/')\<close>, one behind, or the whole path.\<close>

definition file_name :: "c_string \<Rightarrow> c_string" where
  "file_name path = rev (takeWhile (\<lambda>c. c \<noteq> CHR ''/'') (rev path))"

definition empty_resp :: resp where
  "empty_resp = \<lparr>statuscode = 0, contentlength = - 1, chunked = False, keepalive = False\<rparr>"

text \<open>The part of the loop from the finished header on.\<close>

definition receive_body :: "(c_string \<Rightarrow> bool) \<Rightarrow> c_string \<Rightarrow> resp \<Rightarrow> ph \<Rightarrow> outcome \<times> ph" where
  "receive_body can_open path r s =
     (if statuscode r = 204 \<or> statuscode r = 304 then (Go_On, s\<lparr>nres := nres s + 1\<rparr>)
      else (let fname = file_name path in
        if statuscode r = 200 \<and> fname = [] then (Exit No_File_Name, s)
        else if statuscode r = 200 \<and> \<not> can_open fname then (Exit (Open_Failed fname), s)
        else (let s = (if statuscode r = 200
                       then s\<lparr>net := (net s)\<lparr>fd := Some fname, disk := (disk (net s))(fname := Some [])\<rparr>\<rparr>
                       else s)
              in case read_body r (pipelined s) (net s) of
                   (Body_Write_Error, p, c) \<Rightarrow> (Exit Write_Failed, s\<lparr>net := c, pipelined := p\<rparr>)
                 | (Body_Dead, p, c) \<Rightarrow> (Died, s\<lparr>net := c, pipelined := p\<rparr>)
                 | (Body_Done, p, c) \<Rightarrow>
                     (if \<not> p \<and> \<not> keepalive r then Cleanup else Go_On,
                      s\<lparr>net := c\<lparr>fd := None\<rparr>, pipelined := p, nres := nres s + 1,
                        report := report s @ [(nres s, statuscode r)]\<rparr>))))"

definition receive :: "(c_string \<Rightarrow> bool) \<Rightarrow> c_string list \<Rightarrow> ph \<Rightarrow> outcome \<times> ph" where
  "receive can_open argv s =
     (case read_headers (pipelined s) empty_resp (net s) of
        (None, c) \<Rightarrow> (Died, s\<lparr>net := c\<rparr>)
      | (Some (r, p), c) \<Rightarrow> receive_body can_open (argv ! nres s) r (s\<lparr>net := c, pipelined := p\<rparr>))"

section \<open>The loop\<close>

definition cleanupconn :: "nat \<Rightarrow> ph \<Rightarrow> ph" where
  "cleanupconn naddr s =
     s\<lparr>sd := False, net := (net s)\<lparr>fd := None, resbuf := [], resbufpos := 0\<rparr>, reqbuf := None,
       nreq := nres s, res := naddr, pipelined := False\<rparr>"

definition exchange :: "http_env \<Rightarrow> (c_string \<Rightarrow> bool) \<Rightarrow> c_string \<Rightarrow> c_string list \<Rightarrow> ph \<Rightarrow> outcome \<times> ph" where
  "exchange env can_open server argv s =
     (case send_requests env server argv s of
        (False, s) \<Rightarrow> (Died, s)
      | (True, s) \<Rightarrow>
          (case send_blocking s of
             (False, s) \<Rightarrow> (Died, s)
           | (True, s) \<Rightarrow> receive can_open argv s))"

lemma connect_loop_fields:
  "connect_loop s = Inr t \<Longrightarrow>
   sd t \<and> nres t = nres s \<and> (\<not> sd s \<longrightarrow> firstreq t = nres s) \<and> (sd s \<longrightarrow> t = s)"
proof (induction s rule: connect_loop.induct)
  case (1 s)
  show ?case
  proof (cases "sd s \<or> res s = 0")
    case True
    with "1.prems" show ?thesis by (subst (asm) connect_loop.simps) (auto split: if_splits)
  next
    case False
    then have no: "\<not> sd s" "res s \<noteq> 0" by auto
    let ?s = "s\<lparr>res := res s - 1\<rparr>"
    have eq: "connect_loop s = (case attempts s of
          [] \<Rightarrow> connect_loop ?s
        | Connected rs ss # as \<Rightarrow>
            Inr (?s\<lparr>sd := True, net := (net ?s)\<lparr>incoming := rs\<rparr>, sends := ss, sent := [],
                   attempts := as, firstreq := nres ?s\<rparr>)
        | _ # as \<Rightarrow> connect_loop (?s\<lparr>attempts := as\<rparr>))"
      by (subst connect_loop.simps) (use no in \<open>simp add: Let_def split: list.splits attempt.splits\<close>)
    show ?thesis
    proof (cases "attempts s")
      case Nil
      with "1.IH"(1) [OF no refl] eq "1.prems" no show ?thesis by simp
    next
      case (Cons a as)
      show ?thesis
      proof (cases a)
        case Socket_Failed
        with "1.IH"(2) [OF no refl] Cons eq "1.prems" no show ?thesis by simp
      next
        case Connect_Failed
        with "1.IH"(3) [OF no refl] Cons eq "1.prems" no show ?thesis by simp
      next
        case (Connected rs ss)
        with Cons eq "1.prems" no show ?thesis by auto
      qed
    qed
  qed
qed

lemma send_requests_fields:
  "send_requests env server argv s = (b, t) \<Longrightarrow>
   nres t = nres s \<and> firstreq t = firstreq s \<and> sd t = sd s"
proof (induction env server argv s rule: send_requests.induct)
  case (1 env server argv s)
  let ?s = "if reqbuf s = None
            then s\<lparr>reqbuf := Some (makerequest env (argv ! nreq s) server (nreq s = length argv - 1)),
                   reqbufpos := 0\<rparr>
            else s"
  have s: "nres ?s = nres s" "firstreq ?s = firstreq s" "sd ?s = sd s" "pipelined ?s = pipelined s"
    by simp_all
  show ?case
  proof (cases "nreq s < length argv \<and> (reqbuf s = None \<or> pipelined s)")
    case False
    with "1.prems" show ?thesis by (subst (asm) send_requests.simps) auto
  next
    case True
    show ?thesis
    proof (cases "pipelined ?s")
      case False
      have "send_requests env server argv s = send_requests env server argv ?s"
        by (subst send_requests.simps) (use True False in \<open>simp add: Let_def\<close>)
      with "1.IH"(2) [OF True refl False] "1.prems" s show ?thesis by simp
    next
      case pip: True
      obtain e u where u: "send_request ?s = (e, u)" by fastforce
      have f: "nres u = nres s" "firstreq u = firstreq s" "sd u = sd s"
        using send_request_same [OF u] s by simp_all
      show ?thesis
      proof (cases e)
        case None
        have "send_requests env server argv s =
            send_requests env server argv (u\<lparr>reqbuf := None, nreq := nreq u + 1\<rparr>)"
          by (subst send_requests.simps) (use True pip u None in \<open>simp add: Let_def\<close>)
        with "1.IH"(1) [OF True refl pip u [symmetric] None] "1.prems" f show ?thesis by simp
      next
        case (Some again)
        have "send_requests env server argv s = (again, u)"
          by (subst send_requests.simps) (use True pip u Some in \<open>simp add: Let_def\<close>)
        with "1.prems" f show ?thesis by simp
      qed
    qed
  qed
qed

lemma send_blocking_fields:
  "send_blocking s = (b, t) \<Longrightarrow> nres t = nres s \<and> firstreq t = firstreq s \<and> sd t = sd s"
  by (auto simp: send_blocking_def split: if_splits prod.splits option.splits dest!: send_request_same)

lemma receive_body_fields:
  "receive_body can_open path r s = (oc, t) \<Longrightarrow>
   firstreq t = firstreq s \<and> sd t = sd s \<and>
   nres t = (if oc = Cleanup \<or> oc = Go_On then nres s + 1 else nres s)"
  by (auto simp: receive_body_def Let_def split: if_splits prod.splits body_result.splits)

lemma exchange_fields:
  "exchange env can_open server argv s = (oc, t) \<Longrightarrow>
   firstreq t = firstreq s \<and> sd t = sd s \<and>
   nres t = (if oc = Cleanup \<or> oc = Go_On then nres s + 1 else nres s)"
  by (auto simp: exchange_def receive_def split: prod.splits bool.splits option.splits
      dest!: send_requests_fields send_blocking_fields receive_body_fields)

function fetch_loop ::
  "http_env \<Rightarrow> (c_string \<Rightarrow> bool) \<Rightarrow> nat \<Rightarrow> c_string \<Rightarrow> c_string list \<Rightarrow> ph \<Rightarrow> (ph_error + unit) \<times> ph"
where
  "fetch_loop env can_open naddr server argv s =
     (if nres s < length argv then
        (case connect_loop s of
           Inl e \<Rightarrow> (Inl e, s)
         | Inr s \<Rightarrow>
             (case exchange env can_open server argv s of
                (Exit e, s) \<Rightarrow> (Inl e, s)
              | (Go_On, s) \<Rightarrow> fetch_loop env can_open naddr server argv s
              | (Cleanup, s) \<Rightarrow> fetch_loop env can_open naddr server argv (cleanupconn naddr s)
              | (Died, s) \<Rightarrow>
                  if nres s = firstreq s then (Inl Connection_Failure, s)
                  else fetch_loop env can_open naddr server argv (cleanupconn naddr s)))
      else (Inr (), s))"
  by pat_completeness auto
termination
  by (relation "measure (\<lambda>(_, _, _, _, argv, s). 2 * (length argv - nres s) + (if sd s then 1 else 0))")
     (auto simp: cleanupconn_def dest!: connect_loop_fields exchange_fields [OF sym])

declare fetch_loop.simps [simp del]

text \<open>The whole program: the arguments behind the program's name, the environment, the number of
  addresses that the lookup finds (\<open>None\<close> if it fails), and the attempts to connect.\<close>

definition init_ph :: "nat \<Rightarrow> (c_string \<Rightarrow> string option) \<Rightarrow> write_event list \<Rightarrow> attempt list \<Rightarrow> ph" where
  "init_ph naddr files ws atts =
     \<lparr>net = \<lparr>incoming = [], resbuf = [], resbufpos = 0, writes = ws, fd = None, disk = files\<rparr>,
      sd = False, sends = [], sent = [], nreq = 0, nres = 0, firstreq = 0, pipelined = False,
      reqbuf = None, reqbufpos = 0, res = naddr, attempts = atts, report = []\<rparr>"

definition phttpget ::
  "c_string list \<Rightarrow> (c_string \<Rightarrow> c_string option) \<Rightarrow> nat option \<Rightarrow> (c_string \<Rightarrow> bool) \<Rightarrow>
   (c_string \<Rightarrow> string option) \<Rightarrow> write_event list \<Rightarrow> attempt list \<Rightarrow> (ph_error + unit) \<times> ph"
where
  "phttpget args getenv lookup can_open files ws atts =
     (case args of
        [] \<Rightarrow> (Inl Usage, init_ph 0 files ws atts)
      | server # argv \<Rightarrow>
          (case readenv getenv of
             Inl e \<Rightarrow> (Inl e, init_ph 0 files ws atts)
           | Inr env \<Rightarrow>
               (case lookup of
                  None \<Rightarrow> (Inl (Err ''host''), init_ph 0 files ws atts)
                | Some naddr \<Rightarrow>
                    if naddr = 0 then (Inl (Err ''could not look up''), init_ph 0 files ws atts)
                    else fetch_loop env can_open naddr server argv (init_ph naddr files ws atts))))"

section \<open>Sending with nothing in the way\<close>

lemma send_request_free:
  assumes "sends s = []" "reqbuf s = Some b" "reqbufpos s \<le> length b"
  shows "\<exists>t. send_request s = (None, t) \<and> sends t = [] \<and> sent t = sent s @ drop (reqbufpos s) b"
  using assms by (auto simp: send_request_def max_def)

definition free_state :: "ph \<Rightarrow> bool" where
  "free_state s \<longleftrightarrow> sd s \<and> sends s = [] \<and>
     (case reqbuf s of None \<Rightarrow> True | Some b \<Rightarrow> reqbufpos s = 0)"

lemma send_requests_free:
  "free_state s \<Longrightarrow> nres s \<le> nreq s \<Longrightarrow> nreq s \<le> length argv \<Longrightarrow>
   \<exists>t. send_requests env server argv s = (True, t) \<and> free_state t \<and> nreq t \<le> length argv \<and>
       nreq s \<le> nreq t \<and> nres t = nres s \<and> net t = net s \<and> pipelined t = pipelined s \<and>
       firstreq t = firstreq s \<and> report t = report s \<and>
       (nreq t = length argv \<or> reqbuf t \<noteq> None)"
proof (induction env server argv s rule: send_requests.induct)
  case (1 env server argv s)
  let ?s = "if reqbuf s = None
            then s\<lparr>reqbuf := Some (makerequest env (argv ! nreq s) server (nreq s = length argv - 1)),
                   reqbufpos := 0\<rparr>
            else s"
  have s: "nres ?s = nres s" "nreq ?s = nreq s" "firstreq ?s = firstreq s" "net ?s = net s"
    "pipelined ?s = pipelined s" "report ?s = report s" "free_state ?s" "reqbuf ?s \<noteq> None"
    using "1.prems"(1) by (auto simp: free_state_def)
  show ?case
  proof (cases "nreq s < length argv \<and> (reqbuf s = None \<or> pipelined s)")
    case False
    with "1.prems" show ?thesis by (subst send_requests.simps) auto
  next
    case True
    show ?thesis
    proof (cases "pipelined ?s")
      case False
      have "send_requests env server argv s = send_requests env server argv ?s"
        by (subst send_requests.simps) (use True False in \<open>simp add: Let_def\<close>)
      with "1.IH"(2) [OF True refl False] "1.prems" s show ?thesis by simp
    next
      case pip: True
      obtain b where b: "reqbuf ?s = Some b" "reqbufpos ?s = 0" "sends ?s = []"
        using s(7,8) by (cases "reqbuf ?s") (simp_all add: free_state_def)
      then obtain u where u: "send_request ?s = (None, u)" "sends u = []"
        using send_request_free [of ?s b] by auto
      note same = send_request_same [OF u(1)]
      let ?u = "u\<lparr>reqbuf := None, nreq := nreq u + 1\<rparr>"
      have "send_requests env server argv s = send_requests env server argv ?u"
        by (subst send_requests.simps) (use True pip u in \<open>simp add: Let_def\<close>)
      moreover have "free_state ?u" using same s(7) u(2) by (simp add: free_state_def)
      moreover have "nres ?u \<le> nreq ?u" "nreq ?u \<le> length argv" using same s True "1.prems" by simp_all
      ultimately show ?thesis
        using "1.IH"(1) [OF True refl pip u(1) [symmetric] refl] same s by auto
    qed
  qed
qed

lemma send_blocking_free:
  assumes "free_state s" "nres s \<le> nreq s" "nreq s = nres s \<longrightarrow> reqbuf s \<noteq> None"
  shows "\<exists>t. send_blocking s = (True, t) \<and> free_state t \<and> nreq s \<le> nreq t \<and> nres t < nreq t \<and>
       nreq t \<le> max (nreq s) (Suc (nres s)) \<and>
       nres t = nres s \<and> net t = net s \<and> pipelined t = pipelined s \<and> firstreq t = firstreq s \<and>
       report t = report s"
proof (cases "nres s = nreq s")
  case True
  then obtain b where b: "reqbuf s = Some b" "reqbufpos s = 0" "sends s = []"
    using assms by (cases "reqbuf s") (simp_all add: free_state_def)
  then obtain u where u: "send_request s = (None, u)" "sends u = []"
    using send_request_free [of s b] by auto
  with send_request_same [OF u(1)] True assms(1) show ?thesis
    by (simp add: send_blocking_def free_state_def)
qed (use assms in \<open>simp add: send_blocking_def\<close>)

section \<open>One file after the other\<close>

text \<open>A successful answer with a length, from a server of HTTP/1.1.\<close>

definition answers :: "string \<Rightarrow> string \<Rightarrow> bool" where
  "answers body msg \<longleftrightarrow>
     (\<exists>m code reason hs len hs'. m \<noteq> CHR ''0'' \<and> digits_value code = 200 \<and>
        length_head_ok m code reason hs len hs' (length body) \<and>
        msg = lines (length_head m code reason hs len hs') @ body)"

lemma receive_answer:
  assumes "ready (net s)" "fd (net s) = None" "answers body msg" "pending (net s) = msg @ rest"
    "file_name (argv ! nres s) \<noteq> []" "can_open (file_name (argv ! nres s))"
  shows "\<exists>t. receive can_open argv s = (Go_On, t) \<and> ready (net t) \<and> fd (net t) = None \<and>
       pending (net t) = rest \<and> nres t = Suc (nres s) \<and> nreq t = nreq s \<and> pipelined t \<and>
       sd t = sd s \<and> sends t = sends s \<and> reqbuf t = reqbuf s \<and> reqbufpos t = reqbufpos s \<and>
       disk (net t) = (disk (net s))(file_name (argv ! nres s) := Some body) \<and>
       report t = report s @ [(nres s, 200)]"
proof -
  let ?f = "file_name (argv ! nres s)"
  obtain m code reason hs len hs' where a: "m \<noteq> CHR ''0''" "digits_value code = 200"
    "length_head_ok m code reason hs len hs' (length body)"
    "msg = lines (length_head m code reason hs len hs') @ body"
    using assms(3) unfolding answers_def by blast
  let ?r = "empty_resp\<lparr>statuscode := 200, contentlength := int (length body)\<rparr>"
  have "pending (net s) = lines (length_head m code reason hs len hs') @ body @ rest"
    using assms(4) a(4) by simp
  from response_with_length [OF assms(1) a(3) _ _ this, of empty_resp "pipelined s"] a(1,2)
  obtain c where c: "read_headers (pipelined s) empty_resp (net s) = (Some (?r, True), c)" "ready c"
    "same_files (net s) c" "pending c = body @ rest"
    by (auto simp: empty_resp_def)
  let ?c = "c\<lparr>fd := Some ?f, disk := (disk c)(?f := Some [])\<rparr>"
  have o: "ready ?c" "pending ?c = body @ rest"
    using c(2,4) by (simp_all add: ready_def conn_ok_def file_ok_def pending_def unread_def)
  obtain u where u: "read_body ?r True ?c = (Body_Done, True, u)" "ready u" "appended body ?c u"
    "pending u = rest"
    using body_with_length [OF o, of ?r True] by (auto simp: empty_resp_def)
  have d: "disk c = disk (net s)" using c(3) by (simp add: same_files_def)
  have "disk u = (disk (net s))(?f := Some body)"
    using u(3) d by (simp add: appended_def append_file_def)
  then show ?thesis
    using c(1) u assms(5,6)
    by (simp add: receive_def receive_body_def empty_resp_def ready_def conn_ok_def file_ok_def
        pending_def unread_def)
qed

definition store_all :: "(c_string \<times> string) list \<Rightarrow> (c_string \<Rightarrow> string option) \<Rightarrow> c_string \<Rightarrow> string option" where
  "store_all pbs d = foldl (\<lambda>d (p, b). d(file_name p := Some b)) d pbs"

definition path_ok :: "(c_string \<Rightarrow> bool) \<Rightarrow> c_string \<Rightarrow> bool" where
  "path_ok can_open p \<longleftrightarrow> file_name p \<noteq> [] \<and> can_open (file_name p)"

lemma exchange_answer:
  assumes "free_state s" "nres s \<le> nreq s" "nreq s \<le> length argv" "nres s < length argv"
    "ready (net s)" "fd (net s) = None" "answers body msg" "pending (net s) = msg @ rest"
    "path_ok can_open (argv ! nres s)"
  shows "\<exists>t. exchange env can_open server argv s = (Go_On, t) \<and> free_state t \<and> nres t \<le> nreq t \<and>
       nreq t \<le> length argv \<and> nres t = Suc (nres s) \<and> ready (net t) \<and> fd (net t) = None \<and>
       pending (net t) = rest \<and>
       disk (net t) = (disk (net s))(file_name (argv ! nres s) := Some body) \<and>
       report t = report s @ [(nres s, 200)]"
proof -
  obtain t where t: "send_requests env server argv s = (True, t)" "free_state t" "nreq t \<le> length argv"
    "nreq s \<le> nreq t" "nres t = nres s" "net t = net s" "report t = report s"
    "nreq t = length argv \<or> reqbuf t \<noteq> None"
    using send_requests_free [OF assms(1-3), of env server] by blast
  have "nreq t = nres t \<longrightarrow> reqbuf t \<noteq> None" using t(5,8) assms(4) by auto
  then obtain u where u: "send_blocking t = (True, u)" "free_state u" "nres u < nreq u"
    "nreq u \<le> max (nreq t) (Suc (nres t))" "nres u = nres t" "net u = net t" "report u = report t"
    using send_blocking_free [OF t(2)] t(4,5) assms(2) by fastforce
  obtain v where v: "receive can_open argv u = (Go_On, v)" "ready (net v)" "fd (net v) = None"
    "pending (net v) = rest" "nres v = Suc (nres u)" "nreq v = nreq u" "sd v = sd u"
    "sends v = sends u" "reqbuf v = reqbuf u" "reqbufpos v = reqbufpos u"
    "disk (net v) = (disk (net u))(file_name (argv ! nres u) := Some body)"
    "report v = report u @ [(nres u, 200)]"
    using receive_answer [of u body msg rest argv can_open] assms(5-9) t(5,6) u(5,6)
    by (auto simp: path_ok_def)
  have "free_state v" using u(2) v(7-10) by (simp add: free_state_def split: option.splits)
  moreover have "nreq v \<le> length argv" using v(6) u(4) t(3,5) assms(4) by simp
  ultimately show ?thesis
    using t(1,5-7) u(1,3,5-7) v by (simp add: exchange_def)
qed

lemma fetch_rest:
  assumes "free_state s" "nres s \<le> nreq s" "nreq s \<le> length argv" "ready (net s)" "fd (net s) = None"
    "list_all2 answers bodies msgs" "length bodies = length argv - nres s"
    "pending (net s) = concat msgs @ rest" "list_all (path_ok can_open) argv" "nres s \<le> length argv"
  shows "\<exists>t. fetch_loop env can_open naddr server argv s = (Inr (), t) \<and>
       disk (net t) = store_all (zip (drop (nres s) argv) bodies) (disk (net s)) \<and>
       report t = report s @ map (\<lambda>i. (i, 200)) [nres s..<length argv] \<and>
       pending (net t) = rest"
  using assms
proof (induction bodies arbitrary: s msgs)
  case Nil
  then show ?case by (subst fetch_loop.simps) (simp add: store_all_def)
next
  case (Cons b bs)
  obtain m ms where m: "msgs = m # ms" "answers b m" "list_all2 answers bs ms"
    using Cons.prems(6) by (auto simp: list_all2_Cons1)
  have lt: "nres s < length argv" using Cons.prems(7) by simp
  have path: "path_ok can_open (argv ! nres s)" using Cons.prems(9) lt by (simp add: list_all_length)
  obtain t where t: "exchange env can_open server argv s = (Go_On, t)" "free_state t" "nres t \<le> nreq t"
    "nreq t \<le> length argv" "nres t = Suc (nres s)" "ready (net t)" "fd (net t) = None"
    "pending (net t) = concat ms @ rest"
    "disk (net t) = (disk (net s))(file_name (argv ! nres s) := Some b)"
    "report t = report s @ [(nres s, 200)]"
    using exchange_answer [OF Cons.prems(1-3) lt Cons.prems(4,5) m(2) _ path, of "concat ms @ rest" env server]
      Cons.prems(8) m(1) by auto
  have "connect_loop s = Inr s"
    using Cons.prems(1) by (subst connect_loop.simps) (simp add: free_state_def)
  then have "fetch_loop env can_open naddr server argv s = fetch_loop env can_open naddr server argv t"
    using lt t(1) by (subst fetch_loop.simps) simp
  moreover have len: "length bs = length argv - nres t" using Cons.prems(7) t(5) by simp
  moreover obtain u where "fetch_loop env can_open naddr server argv t = (Inr (), u)"
    "disk (net u) = store_all (zip (drop (nres t) argv) bs) (disk (net t))"
    "report u = report t @ map (\<lambda>i. (i, 200)) [nres t..<length argv]" "pending (net u) = rest"
    using Cons.IH [OF t(2-4,6,7) m(3) _ t(8) Cons.prems(9)] len t(5) lt by auto
  moreover have "drop (nres s) argv = argv ! nres s # drop (Suc (nres s)) argv"
    using lt by (simp add: Cons_nth_drop_Suc)
  ultimately show ?case
    using t(5,9,10) lt by (simp add: store_all_def upt_conv_Cons)
qed

section \<open>Reconnecting\<close>

lemma connect_loop_attempts:
  "connect_loop s = Inr t \<Longrightarrow> \<not> sd s \<Longrightarrow> length (attempts s) \<le> length (attempts t) + res s"
proof (induction s rule: connect_loop.induct)
  case (1 s)
  have no: "\<not> sd s" "res s \<noteq> 0"
    using "1.prems" connect_loop.simps [of s] by (cases "res s = 0"; auto)+
  let ?s = "s\<lparr>res := res s - 1\<rparr>"
  have eq: "connect_loop s = (case attempts s of
          [] \<Rightarrow> connect_loop ?s
        | Connected rs ss # as \<Rightarrow>
            Inr (?s\<lparr>sd := True, net := (net ?s)\<lparr>incoming := rs\<rparr>, sends := ss, sent := [],
                   attempts := as, firstreq := nres ?s\<rparr>)
        | _ # as \<Rightarrow> connect_loop (?s\<lparr>attempts := as\<rparr>))"
    by (subst connect_loop.simps) (use no in \<open>simp add: Let_def split: list.splits attempt.splits\<close>)
  show ?case
  proof (cases "attempts s")
    case Nil
    then show ?thesis by simp
  next
    case (Cons a as)
    show ?thesis
    proof (cases a)
      case Socket_Failed
      with "1.IH"(2) [OF no refl] Cons eq "1.prems" no show ?thesis by simp
    next
      case Connect_Failed
      with "1.IH"(3) [OF no refl] Cons eq "1.prems" no show ?thesis by simp
    next
      case (Connected rs ss)
      with Cons eq "1.prems" no show ?thesis by auto
    qed
  qed
qed

lemma send_requests_attempts:
  "send_requests env server argv s = (b, t) \<Longrightarrow> attempts t = attempts s"
proof (induction env server argv s rule: send_requests.induct)
  case (1 env server argv s)
  let ?s = "if reqbuf s = None
            then s\<lparr>reqbuf := Some (makerequest env (argv ! nreq s) server (nreq s = length argv - 1)),
                   reqbufpos := 0\<rparr>
            else s"
  have s: "attempts ?s = attempts s" by simp
  show ?case
  proof (cases "nreq s < length argv \<and> (reqbuf s = None \<or> pipelined s)")
    case False
    with "1.prems" show ?thesis by (subst (asm) send_requests.simps) auto
  next
    case True
    obtain e u where u: "send_request ?s = (e, u)" by fastforce
    have f: "attempts u = attempts s" using send_request_same [OF u] s by simp
    have "send_requests env server argv s =
        (if pipelined ?s then (case e of Some again \<Rightarrow> (again, u)
           | None \<Rightarrow> send_requests env server argv (u\<lparr>reqbuf := None, nreq := nreq u + 1\<rparr>))
         else send_requests env server argv ?s)"
      by (subst send_requests.simps) (use True u in \<open>simp add: Let_def split: option.splits\<close>)
    with "1.IH"(1) [OF True refl _ u [symmetric]] "1.IH"(2) [OF True refl] "1.prems" f s show ?thesis
      by (auto split: if_splits option.splits)
  qed
qed

lemma exchange_attempts:
  "exchange env can_open server argv s = (oc, t) \<Longrightarrow> attempts t = attempts s"
  by (auto simp: exchange_def receive_def receive_body_def send_blocking_def Let_def
      split: prod.splits bool.splits option.splits if_splits body_result.splits
      dest!: send_requests_attempts send_request_same)

lemma fetch_loop_attempts:
  "fetch_loop env can_open naddr server argv s = (r, t) \<Longrightarrow>
   if sd s then firstreq s \<le> nres s \<and> firstreq s < length argv \<and>
     n \<le> length (attempts s) + naddr * Suc (firstreq s)
   else res s \<le> naddr \<and> n \<le> length (attempts s) + naddr * nres s \<Longrightarrow>
   nres s \<le> length argv \<Longrightarrow>
   n \<le> length (attempts t) + naddr * length argv \<and> (r = Inr () \<longrightarrow> nres t = length argv)"
proof (induction env can_open naddr server argv s rule: fetch_loop.induct)
  case (1 env can_open naddr server argv s)
  show ?case
  proof (cases "nres s < length argv")
    case False
    with "1.prems" have "t = s" "r = Inr ()" "nres s = length argv"
      using fetch_loop.simps [of env can_open naddr server argv s] by auto
    moreover have "naddr * Suc (firstreq s) \<le> naddr * length argv" if "firstreq s < length argv"
      using that by (intro mult_le_mono2) simp
    ultimately show ?thesis using "1.prems"(2) by (fastforce split: if_splits)
  next
    case True
    show ?thesis
    proof (cases "connect_loop s")
      case (Inl e)
      with True "1.prems" have t: "t = s" "r \<noteq> Inr ()"
        using fetch_loop.simps [of env can_open naddr server argv s] by auto
      have "\<not> sd s" using Inl connect_loop.simps [of s] by auto
      then have "n \<le> length (attempts s) + naddr * nres s" using "1.prems"(2) by simp
      then have "n \<le> length (attempts s) + naddr * length argv"
        using mult_le_mono2 [of "nres s" "length argv" naddr] True by linarith
      then show ?thesis using t by simp
    next
      case (Inr c)
      note cf = connect_loop_fields [OF Inr]
      have c: "sd c" "nres c = nres s" "firstreq c \<le> nres c" "firstreq c < length argv"
        "n \<le> length (attempts c) + naddr * Suc (firstreq c)"
        using cf "1.prems"(2) True connect_loop_attempts [OF Inr] by (cases "sd s"; simp)+
      obtain oc u where u: "exchange env can_open server argv c = (oc, u)" by fastforce
      note uf = exchange_fields [OF u] and ua = exchange_attempts [OF u]
      let ?k = "cleanupconn naddr u"
      have loop: "fetch_loop env can_open naddr server argv s =
         (case oc of Exit e \<Rightarrow> (Inl e, u)
          | Go_On \<Rightarrow> fetch_loop env can_open naddr server argv u
          | Cleanup \<Rightarrow> fetch_loop env can_open naddr server argv ?k
          | Died \<Rightarrow> if nres u = firstreq u then (Inl Connection_Failure, u)
                    else fetch_loop env can_open naddr server argv ?k)"
        using True Inr u by (subst fetch_loop.simps) (simp split: outcome.splits)
      have last: "naddr * Suc (firstreq u) \<le> naddr * length argv"
        using c(4) uf by (intro mult_le_mono2) simp
      have clean: "res ?k \<le> naddr \<and> n \<le> length (attempts ?k) + naddr * nres ?k" "\<not> sd ?k"
        "nres ?k = nres u" if "firstreq u < nres u"
      proof -
        have "naddr * Suc (firstreq u) \<le> naddr * nres u" using that by (intro mult_le_mono2) simp
        then show "res ?k \<le> naddr \<and> n \<le> length (attempts ?k) + naddr * nres ?k"
          using c(5) uf ua by (simp add: cleanupconn_def)
      qed (simp_all add: cleanupconn_def)
      show ?thesis
      proof (cases oc)
        case (Exit e)
        then show ?thesis using loop "1.prems"(1) c(5) uf ua last by (auto intro: order_trans)
      next
        case Go_On
        then show ?thesis
          using "1.IH"(3) [OF True Inr u [symmetric] Go_On] loop "1.prems"(1) c uf ua True by auto
      next
        case Cleanup
        then show ?thesis
          using "1.IH"(2) [OF True Inr u [symmetric] Cleanup] loop "1.prems"(1) c clean uf True by auto
      next
        case Died
        show ?thesis
        proof (cases "nres u = firstreq u")
          case True
          then show ?thesis using Died loop "1.prems"(1) c(5) uf ua last by (auto intro: order_trans)
        next
          case False
          then show ?thesis
            using "1.IH"(1) [OF True Inr u [symmetric] Died False] Died loop "1.prems"(1) c clean uf True
            by auto
        qed
      qed
    qed
  qed
qed

section \<open>What a run leaves alone\<close>

text \<open>Of the files only the open one changes.\<close>

definition only_open_file :: "conn \<Rightarrow> conn \<Rightarrow> bool" where
  "only_open_file s t \<longleftrightarrow> fd t = fd s \<and> (\<forall>f. fd s \<noteq> Some f \<longrightarrow> disk t f = disk s f)"

lemma only_open_file_refl [simp]: "only_open_file s s"
  by (simp add: only_open_file_def)

lemma only_open_file_trans: "only_open_file s t \<Longrightarrow> only_open_file t u \<Longrightarrow> only_open_file s u"
  by (simp add: only_open_file_def)

lemma readln_only: "readln s = (ok, t) \<Longrightarrow> only_open_file s t"
proof (induction s rule: readln.induct)
  case (1 s)
  let ?s = "if resbufpos s \<noteq> 0 then s\<lparr>resbuf := unread s, resbufpos := 0\<rparr> else s"
  have same: "only_open_file s (?s\<lparr>incoming := es\<rparr>)" "only_open_file s (?s\<lparr>incoming := es, resbuf := bs\<rparr>)"
    "only_open_file s ?s" for es bs
    by (simp_all add: only_open_file_def)
  show ?case
  proof (cases "find_crlf (unread s) \<noteq> None \<or> BUFSIZ \<le> length (resbuf ?s)")
    case True
    then show ?thesis using "1.prems" same(3) by (subst (asm) readln.simps) (auto simp: Let_def split: if_splits)
  next
    case False
    then have n: "\<not> find_crlf (unread s) \<noteq> None" "\<not> BUFSIZ \<le> length (resbuf ?s)" by auto
    obtain x es where r: "recv (BUFSIZ - length (resbuf ?s)) (incoming ?s) = (x, es)" by fastforce
    have loop: "readln s = (case x of
          Got bs \<Rightarrow> readln (?s\<lparr>incoming := es, resbuf := resbuf ?s @ bs\<rparr>)
        | Eintr \<Rightarrow> readln (?s\<lparr>incoming := es\<rparr>)
        | _ \<Rightarrow> (False, ?s\<lparr>incoming := es\<rparr>))"
      by (subst readln.simps) (use n r in \<open>simp add: Let_def split: recv_result.splits\<close>)
    show ?thesis
    proof (cases x)
      case (Got bs)
      then show ?thesis
        using "1.IH"(1) [OF n(1) refl n(2) r [symmetric] Got] loop "1.prems"
          only_open_file_trans [OF same(2)] by simp
    next
      case Eintr
      then show ?thesis
        using "1.IH"(2) [OF n(1) refl n(2) r [symmetric] Eintr] loop "1.prems"
          only_open_file_trans [OF same(1)] by simp
    qed (use loop "1.prems" same(1) in auto)
  qed
qed

lemma take_line_only: "only_open_file s (snd (take_line s))"
  by (simp add: take_line_def only_open_file_def split: option.split)

lemma copybytes_only: "copybytes n s = (r, t) \<Longrightarrow> only_open_file s t"
proof (induction n s rule: copybytes.induct)
  case (1 n s)
  let ?len = "min n (length (resbuf s) - resbufpos s)"
  let ?w = "if fd s \<noteq> None then sys_write ?len (writes s) else (Some ?len, writes s)"
  have app: "only_open_file s (append_file bs (s\<lparr>writes := ws, resbufpos := k\<rparr>))" for bs ws k
    by (simp add: append_file_def only_open_file_def split: option.splits)
  show ?case
  proof (cases "n = 0")
    case True
    then show ?thesis using "1.prems" by (subst (asm) copybytes.simps) simp
  next
    case n: False
    show ?thesis
    proof (cases "?len > 0")
      case True
      obtain w ws where w: "?w = (w, ws)" by fastforce
      have loop: "copybytes n s = (case w of None \<Rightarrow> (Write_Died, s\<lparr>writes := ws\<rparr>)
          | Some k \<Rightarrow> copybytes (n - k)
              (append_file (take k (unread s)) (s\<lparr>writes := ws, resbufpos := resbufpos s + k\<rparr>)))"
        by (subst copybytes.simps) (use n True w in \<open>simp add: Let_def split: option.splits\<close>)
      show ?thesis
      proof (cases w)
        case None
        then show ?thesis using loop "1.prems" by (auto simp: only_open_file_def)
      next
        case (Some k)
        then show ?thesis
          using "1.IH"(1) [OF n refl True w [symmetric] Some] loop "1.prems" only_open_file_trans [OF app] by simp
      qed
    next
      case False
      obtain x es where r: "recv BUFSIZ (incoming s) = (x, es)" by fastforce
      have loop: "copybytes n s = (case x of
              Eintr \<Rightarrow> copybytes n (s\<lparr>incoming := es\<rparr>)
            | Failed \<Rightarrow> (Recv_Failed, s\<lparr>incoming := es\<rparr>)
            | Closed \<Rightarrow> (Recv_Closed, s\<lparr>incoming := es\<rparr>)
            | Got bs \<Rightarrow> copybytes n (s\<lparr>incoming := es, resbuf := bs, resbufpos := 0\<rparr>))"
        by (subst copybytes.simps) (use n False r in \<open>simp add: Let_def split: recv_result.splits\<close>)
      show ?thesis
      proof (cases x)
        case (Got bs)
        with loop "1.prems" "1.IH"(2) [OF n refl False r [symmetric] Got] show ?thesis
          by (simp add: only_open_file_def)
      next
        case Eintr
        with loop "1.prems" "1.IH"(3) [OF n refl False r [symmetric] Eintr] show ?thesis
          by (simp add: only_open_file_def)
      qed (use loop "1.prems" in \<open>auto simp: only_open_file_def\<close>)
    qed
  qed
qed

lemma next_line_only: "(ok, t) = readln s \<Longrightarrow> (l, u) = take_line t \<Longrightarrow> only_open_file s u"
  using readln_only [of s ok t] take_line_only [of t] only_open_file_trans by (metis snd_conv)

lemma read_headers_only: "read_headers p r s = (x, t) \<Longrightarrow> only_open_file s t"
proof (induction p r s rule: read_headers.induct)
  case (1 p r s)
  obtain ok t1 where 1: "(ok, t1) = readln s" by (metis prod.exhaust)
  obtain l t2 where 2: "(l, t2) = take_line t1" by (metis prod.exhaust)
  note o = next_line_only [OF 1 2] readln_only [OF 1 [symmetric]]
  show ?case
  proof (cases ok)
    case False
    then show ?thesis
      using "1.prems" o(2) by (subst (asm) read_headers.simps) (simp flip: 1)
  next
    case True
    have eq: "read_headers p r s = (case header_line p r l of
        Garbage \<Rightarrow> (None, t2) | Body r p \<Rightarrow> (Some (r, p), t2) | More r p \<Rightarrow> read_headers p r t2)"
      using True by (subst read_headers.simps) (simp flip: 1 2)
    show ?thesis
    proof (cases "header_line p r l")
      case (More r' p')
      have "only_open_file t2 t"
        using "1.IH" [OF 1 _ 2 More] True eq More "1.prems" by simp
      then show ?thesis using o(1) only_open_file_trans by blast
    qed (use eq "1.prems" o(1) in auto)
  qed
qed

lemma read_trailer_only: "read_trailer s = (x, t) \<Longrightarrow> only_open_file s t"
proof (induction s rule: read_trailer.induct)
  case (1 s)
  obtain ok t1 where 1: "(ok, t1) = readln s" by (metis prod.exhaust)
  obtain l t2 where 2: "(l, t2) = take_line t1" by (metis prod.exhaust)
  note o = next_line_only [OF 1 2] readln_only [OF 1 [symmetric]]
  have eq: "read_trailer s =
      (if ok then if l \<noteq> [] then read_trailer t2 else (Body_Done, t2) else (Body_Dead, t1))"
    by (subst read_trailer.simps) (simp flip: 1 2)
  show ?case
  proof (cases "ok \<and> l \<noteq> []")
    case True
    then have "only_open_file t2 t" using "1.IH" [OF 1 _ 2] eq "1.prems" by simp
    then show ?thesis using o(1) only_open_file_trans by blast
  qed (use eq "1.prems" o in \<open>auto split: if_splits\<close>)
qed

lemma read_chunks_only: "read_chunks s = (x, t) \<Longrightarrow> only_open_file s t"
proof (induction s rule: read_chunks.induct)
  case (1 s)
  obtain ok t1 where 1: "(ok, t1) = readln s" by (metis prod.exhaust)
  obtain l t2 where 2: "(l, t2) = take_line t1" by (metis prod.exhaust)
  note o = next_line_only [OF 1 2] readln_only [OF 1 [symmetric]]
  show ?case
  proof (cases "ok \<and> read_hex 0 l \<noteq> None")
    case False
    then show ?thesis
      using "1.prems" o 2 by (subst (asm) read_chunks.simps) (auto simp flip: 1 split: bool.splits prod.splits)
  next
    case True
    then obtain n where n: "ok" "read_hex 0 l = Some n" by blast
    obtain c t3 where 3: "(c, t3) = copybytes (nat n) t2" by (metis prod.exhaust)
    have c: "only_open_file s t3"
      using copybytes_only [OF 3 [symmetric]] o(1) only_open_file_trans by blast
    have eq: "read_chunks s =
        (if copy_result c \<noteq> Body_Done then (copy_result c, t3)
         else if n \<noteq> 0 then read_chunks t3 else (Body_Done, t3))"
      using n by (subst read_chunks.simps) (simp flip: 1 2 3)
    show ?thesis
    proof (cases "copy_result c = Body_Done \<and> n \<noteq> 0")
      case True
      then have "only_open_file t3 t" using "1.IH" [OF 1 _ 2 n(2) 3] n(1) eq "1.prems" by simp
      then show ?thesis using c only_open_file_trans by blast
    qed (use eq "1.prems" c in \<open>auto split: if_splits\<close>)
  qed
qed

lemma read_body_only: "read_body r p s = (x, p', t) \<Longrightarrow> only_open_file s t"
  by (auto simp: read_body_def split: prod.splits if_splits
      dest!: read_chunks_only read_trailer_only copybytes_only intro: only_open_file_trans)

text \<open>One exchange touches the file of the request it answers at most, and reports it at most once.\<close>

lemma receive_body_keeps:
  assumes "receive_body can_open path r s = (oc, t)" "fd (net s) = None"
  shows "(\<forall>f. f \<noteq> file_name path \<longrightarrow> disk (net t) f = disk (net s) f) \<and>
    (oc = Go_On \<or> oc = Cleanup \<longrightarrow> fd (net t) = None) \<and>
    (report t = report s \<or> (\<exists>c. report t = report s @ [(nres s, c)]) \<and> nres t = Suc (nres s))"
proof -
  define s1 where "s1 = (if statuscode r = 200
     then s\<lparr>net := (net s)\<lparr>fd := Some (file_name path), disk := (disk (net s))(file_name path := Some [])\<rparr>\<rparr>
     else s)"
  obtain b p c where b: "read_body r (pipelined s1) (net s1) = (b, p, c)" by (metis prod.exhaust)
  have d: "\<forall>f. f \<noteq> file_name path \<longrightarrow> disk c f = disk (net s) f"
    using read_body_only [OF b] assms(2) by (auto simp: only_open_file_def s1_def split: if_splits)
  have "receive_body can_open path r s =
     (if statuscode r = 204 \<or> statuscode r = 304 then (Go_On, s\<lparr>nres := nres s + 1\<rparr>)
      else if statuscode r = 200 \<and> file_name path = [] then (Exit No_File_Name, s)
      else if statuscode r = 200 \<and> \<not> can_open (file_name path) then (Exit (Open_Failed (file_name path)), s)
      else (case b of
          Body_Write_Error \<Rightarrow> (Exit Write_Failed, s1\<lparr>net := c, pipelined := p\<rparr>)
        | Body_Dead \<Rightarrow> (Died, s1\<lparr>net := c, pipelined := p\<rparr>)
        | Body_Done \<Rightarrow> (if \<not> p \<and> \<not> keepalive r then Cleanup else Go_On,
            s1\<lparr>net := c\<lparr>fd := None\<rparr>, pipelined := p, nres := nres s1 + 1,
               report := report s1 @ [(nres s1, statuscode r)]\<rparr>)))"
    unfolding receive_body_def Let_def s1_def [symmetric] b by (cases b) simp_all
  moreover have "report s1 = report s" "nres s1 = nres s" by (simp_all add: s1_def)
  ultimately show ?thesis
    using assms d by (cases b) (auto split: if_splits)
qed

lemma send_requests_keeps:
  "send_requests env server argv s = (b, t) \<Longrightarrow> net t = net s \<and> report t = report s"
proof (induction env server argv s rule: send_requests.induct)
  case (1 env server argv s)
  let ?s = "if reqbuf s = None
            then s\<lparr>reqbuf := Some (makerequest env (argv ! nreq s) server (nreq s = length argv - 1)),
                   reqbufpos := 0\<rparr>
            else s"
  have s: "net ?s = net s" "report ?s = report s" by simp_all
  show ?case
  proof (cases "nreq s < length argv \<and> (reqbuf s = None \<or> pipelined s)")
    case False
    with "1.prems" show ?thesis by (subst (asm) send_requests.simps) auto
  next
    case True
    obtain e u where u: "send_request ?s = (e, u)" by fastforce
    have f: "net u = net s" "report u = report s" using send_request_same [OF u] s by simp_all
    have "send_requests env server argv s =
        (if pipelined ?s then (case e of Some again \<Rightarrow> (again, u)
           | None \<Rightarrow> send_requests env server argv (u\<lparr>reqbuf := None, nreq := nreq u + 1\<rparr>))
         else send_requests env server argv ?s)"
      by (subst send_requests.simps) (use True u in \<open>simp add: Let_def split: option.splits\<close>)
    with "1.IH"(1) [OF True refl _ u [symmetric]] "1.IH"(2) [OF True refl] "1.prems" f s show ?thesis
      by (auto split: if_splits option.splits)
  qed
qed

lemma send_blocking_keeps: "send_blocking s = (b, t) \<Longrightarrow> net t = net s \<and> report t = report s"
  by (auto simp: send_blocking_def split: if_splits prod.splits option.splits dest!: send_request_same)

lemma exchange_keeps:
  assumes "exchange env can_open server argv s = (oc, t)" "fd (net s) = None" "nres s < length argv"
  shows "(\<forall>f. f \<notin> file_name ` set argv \<longrightarrow> disk (net t) f = disk (net s) f) \<and>
    (oc = Go_On \<or> oc = Cleanup \<longrightarrow> fd (net t) = None) \<and>
    (report t = report s \<or> (\<exists>c. report t = report s @ [(nres s, c)]) \<and> nres t = Suc (nres s))"
proof -
  obtain b1 s1 where 1: "send_requests env server argv s = (b1, s1)" by fastforce
  note k1 = send_requests_keeps [OF 1] send_requests_fields [OF 1]
  obtain b2 s2 where 2: "send_blocking s1 = (b2, s2)" by fastforce
  note k2 = send_blocking_keeps [OF 2] send_blocking_fields [OF 2]
  obtain x c where 3: "read_headers (pipelined s2) empty_resp (net s2) = (x, c)" by fastforce
  have same: "net s2 = net s" "report s2 = report s" "nres s2 = nres s" using k1 k2 by simp_all
  have c: "fd c = None" "disk c = disk (net s)"
    using read_headers_only [OF 3] assms(2) same(1) by (auto simp: only_open_file_def)
  have name: "f \<notin> file_name ` set argv \<Longrightarrow> f \<noteq> file_name (argv ! nres s)" for f using assms(3) by auto
  show ?thesis
  proof (cases "b1 \<and> b2 \<and> x \<noteq> None")
    case False
    have "exchange env can_open server argv s =
        (Died, if \<not> b1 then s1 else if \<not> b2 then s2 else s2\<lparr>net := c\<rparr>)"
      using False by (cases b1; cases b2; cases x) (auto simp: exchange_def receive_def 1 2 3)
    then show ?thesis using assms(1,2) k1 same c by auto
  next
    case True
    then obtain r p where x: "x = Some (r, p)" by auto
    have "receive_body can_open (argv ! nres s) r (s2\<lparr>net := c, pipelined := p\<rparr>) = (oc, t)"
      using assms(1) 1 2 3 True x same by (simp add: exchange_def receive_def)
    from receive_body_keeps [OF this] show ?thesis using c same name by auto
  qed
qed

text \<open>The lines about finished files.\<close>

definition lines_ok :: "ph \<Rightarrow> bool" where
  "lines_ok s \<longleftrightarrow> sorted_wrt (<) (map fst (report s)) \<and> (\<forall>(i, code)\<in>set (report s). i < nres s)"

lemma connect_loop_keeps:
  "connect_loop s = Inr t \<Longrightarrow> fd (net t) = fd (net s) \<and> disk (net t) = disk (net s) \<and> report t = report s"
proof (induction s rule: connect_loop.induct)
  case (1 s)
  show ?case
  proof (cases "sd s \<or> res s = 0")
    case True
    with "1.prems" show ?thesis by (subst (asm) connect_loop.simps) (auto split: if_splits)
  next
    case False
    then have no: "\<not> sd s" "res s \<noteq> 0" by auto
    let ?s = "s\<lparr>res := res s - 1\<rparr>"
    have "connect_loop s = (case attempts s of
          [] \<Rightarrow> connect_loop ?s
        | Connected rs ss # as \<Rightarrow>
            Inr (?s\<lparr>sd := True, net := (net ?s)\<lparr>incoming := rs\<rparr>, sends := ss, sent := [],
                   attempts := as, firstreq := nres ?s\<rparr>)
        | _ # as \<Rightarrow> connect_loop (?s\<lparr>attempts := as\<rparr>))"
      by (subst connect_loop.simps) (use no in \<open>simp add: Let_def split: list.splits attempt.splits\<close>)
    then show ?thesis
      using "1.IH" [OF no refl] "1.prems" by (auto split: list.splits attempt.splits)
  qed
qed

lemma exchange_lines:
  assumes "exchange env can_open server argv s = (oc, t)" "fd (net s) = None" "nres s < length argv" "lines_ok s"
  shows "lines_ok t"
  using exchange_keeps [OF assms(1-3)] exchange_fields [OF assms(1)] assms(4)
  by (auto simp: lines_ok_def sorted_wrt_append split: if_splits) force+

lemma fetch_loop_keeps:
  "fetch_loop env can_open naddr server argv s = (r, t) \<Longrightarrow> fd (net s) = None \<Longrightarrow> lines_ok s \<Longrightarrow>
   nres s \<le> length argv \<Longrightarrow>
   lines_ok t \<and> nres t \<le> length argv \<and> (\<forall>f. f \<notin> file_name ` set argv \<longrightarrow> disk (net t) f = disk (net s) f)"
proof (induction env can_open naddr server argv s rule: fetch_loop.induct)
  case (1 env can_open naddr server argv s)
  show ?case
  proof (cases "nres s < length argv")
    case False
    with "1.prems" show ?thesis by (subst (asm) fetch_loop.simps) simp
  next
    case True
    show ?thesis
    proof (cases "connect_loop s")
      case (Inl e)
      with True "1.prems" show ?thesis by (subst (asm) fetch_loop.simps) simp
    next
      case (Inr c)
      have c: "fd (net c) = None" "disk (net c) = disk (net s)" "nres c = nres s" "lines_ok c"
        using connect_loop_keeps [OF Inr] connect_loop_fields [OF Inr] "1.prems"(2,3)
        by (auto simp: lines_ok_def)
      obtain oc u where u: "exchange env can_open server argv c = (oc, u)" by fastforce
      have len: "nres c < length argv" using True c(3) by simp
      note k = exchange_keeps [OF u c(1) len] and lu = exchange_lines [OF u c(1) len c(4)]
      have nu: "nres u \<le> length argv" using exchange_fields [OF u] len by auto
      let ?k = "cleanupconn naddr u"
      have kk: "fd (net ?k) = None" "lines_ok ?k" "disk (net ?k) = disk (net u)" "nres ?k \<le> length argv"
        using lu nu by (simp_all add: cleanupconn_def lines_ok_def)
      have loop: "fetch_loop env can_open naddr server argv s =
         (case oc of Exit e \<Rightarrow> (Inl e, u)
          | Go_On \<Rightarrow> fetch_loop env can_open naddr server argv u
          | Cleanup \<Rightarrow> fetch_loop env can_open naddr server argv ?k
          | Died \<Rightarrow> if nres u = firstreq u then (Inl Connection_Failure, u)
                    else fetch_loop env can_open naddr server argv ?k)"
        using True Inr u by (subst fetch_loop.simps) (simp split: outcome.splits)
      show ?thesis
      proof (cases oc)
        case (Exit e)
        then show ?thesis using loop "1.prems"(1) lu nu k c(2) by auto
      next
        case Go_On
        then show ?thesis
          using "1.IH"(3) [OF True Inr u [symmetric] Go_On] loop "1.prems"(1) lu nu k c(2) by auto
      next
        case Cleanup
        then show ?thesis
          using "1.IH"(2) [OF True Inr u [symmetric] Cleanup] loop "1.prems"(1) kk k c(2) by auto
      next
        case Died
        show ?thesis
        proof (cases "nres u = firstreq u")
          case True
          then show ?thesis using Died loop "1.prems"(1) lu nu k c(2) by auto
        next
          case False
          then show ?thesis
            using "1.IH"(1) [OF True Inr u [symmetric] Died False] Died loop "1.prems"(1) kk k c(2) by auto
        qed
      qed
    qed
  qed
qed

section \<open>Properties\<close>

text \<open>C4: Over one connection to a server that answers every request with 200 and a length, in
  whatever pieces the bytes arrive, the program ends well after it has stored each body in the file
  that the last component of the path names, in the order of the arguments, and leaves the rest of the
  stream unread; provided that the server speaks HTTP/1.1 and keeps the connection, that every path names
  a file that can be opened, and that no write fails.\<close>

theorem phttpget_fetches:
  assumes "readenv getenv = Inr env" "0 < naddr" "argv \<noteq> []"
    "list_all (path_ok can_open) argv" "Write_Error \<notin> set ws"
    "recv_bytes rs = concat msgs @ rest" "list_all2 answers bodies msgs" "length bodies = length argv"
  shows "case phttpget (server # argv) getenv (Some naddr) can_open files ws (Connected rs [] # atts) of
           (r, t) \<Rightarrow> r = Inr () \<and> disk (net t) = store_all (zip argv bodies) files \<and>
             report t = map (\<lambda>i. (i, 200)) [0..<length argv] \<and> pending (net t) = rest"
proof -
  let ?i = "init_ph naddr files ws (Connected rs [] # atts)"
  let ?c = "?i\<lparr>res := naddr - 1, sd := True, net := (net ?i)\<lparr>incoming := rs\<rparr>, sends := [],
              sent := [], attempts := atts, firstreq := 0\<rparr>"
  have c1: "connect_loop ?i = Inr ?c"
    using assms(2) by (subst connect_loop.simps) (simp add: init_ph_def Let_def)
  have c2: "connect_loop ?c = Inr ?c" by (subst connect_loop.simps) simp
  have "fetch_loop env can_open naddr server argv ?i = fetch_loop env can_open naddr server argv ?c"
    using c1 c2 assms(3) by (subst (1 2) fetch_loop.simps) (simp add: init_ph_def)
  moreover have "free_state ?c" "nres ?c = 0" "nreq ?c = 0" "ready (net ?c)" "fd (net ?c) = None"
    "pending (net ?c) = concat msgs @ rest" "disk (net ?c) = files" "report ?c = []"
    using assms(5,6)
    by (simp_all add: free_state_def init_ph_def ready_def conn_ok_def file_ok_def pending_def
        unread_def)
  ultimately show ?thesis
    using fetch_rest [of ?c argv bodies msgs rest can_open env naddr server] assms
    by (simp add: phttpget_def) auto
qed

theorem phttpget_fetches_witness:
  "case phttpget [''server'', ''pub/f''] (\<lambda>_. None) (Some 2) (\<lambda>_. True) (\<lambda>_. None) []
      [Connected (incoming response_sample) []] of
     (r, t) \<Rightarrow> r = Inr () \<and> disk (net t) = store_all [(''pub/f'', ''abc'')] (\<lambda>_. None) \<and>
       report t = [(0, 200)] \<and> pending (net t) = ''HTTP''"
proof -
  let ?msg = "lines (length_head (CHR ''1'') ''200'' '' OK'' [''Server: x''] ''3'' []) @ ''abc''"
  obtain env where env: "readenv (\<lambda>_. None) = Inr env"
    by (simp add: readenv_def read_proxy_def read_userpass_def Let_def)
  have path: "list_all (path_ok (\<lambda>_. True)) [''pub/f'']" by (simp add: path_ok_def file_name_def)
  have bytes: "recv_bytes (incoming response_sample) = concat [?msg] @ ''HTTP''"
    using response_sample_ok(3) by (simp add: pending_def unread_def response_sample_def)
  have ans: "list_all2 answers [''abc''] [?msg]"
    using response_sample_ok(2) unfolding answers_def list_all2_Cons list_all2_Nil
    by (intro conjI exI [of _ "CHR ''1''"] exI [of _ "''200''"] exI [of _ "'' OK''"]
        exI [of _ "[''Server: x'']"] exI [of _ "''3''"] exI [of _ "[] :: string list"])
      (simp_all add: digits_value_def uchar_def)
  show ?thesis
    using phttpget_fetches [where server = "''server''" and files = "\<lambda>_. None" and atts = "[]"
        and naddr = 2 and ws = "[]", OF env _ _ path _ bytes ans]
    by (simp add: upt_rec)
qed

text \<open>C37: Whatever the attempts to connect come to, whatever bytes the connections deliver and wherever they
  break, in all reconnections together: the program makes at most as many attempts as there are addresses for
  each file; it finishes a file at most once, in the order of the arguments, since the lines about finished
  files have strictly rising numbers, all of files before the first one without an answer; and it touches
  no file on the disk but those that the last components of the paths name.  When it ends well, every file
  was answered.\<close>

theorem phttpget_attempts:
  "case phttpget (server # argv) getenv (Some naddr) can_open files ws atts of
     (r, t) \<Rightarrow> length atts \<le> length (attempts t) + naddr * length argv \<and>
       sorted_wrt (<) (map fst (report t)) \<and> (\<forall>(i, code)\<in>set (report t). i < nres t) \<and>
       nres t \<le> length argv \<and> (r = Inr () \<longrightarrow> nres t = length argv) \<and>
       (\<forall>f. f \<notin> file_name ` set argv \<longrightarrow> disk (net t) f = files f)"
proof (cases "phttpget (server # argv) getenv (Some naddr) can_open files ws atts")
  case (Pair r t)
  show ?thesis
  proof (cases "\<exists>env. readenv getenv = Inr env \<and> naddr \<noteq> 0")
    case True
    then obtain env where env: "readenv getenv = Inr env" "naddr \<noteq> 0" by blast
    let ?i = "init_ph naddr files ws atts"
    have l: "fetch_loop env can_open naddr server argv ?i = (r, t)"
      using Pair env by (simp add: phttpget_def)
    have i: "fd (net ?i) = None" "lines_ok ?i" "disk (net ?i) = files" "nres ?i \<le> length argv"
      by (simp_all add: init_ph_def lines_ok_def)
    show ?thesis
      using fetch_loop_attempts [OF l, of "length atts"] fetch_loop_keeps [OF l i(1,2,4)]
      by (auto simp: Pair i(3) lines_ok_def) (auto simp: init_ph_def)
  next
    case False
    with Pair show ?thesis
      by (auto simp: phttpget_def init_ph_def split: sum.splits if_splits)
  qed
qed

text \<open>Two files over two connections, each of which closes after one answer.\<close>

definition one_answer :: string where
  "one_answer = ''HTTP/1.1 200 OK'' @ crlf @ ''Content-Length: 1'' @ crlf @ crlf @ ''x''"

definition two_connections :: "(ph_error + unit) \<times> ph" where
  "two_connections =
     phttpget [''s'', ''p/a'', ''p/b''] (\<lambda>_. None) (Some 1) (\<lambda>_. True) (\<lambda>_. None) []
       [Connected [Data one_answer] [], Connected [Data one_answer] []]"

lemma phttpget_attempts_witness:
  "\<exists>t. phttpget [''s'', ''p/a'', ''p/b''] (\<lambda>_. None) (Some 1) (\<lambda>_. True) (\<lambda>_. None) []
       [Connected [Data one_answer] [], Connected [Data one_answer] []] = (Inr (), t) \<and>
     report t = [(0, 200), (1, 200)] \<and> nres t = 2 \<and> disk (net t) ''c'' = None"
proof -
  have r: "fst two_connections = Inr ()" "report (snd two_connections) = [(0, 200), (1, 200)]"
    by code_simp+
  then obtain t where t: "phttpget [''s'', ''p/a'', ''p/b''] (\<lambda>_. None) (Some 1) (\<lambda>_. True) (\<lambda>_. None) []
       [Connected [Data one_answer] [], Connected [Data one_answer] []] = (Inr (), t)"
    "report t = [(0, 200), (1, 200)]"
    by (cases two_connections) (auto simp: two_connections_def)
  show ?thesis
    using phttpget_attempts [where server = "''s''" and argv = "[''p/a'', ''p/b'']" and getenv = "\<lambda>_. None" and
        naddr = 1 and can_open = "\<lambda>_. True" and files = "\<lambda>_. None" and ws = "[]" and
        atts = "[Connected [Data one_answer] [], Connected [Data one_answer] []]"] t
    by (auto simp: file_name_def)
qed

end
