(* ===== verification/Kgdb_Threads.thy ===== *)
theory Kgdb_Threads
  imports Prelude
begin

text \<open>
  \<^verbatim>\<open>kgdb/kthr.c\<close>: the list of the kernel's threads.

  The kernel image is what \<open>libkvm\<close> gives: the record \<open>dump\<close> holds its symbols and, for each kind of
  object the code reads, the fields it uses, or \<open>None\<close> where \<open>kvm_read\<close> fails or is short.  A variable
  that such a read should have set keeps its old value; one that was never set is the error
  \<open>Indeterminate\<close>.  Addresses are 64-bit words.
\<close>

type_synonym addr = "64 word"

section \<open>The kernel image\<close>

record td_rec =
  td_pcb :: addr
  td_kstack :: addr
  td_proc :: addr
  td_lwp :: addr
  td_next :: addr

record gd_rec =
  gd_curthread :: addr
  gd_tdallq_first :: addr

record dump =
  nlist :: "c_string \<Rightarrow> addr option"
  rd_int :: "addr \<Rightarrow> int option"
  rd_ptr :: "addr \<Rightarrow> addr option"
  rd_gd :: "addr \<Rightarrow> gd_rec option"
  rd_td :: "addr \<Rightarrow> td_rec option"
  rd_pid :: "addr \<Rightarrow> int option"
  rd_lwp :: "addr \<Rightarrow> int option"
  rd_pcomm :: "addr \<Rightarrow> char list option"
  rd_tcomm :: "addr \<Rightarrow> char list option"

section \<open>The threads\<close>

record kthr =
  paddr :: addr
  kaddr :: addr
  kstack :: addr
  pcb :: addr
  tid :: addr
  pid :: int
  lwpid :: "int option"

datatype kt_error = Indeterminate string | Endless | Overread

text \<open>A pointer to a thread of the list: \<open>Freed\<close> once the list it pointed into has been freed.\<close>

datatype kthr_ref = Null | Thr kthr | Freed

text \<open>The static variables of the file.\<close>

record kt_state =
  dumppcb :: addr
  dumptid :: addr
  first :: "kthr list"
  curkthr :: kthr_ref

definition kgdb_lookup :: "dump \<Rightarrow> c_string \<Rightarrow> addr" where
  "kgdb_lookup d name = (case nlist d name of None \<Rightarrow> 0 | Some a \<Rightarrow> a)"

definition kgdb_thr_first :: "kt_state \<Rightarrow> kthr list" where
  "kgdb_thr_first s = first s"

text \<open>The four searches run down the list until the field has the value.\<close>

fun lookup_by :: "('a \<Rightarrow> bool) \<Rightarrow> 'a list \<Rightarrow> 'a option" where
  "lookup_by p [] = None"
| "lookup_by p (kt # kts) = (if p kt then Some kt else lookup_by p kts)"

definition kgdb_thr_lookup_tid :: "kt_state \<Rightarrow> addr \<Rightarrow> kthr option" where
  "kgdb_thr_lookup_tid s t = lookup_by (\<lambda>kt. tid kt = t) (first s)"

definition kgdb_thr_lookup_taddr :: "kt_state \<Rightarrow> addr \<Rightarrow> kthr option" where
  "kgdb_thr_lookup_taddr s a = lookup_by (\<lambda>kt. kaddr kt = a) (first s)"

definition kgdb_thr_lookup_pid :: "kt_state \<Rightarrow> int \<Rightarrow> kthr option" where
  "kgdb_thr_lookup_pid s p = lookup_by (\<lambda>kt. pid kt = p) (first s)"

definition kgdb_thr_lookup_paddr :: "kt_state \<Rightarrow> addr \<Rightarrow> kthr option" where
  "kgdb_thr_lookup_paddr s a = lookup_by (\<lambda>kt. paddr kt = a) (first s)"

text \<open>\<open>kt->next\<close>: a thread stands for the part of the list that starts at it.\<close>

definition kgdb_thr_next :: "kthr list \<Rightarrow> kthr list" where
  "kgdb_thr_next kts = tl kts"

definition kgdb_thr_select :: "kt_state \<Rightarrow> kthr_ref \<Rightarrow> kthr_ref \<times> kt_state" where
  "kgdb_thr_select s kt = (curkthr s, s\<lparr>curkthr := kt\<rparr>)"

definition kgdb_thr_extra_thread_info :: "addr \<Rightarrow> c_string option" where
  "kgdb_thr_extra_thread_info t = None"

section \<open>kgdb_thr_init\<close>

text \<open>The variables that survive an iteration: what the last good reads left in \<open>p.p_pid\<close> and
  \<open>lwp.lwp_tid\<close>.\<close>

type_synonym walk_vars = "int option \<times> int option"

text \<open>The body of the \<open>while (addr != 0)\<close> loop for the thread \<open>td\<close> read at \<open>a\<close>.\<close>

definition one_thread ::
  "dump \<Rightarrow> addr \<Rightarrow> addr \<Rightarrow> addr \<Rightarrow> td_rec \<Rightarrow> walk_vars \<Rightarrow> kt_error + kthr \<times> walk_vars"
where
  "one_thread d dtid dpcb a td vars =
     (case vars of (p, lwp) \<Rightarrow>
        let kt = \<lparr>paddr = 0, kaddr = a, kstack = td_kstack td,
                  pcb = (if a = dtid then dpcb else td_pcb td), tid = a, pid = 0, lwpid = None\<rparr>
        in if td_proc td \<noteq> 0 then
             (let p = (case rd_pid d (td_proc td) of None \<Rightarrow> p | Some v \<Rightarrow> Some v);
                  lwp = (case rd_lwp d (td_lwp td) of None \<Rightarrow> lwp | Some v \<Rightarrow> Some v)
              in case (p, lwp) of
                   (Some i, Some l) \<Rightarrow>
                     Inr (kt\<lparr>pid := i, paddr := td_proc td, lwpid := Some l\<rparr>, p, lwp)
                 | _ \<Rightarrow> Inl (Indeterminate ''p or lwp''))
           else Inr (kt\<lparr>pid := - 2, pcb := (if a \<noteq> dtid then 0 else pcb kt)\<rparr>, p, lwp))"

text \<open>The loop.  It ends on a null pointer or on a thread that cannot be read; on a list that runs in
  a circle it would not end, which is \<open>Endless\<close> here.  \<open>first\<close> grows at its head.\<close>

fun walk_threads ::
  "nat \<Rightarrow> dump \<Rightarrow> addr \<Rightarrow> addr \<Rightarrow> addr \<Rightarrow> walk_vars \<Rightarrow> kthr list \<Rightarrow> kt_error + kthr list \<times> walk_vars"
where
  "walk_threads fuel d dtid dpcb a vars kts =
     (if a = 0 then Inr (kts, vars)
      else (case rd_td d a of
              None \<Rightarrow> Inr (kts, vars)
            | Some td \<Rightarrow>
                (case fuel of
                   0 \<Rightarrow> Inl Endless
                 | Suc fuel \<Rightarrow>
                     (case one_thread d dtid dpcb a td vars of
                        Inl e \<Rightarrow> Inl e
                      | Inr (kt, vars) \<Rightarrow> walk_threads fuel d dtid dpcb (td_next td) vars (kt # kts)))))"

declare walk_threads.simps [simp del]

text \<open>The loop over the CPUs.  \<open>gdptr\<close> and \<open>gd\<close> keep their values when a read fails.
  \<open>gd_off\<close> is \<open>offsetof(struct privatespace, mdglobaldata)\<close>.\<close>

fun walk_cpus ::
  "nat \<Rightarrow> dump \<Rightarrow> addr \<Rightarrow> addr \<Rightarrow> addr \<Rightarrow> addr \<Rightarrow> nat \<Rightarrow> nat \<Rightarrow> addr option \<Rightarrow> gd_rec option \<Rightarrow>
   walk_vars \<Rightarrow> kthr list \<Rightarrow> kt_error + kthr list"
where
  "walk_cpus fuel d gd_off prvspace dtid dpcb cpu 0 gdptr gd vars kts = Inr kts"
| "walk_cpus fuel d gd_off prvspace dtid dpcb cpu (Suc n) gdptr gd vars kts =
     (case (case rd_ptr d (prvspace + of_nat cpu * 8) of None \<Rightarrow> gdptr | Some v \<Rightarrow> Some v) of
        None \<Rightarrow> Inl (Indeterminate ''gdptr'')
      | Some ptr \<Rightarrow>
          (case (case rd_gd d (ptr + gd_off) of None \<Rightarrow> gd | Some v \<Rightarrow> Some v) of
             None \<Rightarrow> Inl (Indeterminate ''gd'')
           | Some g \<Rightarrow>
               (case walk_threads fuel d dtid dpcb (gd_tdallq_first g) vars kts of
                  Inl e \<Rightarrow> Inl e
                | Inr (kts, vars) \<Rightarrow>
                    walk_cpus fuel d gd_off prvspace dtid dpcb (cpu + 1) n (Some ptr) (Some g) vars kts)))"

definition LIVESYS_DUMPTID :: addr where
  "LIVESYS_DUMPTID = 10"

text \<open>Which thread took the dump.\<close>

definition find_dumptid :: "dump \<Rightarrow> addr \<Rightarrow> addr \<Rightarrow> addr \<Rightarrow> kt_error + addr" where
  "find_dumptid d gd_off prvspace old =
     (let a = kgdb_lookup d ''_dumpthread'' in
      if a \<noteq> 0 then Inr (case rd_ptr d a of None \<Rightarrow> old | Some t \<Rightarrow> t)
      else (let dumping = (case rd_int d (kgdb_lookup d ''_dumping'') of None \<Rightarrow> 0 | Some v \<Rightarrow> v) in
        if dumping \<noteq> 0 then
          (case rd_ptr d prvspace of
             None \<Rightarrow> Inl (Indeterminate ''gdptr'')
           | Some ptr \<Rightarrow>
               (case rd_gd d (ptr + gd_off) of
                  None \<Rightarrow> Inl (Indeterminate ''gd'')
                | Some g \<Rightarrow> Inr (gd_curthread g)))
        else Inr LIVESYS_DUMPTID))"

text \<open>The \<open>while (first != NULL)\<close> loop frees the old list; \<open>curkthr\<close> is left pointing into it.\<close>

definition free_threads :: "kt_state \<Rightarrow> kt_state" where
  "free_threads s =
     s\<lparr>first := [], curkthr := (case curkthr s of Null \<Rightarrow> Null | _ \<Rightarrow> Freed)\<rparr>"

text \<open>The thread that took the dump is the current one; without it, the first.\<close>

definition set_current :: "kt_state \<Rightarrow> addr \<Rightarrow> kthr_ref" where
  "set_current s t =
     (case kgdb_thr_lookup_tid s t of
        Some kt \<Rightarrow> Thr kt
      | None \<Rightarrow> (case first s of [] \<Rightarrow> Null | kt # _ \<Rightarrow> Thr kt))"

definition kgdb_thr_init :: "nat \<Rightarrow> dump \<Rightarrow> addr \<Rightarrow> kt_state \<Rightarrow> kt_error + kt_state" where
  "kgdb_thr_init fuel d gd_off s =
     (let s = free_threads s;
          a = kgdb_lookup d ''_ncpus''
      in if a = 0 then Inr s
         else (case rd_int d a of
                 None \<Rightarrow> Inl (Indeterminate ''ncpus'')
               | Some ncpus \<Rightarrow>
                   (let s = s\<lparr>dumppcb := kgdb_lookup d ''_dumppcb''\<rparr>;
                        prvspace = kgdb_lookup d ''_CPU_prvspace''
                    in if dumppcb s = 0 \<or> prvspace = 0 then Inr s
                       else (case find_dumptid d gd_off prvspace (dumptid s) of
                               Inl e \<Rightarrow> Inl e
                             | Inr t \<Rightarrow>
                                 (case walk_cpus fuel d gd_off prvspace t (dumppcb s) 0 (nat ncpus)
                                         None None (None, None) [] of
                                    Inl e \<Rightarrow> Inl e
                                  | Inr kts \<Rightarrow>
                                      (let s = s\<lparr>dumptid := t, first := kts\<rparr> in
                                       Inr (s\<lparr>curkthr := set_current s t\<rparr>)))))))"

section \<open>kgdb_thr_pid_to_str\<close>

text \<open>\<open>strlcat(buf, s, size)\<close> and \<open>snprintf(buf + strlen(buf), size - strlen(buf), "%s", s)\<close>.\<close>

definition strlcat :: "nat \<Rightarrow> c_string \<Rightarrow> c_string \<Rightarrow> c_string" where
  "strlcat n buf s = take (n - 1) (buf @ s)"

text \<open>\<open>comm\<close> is read as an array of \<open>MAXCOMLEN + 1\<close> bytes; as a string it ends at its first NUL, and
  without one the reader runs off its end.\<close>

definition MAXCOMLEN :: nat where
  "MAXCOMLEN = 16"

definition nul :: char where
  "nul = CHR 0x00"

definition comm_string :: "char list \<Rightarrow> kt_error + c_string" where
  "comm_string bs =
     (if nul \<in> set bs then Inr (takeWhile (\<lambda>c. c \<noteq> nul) bs) else Inl Overread)"

definition kgdb_thr_pid_to_str ::
  "dump \<Rightarrow> kt_state \<Rightarrow> int \<Rightarrow> addr \<Rightarrow> kt_error + c_string option"
where
  "kgdb_thr_pid_to_str d s ptid_pid t =
     (case (if t = 0 then kgdb_thr_lookup_pid s ptid_pid else kgdb_thr_lookup_tid s t) of
        None \<Rightarrow> Inr None
      | Some kt \<Rightarrow>
          if pid kt \<noteq> - 2 then
            (let buf = take 63 (''pid '' @ show_int (pid kt)) in
             case (if t \<noteq> 0
                   then (case lwpid kt of
                           None \<Rightarrow> Inl (Indeterminate ''lwpid'')
                         | Some l \<Rightarrow> Inr (strlcat 64 buf (''/'' @ show_int l)))
                   else Inr buf) of
               Inl e \<Rightarrow> Inl e
             | Inr buf \<Rightarrow>
                 (case rd_pcomm d (paddr kt) of
                    None \<Rightarrow> Inr (Some buf)
                  | Some comm \<Rightarrow>
                      (case comm_string comm of
                         Inl e \<Rightarrow> Inl e
                       | Inr c \<Rightarrow> Inr (Some (strlcat 64 (strlcat 64 buf '', '') c)))))
          else
            (if t \<noteq> 0 then
               (case rd_tcomm d (kaddr kt) of
                  None \<Rightarrow> Inr (Some ''kernel'')
                | Some comm \<Rightarrow>
                    (case comm_string comm of
                       Inl e \<Rightarrow> Inl e
                     | Inr c \<Rightarrow> Inr (Some (strlcat 64 (strlcat 64 ''kernel'' '' '') c))))
             else Inr (Some ''kernel'')))"

section \<open>Which threads the list holds\<close>

text \<open>The addresses on the chain that starts at \<open>a\<close>.\<close>

fun chain :: "dump \<Rightarrow> addr \<Rightarrow> addr list \<Rightarrow> bool" where
  "chain d a [] \<longleftrightarrow> a = 0 \<or> rd_td d a = None"
| "chain d a (x # xs) \<longleftrightarrow>
     a = x \<and> a \<noteq> 0 \<and> (case rd_td d a of None \<Rightarrow> False | Some td \<Rightarrow> chain d (td_next td) xs)"

text \<open>The entry for the thread at \<open>a\<close>.\<close>

definition thread_entry :: "dump \<Rightarrow> addr \<Rightarrow> addr \<Rightarrow> addr \<Rightarrow> kthr" where
  "thread_entry d dtid dpcb a =
     (let td = the (rd_td d a) in
      if td_proc td \<noteq> 0 then
        \<lparr>paddr = td_proc td, kaddr = a, kstack = td_kstack td,
         pcb = (if a = dtid then dpcb else td_pcb td), tid = a,
         pid = the (rd_pid d (td_proc td)), lwpid = Some (the (rd_lwp d (td_lwp td)))\<rparr>
      else
        \<lparr>paddr = 0, kaddr = a, kstack = td_kstack td, pcb = (if a = dtid then dpcb else 0), tid = a,
         pid = - 2, lwpid = None\<rparr>)"

text \<open>Its process and its lwp can be read.\<close>

definition readable :: "dump \<Rightarrow> addr \<Rightarrow> bool" where
  "readable d a \<longleftrightarrow>
     (case rd_td d a of
        None \<Rightarrow> False
      | Some td \<Rightarrow> td_proc td \<noteq> 0 \<longrightarrow>
          rd_pid d (td_proc td) \<noteq> None \<and> rd_lwp d (td_lwp td) \<noteq> None)"

lemma tid_thread_entry [simp]: "tid (thread_entry d dtid dpcb a) = a"
  by (simp add: thread_entry_def Let_def)

lemma one_thread_entry:
  assumes "readable d a" and "rd_td d a = Some td"
  obtains vars' where
    "one_thread d dtid dpcb a td vars = Inr (thread_entry d dtid dpcb a, vars')"
proof -
  have "\<exists>vars'. one_thread d dtid dpcb a td vars = Inr (thread_entry d dtid dpcb a, vars')"
    using assms
    by (cases vars; cases "td_proc td = 0")
      (auto simp: one_thread_def thread_entry_def readable_def Let_def)
  then show thesis using that by blast
qed

lemma walk_threads_chain:
  assumes "chain d a as" and "\<forall>x\<in>set as. readable d x" and "length as \<le> fuel"
  shows "\<exists>vars'. walk_threads fuel d dtid dpcb a vars kts =
           Inr (rev (map (thread_entry d dtid dpcb) as) @ kts, vars')"
  using assms
proof (induction as arbitrary: a fuel vars kts)
  case Nil
  then show ?case by (auto simp: walk_threads.simps [of fuel])
next
  case (Cons x xs)
  then obtain td n where td: "rd_td d a = Some td" "a = x" "a \<noteq> 0" "chain d (td_next td) xs"
    and n: "fuel = Suc n" "length xs \<le> n"
    by (cases fuel) (auto split: option.splits)
  obtain vars' where "one_thread d dtid dpcb a td vars = Inr (thread_entry d dtid dpcb a, vars')"
    using one_thread_entry [of d a td dtid dpcb vars] Cons.prems(2) td by auto
  then show ?case
    using Cons.IH [OF td(4) _ n(2), of vars' "thread_entry d dtid dpcb a # kts"] Cons.prems(2) td n
    by (auto simp: walk_threads.simps [of "Suc n"])
qed

text \<open>Every CPU's private space and global data can be read, and its list ends.\<close>

definition cpu_chain :: "dump \<Rightarrow> addr \<Rightarrow> addr \<Rightarrow> nat \<Rightarrow> addr list \<Rightarrow> bool" where
  "cpu_chain d gd_off prvspace cpu as \<longleftrightarrow>
     (case rd_ptr d (prvspace + of_nat cpu * 8) of
        None \<Rightarrow> False
      | Some ptr \<Rightarrow>
          (case rd_gd d (ptr + gd_off) of
             None \<Rightarrow> False
           | Some g \<Rightarrow> chain d (gd_tdallq_first g) as))"

lemma walk_cpus_chains:
  assumes "\<And>i. i < length css \<Longrightarrow> cpu_chain d gd_off prvspace (cpu + i) (css ! i)"
    and "\<forall>as\<in>set css. length as \<le> fuel \<and> (\<forall>x\<in>set as. readable d x)"
  shows "walk_cpus fuel d gd_off prvspace dtid dpcb cpu (length css) gdptr gd vars kts =
           Inr (rev (map (thread_entry d dtid dpcb) (concat css)) @ kts)"
  using assms
proof (induction css arbitrary: cpu gdptr gd vars kts)
  case Nil
  then show ?case by simp
next
  case (Cons as css)
  obtain ptr g where ptr: "rd_ptr d (prvspace + of_nat cpu * 8) = Some ptr"
    "rd_gd d (ptr + gd_off) = Some g" "chain d (gd_tdallq_first g) as"
    using Cons.prems(1) [of 0] by (auto simp: cpu_chain_def split: option.splits)
  obtain vars' where w: "walk_threads fuel d dtid dpcb (gd_tdallq_first g) vars kts =
      Inr (rev (map (thread_entry d dtid dpcb) as) @ kts, vars')"
    using walk_threads_chain [OF ptr(3), of fuel] Cons.prems(2) by (meson list.set_intros(1))
  have "walk_cpus fuel d gd_off prvspace dtid dpcb (cpu + 1) (length css) (Some ptr) (Some g) vars'
          (rev (map (thread_entry d dtid dpcb) as) @ kts) =
        Inr (rev (map (thread_entry d dtid dpcb) (concat css)) @
             rev (map (thread_entry d dtid dpcb) as) @ kts)"
  proof (rule Cons.IH)
    show "cpu_chain d gd_off prvspace (cpu + 1 + i) (css ! i)" if "i < length css" for i
      using Cons.prems(1) [of "Suc i"] that by simp
    show "\<forall>as\<in>set css. length as \<le> fuel \<and> (\<forall>x\<in>set as. readable d x)"
      using Cons.prems(2) by simp
  qed
  then show ?case using ptr w by simp
qed

lemma lookup_by_find: "lookup_by p xs = List.find p xs"
  by (induction xs) auto

lemma lookup_by_SomeD: "lookup_by p xs = Some x \<Longrightarrow> x \<in> set xs \<and> p x"
  by (induction xs) (auto split: if_splits)

lemma lookup_by_None_iff: "lookup_by p xs = None \<longleftrightarrow> (\<forall>x\<in>set xs. \<not> p x)"
  by (induction xs) auto

text \<open>\<open>curkthr\<close> is a thread of the list whenever the list has one.\<close>

definition kt_ok :: "kt_state \<Rightarrow> bool" where
  "kt_ok s \<longleftrightarrow>
     (case curkthr s of Thr kt \<Rightarrow> kt \<in> set (first s) | Null \<Rightarrow> first s = [] | Freed \<Rightarrow> first s = [])"

lemma set_current_ok: "kt_ok (s\<lparr>curkthr := set_current s t\<rparr>)"
  by (auto simp: kt_ok_def set_current_def kgdb_thr_lookup_tid_def lookup_by_None_iff
      dest: lookup_by_SomeD split: option.splits list.splits)

lemma free_threads_ok: "kt_ok s \<Longrightarrow> kt_ok (free_threads s)"
  by (auto simp: kt_ok_def free_threads_def split: kthr_ref.splits)

lemma kt_ok_dumppcb [simp]: "kt_ok (s\<lparr>dumppcb := a\<rparr>) = kt_ok s"
  by (simp add: kt_ok_def split: kthr_ref.splits)

lemma kgdb_thr_init_keeps_ok: "kt_ok s \<Longrightarrow> kgdb_thr_init fuel d gd_off s = Inr s' \<Longrightarrow> kt_ok s'"
  by (auto simp: kgdb_thr_init_def Let_def free_threads_ok set_current_ok
      split: if_splits option.splits sum.splits)

lemma dumptid_set_current [simp]: "set_current (s\<lparr>dumptid := x\<rparr>) t = set_current s t"
  by (simp add: set_current_def kgdb_thr_lookup_tid_def split: option.split)

lemma find_tid_entry:
  "t \<in> set as \<Longrightarrow> List.find (\<lambda>kt. tid kt = t) (map (thread_entry d dtid dpcb) as) =
     Some (thread_entry d dtid dpcb t)"
  by (induction as) auto

lemma set_current_entry:
  assumes "first s = rev (map (thread_entry d dtid dpcb) as)" and "t \<in> set as"
  shows "set_current s t = Thr (thread_entry d dtid dpcb t)"
proof -
  have "first s = map (thread_entry d dtid dpcb) (rev as)" using assms(1) by (simp add: rev_map)
  then show ?thesis
    using find_tid_entry [of t "rev as" d dtid dpcb] assms(2)
    by (simp add: set_current_def kgdb_thr_lookup_tid_def lookup_by_find)
qed

lemma kgdb_thr_init_ok:
  assumes "kgdb_lookup d ''_ncpus'' \<noteq> 0"
    and "rd_int d (kgdb_lookup d ''_ncpus'') = Some (int (length css))"
    and "kgdb_lookup d ''_dumppcb'' \<noteq> 0" and "kgdb_lookup d ''_CPU_prvspace'' \<noteq> 0"
    and "find_dumptid d gd_off (kgdb_lookup d ''_CPU_prvspace'') (dumptid s) = Inr t"
    and "\<forall>i<length css. cpu_chain d gd_off (kgdb_lookup d ''_CPU_prvspace'') i (css ! i)"
    and "\<forall>as\<in>set css. length as \<le> fuel \<and> (\<forall>x\<in>set as. readable d x)"
  shows "\<exists>s'. kgdb_thr_init fuel d gd_off s = Inr s' \<and> dumptid s' = t \<and>
           first s' = rev (map (thread_entry d t (kgdb_lookup d ''_dumppcb'')) (concat css)) \<and>
           (t \<in> set (concat css) \<longrightarrow>
             curkthr s' = Thr (thread_entry d t (kgdb_lookup d ''_dumppcb'') t)) \<and>
           (t \<notin> set (concat css) \<longrightarrow>
             curkthr s' = (case first s' of [] \<Rightarrow> Null | kt # _ \<Rightarrow> Thr kt))"
proof -
  define P where "P = kgdb_lookup d ''_CPU_prvspace''"
  define K where "K = rev (map (thread_entry d t (kgdb_lookup d ''_dumppcb'')) (concat css))"
  let ?s = "free_threads s\<lparr>dumppcb := kgdb_lookup d ''_dumppcb'', dumptid := t, first := K\<rparr>"
  have w: "walk_cpus fuel d gd_off P t (kgdb_lookup d ''_dumppcb'') 0 (length css) None None (None, None) []
      = Inr K"
    unfolding K_def P_def using walk_cpus_chains [of css d gd_off _ 0 fuel] assms(6,7) by simp
  have d: "dumptid (free_threads s) = dumptid s" by (simp add: free_threads_def)
  have "kgdb_thr_init fuel d gd_off s = Inr (?s\<lparr>curkthr := set_current ?s t\<rparr>)"
    using assms(1-5) w unfolding P_def by (simp add: kgdb_thr_init_def Let_def d)
  moreover have "t \<in> set (concat css) \<Longrightarrow>
      set_current ?s t = Thr (thread_entry d t (kgdb_lookup d ''_dumppcb'') t)"
    by (rule set_current_entry [of _ _ _ _ "concat css"]) (simp_all add: K_def)
  moreover have "t \<notin> set (concat css) \<Longrightarrow>
      set_current ?s t = (case K of [] \<Rightarrow> Null | kt # _ \<Rightarrow> Thr kt)"
    by (simp add: set_current_def kgdb_thr_lookup_tid_def, subst option.case_eq_if)
      (auto simp: lookup_by_None_iff K_def)
  ultimately show ?thesis by (simp add: K_def)
qed

section \<open>The text of a thread fits its buffer\<close>

lemma comm_string_length:
  "comm_string bs = Inr c \<Longrightarrow> length bs \<le> n + 1 \<Longrightarrow> length c \<le> n"
proof -
  assume a: "comm_string bs = Inr c" "length bs \<le> n + 1"
  then have "c = takeWhile (\<lambda>c. c \<noteq> nul) bs" "nul \<in> set bs"
    by (auto simp: comm_string_def split: if_splits)
  then have "length c < length bs"
    by (metis (full_types) length_takeWhile_le nat_less_le set_takeWhileD takeWhile_eq_take take_all_iff)
  then show "length c \<le> n" using a by simp
qed

text \<open>What is printed when nothing is cut.\<close>

definition thread_text :: "kthr \<Rightarrow> addr \<Rightarrow> c_string option \<Rightarrow> c_string" where
  "thread_text kt t comm =
     (if pid kt \<noteq> - 2 then
        ''pid '' @ show_int (pid kt) @ (if t \<noteq> 0 then ''/'' @ show_int (the (lwpid kt)) else []) @
        (case comm of None \<Rightarrow> [] | Some c \<Rightarrow> '', '' @ c)
      else ''kernel'' @ (case comm of None \<Rightarrow> [] | Some c \<Rightarrow> '' '' @ c))"

definition small_ids :: "kthr \<Rightarrow> bool" where
  "small_ids kt \<longleftrightarrow> \<bar>pid kt\<bar> < 10 ^ 10 \<and> (case lwpid kt of None \<Rightarrow> True | Some l \<Rightarrow> \<bar>l\<bar> < 10 ^ 19)"

definition dump_ok :: "dump \<Rightarrow> bool" where
  "dump_ok d \<longleftrightarrow>
     (\<forall>a bs. rd_pcomm d a = Some bs \<longrightarrow> length bs = MAXCOMLEN + 1) \<and>
     (\<forall>a bs. rd_tcomm d a = Some bs \<longrightarrow> length bs = MAXCOMLEN + 1)"

lemma strlcat_fits: "length buf + length s < n \<Longrightarrow> strlcat n buf s = buf @ s"
  by (simp add: strlcat_def)

lemma length_pid_text: "\<bar>i\<bar> < 10 ^ 10 \<Longrightarrow> length (''pid '' @ show_int i) \<le> 15"
  using length_show_int [of i 10] by simp

lemma length_lwp_text: "\<bar>l\<bar> < 10 ^ 19 \<Longrightarrow> length (''/'' @ show_int l) \<le> 21"
  using length_show_int [of l 19] by simp

text \<open>The thread that a \<open>ptid\<close> names.\<close>

definition named_thread :: "kt_state \<Rightarrow> int \<Rightarrow> addr \<Rightarrow> kthr option" where
  "named_thread s p t = (if t = 0 then kgdb_thr_lookup_pid s p else kgdb_thr_lookup_tid s t)"

text \<open>Its command name, where it is read.\<close>

definition comm_of :: "dump \<Rightarrow> kthr \<Rightarrow> addr \<Rightarrow> kt_error + c_string option" where
  "comm_of d kt t =
     (case (if pid kt \<noteq> - 2 then rd_pcomm d (paddr kt)
            else if t \<noteq> 0 then rd_tcomm d (kaddr kt) else None) of
        None \<Rightarrow> Inr None
      | Some bs \<Rightarrow> (case comm_string bs of Inl e \<Rightarrow> Inl e | Inr c \<Rightarrow> Inr (Some c)))"

lemma comm_of_length:
  "dump_ok d \<Longrightarrow> comm_of d kt t = Inr (Some c) \<Longrightarrow> length c \<le> 16"
  by (auto simp: comm_of_def dump_ok_def MAXCOMLEN_def dest: comm_string_length [of _ _ 16]
      split: if_splits option.splits sum.splits)

lemma kgdb_thr_pid_to_str_ok:
  assumes "named_thread s p t = Some kt" and "small_ids kt" and "dump_ok d"
    and "pid kt = - 2 \<or> lwpid kt \<noteq> None" and "comm_of d kt t = Inr comm"
  shows "kgdb_thr_pid_to_str d s p t = Inr (Some (thread_text kt t comm))"
    and "length (thread_text kt t comm) < 64"
proof -
  let ?b = "''pid '' @ show_int (pid kt)"
  let ?l = "if t \<noteq> 0 then ''/'' @ show_int (the (lwpid kt)) else []"
  have c: "comm = Some c \<Longrightarrow> length c \<le> 16" for c using comm_of_length assms(3,5) by blast
  have b: "length ?b \<le> 15"
    using assms(2) length_pid_text [of "pid kt"] by (simp add: small_ids_def)
  have l: "pid kt \<noteq> - 2 \<Longrightarrow> length ?l \<le> 21"
    using assms(2,4) length_lwp_text [of "the (lwpid kt)"] by (auto simp: small_ids_def)
  have bl: "pid kt \<noteq> - 2 \<Longrightarrow> length (?b @ ?l) \<le> 36"
    using add_mono [OF b l] unfolding length_append [of ?b ?l] by linarith
  have "thread_text kt t comm = (?b @ ?l) @ (case comm of None \<Rightarrow> [] | Some c \<Rightarrow> '', '' @ c)"
    if "pid kt \<noteq> - 2"
    using that by (simp add: thread_text_def)
  then show "length (thread_text kt t comm) < 64"
    using bl c
    by (cases "pid kt = - 2"; cases comm) (force simp: thread_text_def simp del: append_assoc)+
  show "kgdb_thr_pid_to_str d s p t = Inr (Some (thread_text kt t comm))"
  proof (cases "pid kt = - 2")
    case True
    then show ?thesis
      using assms(1,5) c
      by (auto simp: kgdb_thr_pid_to_str_def named_thread_def comm_of_def thread_text_def strlcat_def
          split: if_splits option.splits sum.splits)
  next
    case False
    have e: "(if t \<noteq> 0
          then (case lwpid kt of
                  None \<Rightarrow> Inl (Indeterminate ''lwpid'')
                | Some l \<Rightarrow> Inr (strlcat 64 (take 63 ?b) (''/'' @ show_int l)))
          else Inr (take 63 ?b)) = Inr (?b @ ?l)"
      using assms(4) False b bl by (auto simp: strlcat_def)
    have "strlcat 64 (strlcat 64 (?b @ ?l) '', '') c = ?b @ ?l @ '', '' @ c" if "length c \<le> 16" for c
      using that bl [OF False] by (simp add: strlcat_def)
    then show ?thesis
      using assms(1,5) c False e
      by (auto simp: kgdb_thr_pid_to_str_def named_thread_def comm_of_def thread_text_def Let_def
          split: if_splits option.splits sum.splits)
  qed
qed

section \<open>Properties\<close>

text \<open>C16: after \<open>kgdb_thr_init\<close> on an image whose symbols, CPUs, processes and lwps can be read, the
  list holds one entry for each thread of each CPU's chain, in reverse order of the walk, each with
  the fields of its \<open>struct thread\<close> (the dumping thread has \<open>dumppcb\<close>, any other kernel thread no pcb);
  the current thread is the one that took the dump, or the head of the list when it is on no chain.
  Fuel at least the longest chain is enough.\<close>

theorem kgdb_thr_init_correct:
  assumes "kgdb_lookup d ''_ncpus'' \<noteq> 0"
    and "rd_int d (kgdb_lookup d ''_ncpus'') = Some (int (length css))"
    and "kgdb_lookup d ''_dumppcb'' \<noteq> 0" and "kgdb_lookup d ''_CPU_prvspace'' \<noteq> 0"
    and "find_dumptid d gd_off (kgdb_lookup d ''_CPU_prvspace'') (dumptid s) = Inr t"
    and "\<forall>i<length css. cpu_chain d gd_off (kgdb_lookup d ''_CPU_prvspace'') i (css ! i)"
    and "\<forall>as\<in>set css. length as \<le> fuel \<and> (\<forall>x\<in>set as. readable d x)"
  shows "\<exists>s'. kgdb_thr_init fuel d gd_off s = Inr s' \<and> dumptid s' = t \<and>
           first s' = rev (map (thread_entry d t (kgdb_lookup d ''_dumppcb'')) (concat css)) \<and>
           (t \<in> set (concat css) \<longrightarrow>
             curkthr s' = Thr (thread_entry d t (kgdb_lookup d ''_dumppcb'') t)) \<and>
           (t \<notin> set (concat css) \<longrightarrow>
             curkthr s' = (case first s' of [] \<Rightarrow> Null | kt # _ \<Rightarrow> Thr kt))"
  using assms by (rule kgdb_thr_init_ok)

definition sample_dump :: dump where
  "sample_dump =
     \<lparr>nlist = (\<lambda>n. map_of [(''_ncpus'', 8), (''_dumppcb'', 16), (''_CPU_prvspace'', 32),
                            (''_dumping'', 24)] n),
      rd_int = (\<lambda>a. if a = 8 then Some 1 else if a = 24 then Some 1 else None),
      rd_ptr = (\<lambda>a. if a = 32 then Some 1000 else None),
      rd_gd = (\<lambda>a. if a = 1100 then Some \<lparr>gd_curthread = 3000, gd_tdallq_first = 2000\<rparr> else None),
      rd_td = (\<lambda>a. if a = 2000 then Some \<lparr>td_pcb = 5, td_kstack = 6, td_proc = 4000, td_lwp = 4100,
                                           td_next = 3000\<rparr>
                    else if a = 3000 then Some \<lparr>td_pcb = 7, td_kstack = 8, td_proc = 0, td_lwp = 0,
                                                td_next = 0\<rparr>
                    else None),
      rd_pid = (\<lambda>a. if a = 4000 then Some 77 else None),
      rd_lwp = (\<lambda>a. if a = 4100 then Some 1 else None),
      rd_pcomm = (\<lambda>a. if a = 4000 then Some (''sh'' @ replicate 15 nul) else None),
      rd_tcomm = (\<lambda>a. None)\<rparr>"

definition sample_state :: kt_state where
  "sample_state = \<lparr>dumppcb = 0, dumptid = 0, first = [], curkthr = Null\<rparr>"

lemma kgdb_thr_init_correct_witness:
  "\<exists>s'. kgdb_thr_init 2 sample_dump 100 sample_state = Inr s' \<and> dumptid s' = 3000 \<and>
     first s' = rev (map (thread_entry sample_dump 3000 16) [2000, 3000]) \<and>
     curkthr s' = Thr (thread_entry sample_dump 3000 16 3000)"
  using kgdb_thr_init_correct [of sample_dump "[[2000, 3000]]" 100 sample_state 3000 2]
  by (simp add: sample_dump_def sample_state_def kgdb_lookup_def find_dumptid_def cpu_chain_def
      readable_def Let_def)

text \<open>\<open>curkthr\<close> points to a thread of the list whenever the list holds one: every run of
  \<open>kgdb_thr_init\<close> that does not fail keeps this, whatever the image, its early returns included
  (they leave the list empty and \<open>curkthr\<close> null or dangling).\<close>

theorem kgdb_thr_init_invariant:
  "kt_ok s \<Longrightarrow> kgdb_thr_init fuel d gd_off s = Inr s' \<Longrightarrow> kt_ok s'"
  by (rule kgdb_thr_init_keeps_ok)

lemma kgdb_thr_init_invariant_witness:
  "\<exists>s'. kgdb_thr_init 2 (sample_dump\<lparr>rd_td := (\<lambda>a. None)\<rparr>) 100 sample_state = Inr s' \<and> kt_ok s'"
proof -
  let ?d = "sample_dump\<lparr>rd_td := (\<lambda>a. None)\<rparr>"
  obtain s' where "kgdb_thr_init 2 ?d 100 sample_state = Inr s'"
    by (simp add: sample_dump_def sample_state_def kgdb_lookup_def find_dumptid_def
        kgdb_thr_init_def walk_threads.simps Let_def)
  moreover have "kt_ok sample_state" by (simp add: kt_ok_def sample_state_def)
  ultimately show ?thesis using kgdb_thr_init_invariant by blast
qed

text \<open>The 64-byte buffer of \<open>kgdb_thr_pid_to_str\<close> is never too short: for a thread the list has,
  with ids of the width of a \<open>pid_t\<close> and of a 64-bit lwp id, a NUL-terminated command name of at most
  \<open>MAXCOMLEN\<close> bytes comes out whole after the ids.\<close>

theorem kgdb_thr_pid_to_str_fits:
  assumes "named_thread s p t = Some kt" and "small_ids kt" and "dump_ok d"
    and "pid kt = - 2 \<or> lwpid kt \<noteq> None" and "comm_of d kt t = Inr comm"
  shows "kgdb_thr_pid_to_str d s p t = Inr (Some (thread_text kt t comm)) \<and>
         length (thread_text kt t comm) < 64"
  using kgdb_thr_pid_to_str_ok [OF assms] by blast

definition sample_kthr :: kthr where
  "sample_kthr =
     \<lparr>paddr = 4000, kaddr = 2000, kstack = 6, pcb = 5, tid = 2000, pid = 77, lwpid = Some 1\<rparr>"

lemma kgdb_thr_pid_to_str_fits_witness:
  "kgdb_thr_pid_to_str sample_dump (sample_state\<lparr>first := [sample_kthr]\<rparr>) 77 2000 =
     Inr (Some ''pid 77/1, sh'')"
proof -
  have "show_int 77 = ''77''" "show_int 1 = ''1''"
    by code_simp+
  moreover have "comm_of sample_dump sample_kthr 2000 = Inr (Some ''sh'')"
    by (simp add: comm_of_def sample_dump_def sample_kthr_def comm_string_def nul_def)
  moreover have "dump_ok sample_dump" by (simp add: dump_ok_def sample_dump_def MAXCOMLEN_def)
  ultimately show ?thesis
    using kgdb_thr_pid_to_str_fits [of "sample_state\<lparr>first := [sample_kthr]\<rparr>" 77 2000 sample_kthr
        sample_dump "Some ''sh''"]
    by (simp add: sample_kthr_def named_thread_def kgdb_thr_lookup_tid_def small_ids_def
        thread_text_def)
qed

end
