(* ===== verification/Kgdb_Target.thy ===== *)
theory Kgdb_Target
  imports Kgdb_Threads
begin

text \<open>
  \<^verbatim>\<open>kgdb/trgt.c\<close> and \<^verbatim>\<open>kgdb/trgt_x86_64.c\<close>: the debugger's target for a kernel dump.

  What gdb and \<open>libkvm\<close> provide (opening the dump, the inferior and thread lists, the unwinder's view of
  a frame, the expression evaluator) comes in as arguments.  An \<open>error (...)\<close> of the source is
  \<open>Inl (Gdb_error ...)\<close>.
\<close>

datatype trgt_error = Gdb_error string | Kthr_error kt_error | Use_after_free | Null_deref

definition lift_kt :: "kt_error + 'a \<Rightarrow> trgt_error + 'a" where
  "lift_kt r = (case r of Inl e \<Rightarrow> Inl (Kthr_error e) | Inr x \<Rightarrow> Inr x)"

section \<open>The target's state\<close>

text \<open>A \<open>ptid_t\<close> is a process id, an lwp id and a thread id; the lwp id of a kernel thread was never set.\<close>

type_synonym ptid = "int \<times> int option \<times> addr"

record 'h trgt =
  kvm :: "'h option"
  vmcore :: "c_string option"
  kernbase :: addr
  threads :: kt_state
  inferior_ptid :: "ptid option"
  pushed :: bool
  kld_ops :: bool
  unwinders :: nat

definition kgdb_kernbase :: "addr option \<Rightarrow> addr \<Rightarrow> 'h trgt \<Rightarrow> addr \<times> 'h trgt" where
  "kgdb_kernbase symbol KERNBASE t =
     (let t = (if kernbase t = 0
               then t\<lparr>kernbase := (case symbol of None \<Rightarrow> KERNBASE | Some v \<Rightarrow> v)\<rparr> else t)
      in (kernbase t, t))"

definition ptid_build :: "kthr \<Rightarrow> ptid" where
  "ptid_build kt = (pid kt, lwpid kt, tid kt)"

section \<open>Registering inferiors and threads\<close>

datatype pspace = Current_pspace | New_pspace

record inferior =
  inf_pid :: int
  attach_flag :: bool
  inf_pspace :: pspace
  fake_pid_p :: bool
  inf_arch :: string

text \<open>gdb's tables: \<open>init_thread_list\<close> empties the thread table, and \<open>in_inferior_list\<close>,
  \<open>inferior_appeared\<close> on the current inferior, \<open>add_inferior\<close> and \<open>add_thread\<close>.\<close>

record 'g gdb_api =
  init_thread_list :: "'g \<Rightarrow> 'g"
  in_inferior_list :: "'g \<Rightarrow> int \<Rightarrow> bool"
  inferior_appeared :: "'g \<Rightarrow> inferior \<Rightarrow> 'g"
  add_inferior :: "'g \<Rightarrow> inferior \<Rightarrow> 'g"
  add_thread :: "'g \<Rightarrow> ptid \<Rightarrow> 'g"

definition new_inferior :: "string \<Rightarrow> bool \<Rightarrow> kthr \<Rightarrow> inferior" where
  "new_inferior arch first_inferior kt =
     \<lparr>inf_pid = pid kt, attach_flag = first_inferior,
      inf_pspace = (if first_inferior then Current_pspace else New_pspace), fake_pid_p = False,
      inf_arch = arch\<rparr>"

fun register_threads :: "'g gdb_api \<Rightarrow> string \<Rightarrow> bool \<Rightarrow> 'g \<Rightarrow> kthr list \<Rightarrow> 'g" where
  "register_threads api arch first_inferior g [] = g"
| "register_threads api arch first_inferior g (kt # kts) =
     (if in_inferior_list api g (pid kt)
      then register_threads api arch first_inferior (add_thread api g (ptid_build kt)) kts
      else if first_inferior
      then register_threads api arch False
             (add_thread api (inferior_appeared api g (new_inferior arch True kt)) (ptid_build kt)) kts
      else register_threads api arch False
             (add_thread api (add_inferior api g (new_inferior arch False kt)) (ptid_build kt)) kts)"

section \<open>Opening and closing\<close>

definition kgdb_trgt_close :: "'h trgt \<Rightarrow> 'h trgt" where
  "kgdb_trgt_close t =
     (if kvm t \<noteq> None then t\<lparr>inferior_ptid := None, kvm := None, vmcore := None\<rparr> else t)"

text \<open>\<open>unpush_target\<close> closes the target where it is on gdb's target stack.\<close>

definition core_filename :: "(c_string \<Rightarrow> c_string) \<Rightarrow> c_string \<Rightarrow> c_string \<Rightarrow> c_string" where
  "core_filename tilde_expand cwd f =
     (let f = tilde_expand f in
      case f of CHR ''/'' # _ \<Rightarrow> f | _ \<Rightarrow> cwd @ ''/'' @ f)"

text \<open>Once the dump is open: empty gdb's thread table, list the dump's threads, register them and make
  the current one gdb's.\<close>

definition trgt_threads ::
  "nat \<Rightarrow> dump \<Rightarrow> addr \<Rightarrow> 'g gdb_api \<Rightarrow> string \<Rightarrow> 'h trgt \<times> 'g \<Rightarrow> trgt_error + 'h trgt \<times> 'g"
where
  "trgt_threads fuel d gd_off api arch tg =
     (case tg of (t, g) \<Rightarrow>
        (let g = init_thread_list api g in
         case lift_kt (kgdb_thr_init fuel d gd_off (threads t)) of
           Inl e \<Rightarrow> Inl e
         | Inr ks \<Rightarrow>
             (let t = t\<lparr>threads := ks\<rparr>;
                  g = register_threads api arch True g (kgdb_thr_first ks)
              in case curkthr ks of
                   Null \<Rightarrow> Inr (t, g)
                 | Thr kt \<Rightarrow> Inr (t\<lparr>inferior_ptid := Some (ptid_build kt)\<rparr>, g)
                 | Freed \<Rightarrow> Inl Use_after_free)))"

text \<open>\<open>kgdb_dmesg\<close>, called before the threads are listed, only prints (\<^verbatim>\<open>Kgdb_Main\<close> has it).\<close>

definition kgdb_trgt_open ::
  "(c_string \<Rightarrow> c_string) \<Rightarrow> c_string \<Rightarrow> c_string option \<Rightarrow> (c_string \<Rightarrow> c_string \<Rightarrow> string + 'h) \<Rightarrow>
   (('h trgt \<Rightarrow> 'h trgt) \<Rightarrow> 'h trgt \<Rightarrow> 'h trgt) \<Rightarrow> ('h \<Rightarrow> dump) \<Rightarrow> nat \<Rightarrow> addr \<Rightarrow> 'g gdb_api \<Rightarrow> string \<Rightarrow>
   c_string option \<Rightarrow> 'h trgt \<times> 'g \<Rightarrow> trgt_error + 'h trgt \<times> 'g"
where
  "kgdb_trgt_open tilde_expand cwd exec_bfd kvm_openfiles unpush dump_of fuel gd_off api arch filename tg =
     (case tg of (t, g) \<Rightarrow>
        (case filename of
           None \<Rightarrow> Inl (Gdb_error ''No vmcore file specified.'')
         | Some f \<Rightarrow>
             (case exec_bfd of
                None \<Rightarrow> Inl (Gdb_error ''Can't open a vmcore without a kernel'')
              | Some kern \<Rightarrow>
                  (let f = core_filename tilde_expand cwd f in
                   case kvm_openfiles kern f of
                     Inl e \<Rightarrow> Inl (Gdb_error (''Failed to open vmcore: '' @ e))
                   | Inr h \<Rightarrow>
                       (let t = unpush kgdb_trgt_close t;
                            t = t\<lparr>kvm := Some h, vmcore := Some f, pushed := True\<rparr>
                        in case trgt_threads fuel (dump_of h) gd_off api arch (t, g) of
                             Inl e \<Rightarrow> Inl e
                           | Inr (t, g) \<Rightarrow>
                               Inr (t\<lparr>unwinders := unwinders t + 1, kld_ops := True\<rparr>, g))))))"

definition kgdb_trgt_detach ::
  "(('h trgt \<Rightarrow> 'h trgt) \<Rightarrow> 'h trgt \<Rightarrow> 'h trgt) \<Rightarrow> c_string option \<Rightarrow> 'h trgt \<Rightarrow> trgt_error + 'h trgt"
where
  "kgdb_trgt_detach unpush args t =
     (if args \<noteq> None then Inl (Gdb_error ''Too many arguments'') else Inr (unpush kgdb_trgt_close t))"

definition kgdb_trgt_find_new_threads :: "('h trgt \<Rightarrow> 'h trgt) option \<Rightarrow> 'h trgt \<Rightarrow> 'h trgt" where
  "kgdb_trgt_find_new_threads beneath t =
     (if kvm t \<noteq> None then t else (case beneath of None \<Rightarrow> t | Some f \<Rightarrow> f t))"

definition kgdb_trgt_thread_alive :: "'h trgt \<Rightarrow> ptid \<Rightarrow> bool" where
  "kgdb_trgt_thread_alive t p =
     (case p of (_, _, ti) \<Rightarrow> kgdb_thr_lookup_tid (threads t) ti \<noteq> None)"

text \<open>Reading and writing the target's memory: the dump's, where one is open, else whatever the target
  beneath does.\<close>

datatype transfer = Transferred int | Kvm_write | Kvm_read | Beneath

definition kgdb_trgt_xfer_partial :: "'h trgt \<Rightarrow> bool \<Rightarrow> bool \<Rightarrow> int \<Rightarrow> transfer" where
  "kgdb_trgt_xfer_partial t readbuf writebuf len =
     (if kvm t \<noteq> None then
        (if len = 0 then Transferred 0
         else if writebuf then Kvm_write
         else if readbuf then Kvm_read
         else Beneath)
      else Beneath)"

section \<open>The commands proc and tid\<close>

text \<open>\<open>char buf[16]; snprintf(buf, sizeof(buf), "%lu", thread_id)\<close>.\<close>

definition tid_text :: "addr \<Rightarrow> c_string" where
  "tid_text ti = take 15 (show_nat (unat ti))"

definition kgdb_switch_to_thread ::
  "(c_string \<Rightarrow> 'h trgt \<Rightarrow> string + 'h trgt) \<Rightarrow> kthr \<Rightarrow> 'h trgt \<Rightarrow> trgt_error + 'h trgt"
where
  "kgdb_switch_to_thread gdb_thread_select thr t =
     (if tid thr = 0 then Inl (Gdb_error ''invalid tid'')
      else (case gdb_thread_select (tid_text (tid thr)) t of
              Inl e \<Rightarrow> Inl (Gdb_error e)
            | Inr t \<Rightarrow> Inr t))"

definition kgdb_set_proc_cmd ::
  "addr option \<Rightarrow> addr \<Rightarrow> (c_string \<Rightarrow> string + addr) \<Rightarrow> (c_string \<Rightarrow> 'h trgt \<Rightarrow> string + 'h trgt) \<Rightarrow>
   c_string option \<Rightarrow> 'h trgt \<Rightarrow> trgt_error + 'h trgt"
where
  "kgdb_set_proc_cmd symbol KERNBASE parse_and_eval gdb_thread_select arg t =
     (case arg of
        None \<Rightarrow> Inl (Gdb_error ''proc address for the new context'')
      | Some a \<Rightarrow>
          if kvm t = None then Inl (Gdb_error ''only supported for core file target'')
          else (case parse_and_eval a of
                  Inl e \<Rightarrow> Inl (Gdb_error e)
                | Inr x \<Rightarrow>
                    (case kgdb_kernbase symbol KERNBASE t of
                       (kernoff, t) \<Rightarrow>
                         if \<not> kernoff \<le> x then
                           (case kgdb_thr_lookup_pid (threads t) (sint (ucast x :: 32 word)) of
                              None \<Rightarrow> Inl (Gdb_error ''invalid pid'')
                            | Some thr \<Rightarrow> kgdb_switch_to_thread gdb_thread_select thr t)
                         else
                           (case kgdb_thr_lookup_paddr (threads t) x of
                              None \<Rightarrow> Inl (Gdb_error ''invalid proc address'')
                            | Some thr \<Rightarrow> kgdb_switch_to_thread gdb_thread_select thr t))))"

definition kgdb_set_tid_cmd ::
  "(c_string \<Rightarrow> string + addr) \<Rightarrow> (c_string \<Rightarrow> 'h trgt \<Rightarrow> string + 'h trgt) \<Rightarrow>
   c_string option \<Rightarrow> 'h trgt \<Rightarrow> trgt_error + 'h trgt"
where
  "kgdb_set_tid_cmd parse_and_eval gdb_thread_select arg t =
     (case arg of
        None \<Rightarrow> Inl (Gdb_error ''Thread address for the new context'')
      | Some a \<Rightarrow>
          (case parse_and_eval a of
             Inl e \<Rightarrow> Inl (Gdb_error e)
           | Inr x \<Rightarrow>
               (case kgdb_thr_lookup_taddr (threads t) x of
                  None \<Rightarrow> Inl (Gdb_error ''invalid thread address'')
                | Some thr \<Rightarrow> kgdb_switch_to_thread gdb_thread_select thr t)))"

section \<open>Registers\<close>

text \<open>gdb's numbers of the amd64 registers.\<close>

record amd64_regnums =
  AMD64_RAX :: int
  AMD64_RBX :: int
  AMD64_RBP :: int
  AMD64_RSP :: int
  AMD64_R8 :: int
  AMD64_R15 :: int
  AMD64_RIP :: int
  AMD64_EFLAGS :: int

text \<open>What \<open>kvm_read\<close> finds in the stack and in a \<open>struct pcb\<close>.\<close>

record pcb_rec =
  pcb_rbx :: addr
  pcb_rbp :: addr
  pcb_rsp :: addr
  pcb_r12 :: addr
  pcb_r13 :: addr
  pcb_r14 :: addr
  pcb_r15 :: addr
  pcb_rip :: addr

definition zero_pcb :: pcb_rec where
  "zero_pcb = \<lparr>pcb_rbx = 0, pcb_rbp = 0, pcb_rsp = 0, pcb_r12 = 0, pcb_r13 = 0, pcb_r14 = 0,
               pcb_r15 = 0, pcb_rip = 0\<rparr>"

text \<open>The registers supplied, in order, each with its value (\<open>None\<close>: not available).  \<open>rd_words a n\<close>
  reads \<open>n\<close> words, \<open>td_sp\<close> is the offset of the saved stack pointer in \<open>struct thread\<close>.\<close>

definition kgdb_trgt_fetch_registers ::
  "amd64_regnums \<Rightarrow> dump \<Rightarrow> (addr \<Rightarrow> nat \<Rightarrow> addr list option) \<Rightarrow> (addr \<Rightarrow> pcb_rec option) \<Rightarrow> addr \<Rightarrow>
   kt_state \<Rightarrow> addr \<Rightarrow> int \<Rightarrow> trgt_error + (int \<times> addr option) list"
where
  "kgdb_trgt_fetch_registers R d rd_words rd_pcb td_sp s ti regno =
     (case kgdb_thr_lookup_tid s ti of
        None \<Rightarrow> Inr [(regno, None)]
      | Some kt \<Rightarrow>
          if pcb kt = 0 then
            (case rd_ptr d (kaddr kt + td_sp) of
               None \<Rightarrow> Inl (Kthr_error (Indeterminate ''sp''))
             | Some sp \<Rightarrow>
                 (let regs = (case rd_words (sp + 2 * 8) 7 of None \<Rightarrow> replicate 7 0 | Some ws \<Rightarrow> ws)
                  in Inr [(AMD64_R8 R + 7, Some (regs ! 0)), (AMD64_R8 R + 6, Some (regs ! 1)),
                          (AMD64_R8 R + 5, Some (regs ! 2)), (AMD64_R8 R + 4, Some (regs ! 3)),
                          (AMD64_RBX R, Some (regs ! 4)), (AMD64_RBP R, Some (regs ! 5)),
                          (AMD64_RIP R, Some (regs ! 6)), (AMD64_RSP R, Some (sp + 9 * 8))]))
          else
            (let p = (case rd_pcb (pcb kt) of None \<Rightarrow> zero_pcb | Some p \<Rightarrow> p)
             in Inr [(AMD64_RBX R, Some (pcb_rbx p)), (AMD64_RBP R, Some (pcb_rbp p)),
                     (AMD64_RSP R, Some (pcb_rsp p)), (AMD64_R8 R + 4, Some (pcb_r12 p)),
                     (AMD64_R8 R + 5, Some (pcb_r13 p)), (AMD64_R8 R + 6, Some (pcb_r14 p)),
                     (AMD64_R15 R, Some (pcb_r15 p)), (AMD64_RIP R, Some (pcb_rip p))]))"

section \<open>Unwinding a trap frame\<close>

datatype frame_type = FT_NORMAL | FT_INTRFRAME | FT_TIMERFRAME | FT_CALLTRAP

record kgdb_frame_cache =
  frame_type :: frame_type
  fc_pc :: addr
  fc_sp :: addr

text \<open>The fields of \<open>struct trapframe\<close> that the table names; their offsets are the system's.\<close>

datatype tf_field =
    tf_rax | tf_rbx | tf_rcx | tf_rdx | tf_rsi | tf_rdi | tf_rbp | tf_rsp | tf_r8 | tf_r9
  | tf_r10 | tf_r11 | tf_r12 | tf_r13 | tf_r14 | tf_r15 | tf_rip | tf_rflags | tf_cs | tf_ss

definition kgdb_trgt_frame_offset :: "tf_field list" where
  "kgdb_trgt_frame_offset =
     [tf_rax, tf_rbx, tf_rcx, tf_rdx, tf_rsi, tf_rdi, tf_rbp, tf_rsp, tf_r8, tf_r9,
      tf_r10, tf_r11, tf_r12, tf_r13, tf_r14, tf_r15, tf_rip, tf_rflags, tf_cs, tf_ss]"

text \<open>The frame's pc and stack pointer, and \<open>find_pc_partial_function\<close>, which sets the name to \<open>NULL\<close>
  when it finds none.\<close>

definition kgdb_trgt_frame_cache ::
  "(addr \<Rightarrow> c_string option) \<Rightarrow> addr \<Rightarrow> addr \<Rightarrow> kgdb_frame_cache option \<Rightarrow> trgt_error + kgdb_frame_cache"
where
  "kgdb_trgt_frame_cache find_name frame_pc frame_sp cache =
     (case cache of
        Some c \<Rightarrow> Inr c
      | None \<Rightarrow>
          (case find_name frame_pc of
             None \<Rightarrow> Inl Null_deref
           | Some pname \<Rightarrow>
               Inr \<lparr>frame_type =
                      (if strcmp pname ''calltrap'' = 0 then FT_CALLTRAP
                       else if \<not> has_prefix ''X'' pname then FT_NORMAL
                       else if strcmp pname ''Xtimerint'' = 0 then FT_TIMERFRAME
                       else FT_INTRFRAME),
                    fc_pc = frame_pc, fc_sp = frame_sp\<rparr>))"

definition kgdb_trgt_trapframe_this_id ::
  "(addr \<Rightarrow> c_string option) \<Rightarrow> addr \<Rightarrow> addr \<Rightarrow> kgdb_frame_cache option \<Rightarrow>
   trgt_error + (addr \<times> addr) \<times> kgdb_frame_cache option"
where
  "kgdb_trgt_trapframe_this_id find_name frame_pc frame_sp this_cache =
     (case kgdb_trgt_frame_cache find_name frame_pc frame_sp this_cache of
        Inl e \<Rightarrow> Inl e
      | Inr c \<Rightarrow> Inr ((fc_sp c, fc_pc c), Some c))"

datatype unwound = Got_register int | Got_memory addr

definition kgdb_trgt_trapframe_prev_register ::
  "amd64_regnums \<Rightarrow> (tf_field \<Rightarrow> addr) \<Rightarrow> (addr \<Rightarrow> c_string option) \<Rightarrow> addr \<Rightarrow> addr \<Rightarrow> int \<Rightarrow>
   kgdb_frame_cache option \<Rightarrow> trgt_error + unwound \<times> kgdb_frame_cache option"
where
  "kgdb_trgt_trapframe_prev_register R tf_offset find_name frame_pc frame_sp regnum this_cache =
     (if regnum < AMD64_RAX R \<or> AMD64_EFLAGS R + 2 < regnum then Inr (Got_register regnum, this_cache)
      else (let ofs = tf_offset (kgdb_trgt_frame_offset ! nat regnum) in
        case kgdb_trgt_frame_cache find_name frame_pc frame_sp this_cache of
          Inl e \<Rightarrow> Inl e
        | Inr c \<Rightarrow>
            (let ofs = (case frame_type c of
                          FT_NORMAL \<Rightarrow> ofs
                        | FT_INTRFRAME \<Rightarrow> ofs + 8
                        | FT_TIMERFRAME \<Rightarrow> ofs
                        | FT_CALLTRAP \<Rightarrow> ofs + 0)
             in Inr (Got_memory (fc_sp c + ofs), Some c))))"

definition kgdb_trgt_trapframe_sniffer :: "(addr \<Rightarrow> c_string option) \<Rightarrow> addr \<Rightarrow> bool" where
  "kgdb_trgt_trapframe_sniffer find_name frame_pc =
     (case find_name frame_pc of
        None \<Rightarrow> False
      | Some pname \<Rightarrow>
          strcmp pname ''calltrap'' = 0 \<or> strcmp pname ''dblfault_handler'' = 0 \<or>
          strcmp pname ''nmi_calltrap'' = 0 \<or> has_prefix ''X'' pname \<and> \<not> has_prefix ''X_'' pname)"


section \<open>The threads gdb gets to know\<close>

text \<open>What the table operations promise: \<open>pids\<close> are the inferiors' process ids (gdb itself starts with
  one inferior, whose id is 0), \<open>thrs\<close> the threads.  An only inferior is the current one.\<close>

definition api_ok :: "'g gdb_api \<Rightarrow> ('g \<Rightarrow> int list) \<Rightarrow> ('g \<Rightarrow> ptid list) \<Rightarrow> bool" where
  "api_ok api pids thrs \<longleftrightarrow>
     (\<forall>g p. in_inferior_list api g p \<longleftrightarrow> p \<in> set (pids g)) \<and>
     (\<forall>g. thrs (init_thread_list api g) = []) \<and>
     (\<forall>g. pids (init_thread_list api g) = pids g) \<and>
     (\<forall>g i. length (pids g) \<le> 1 \<longrightarrow> pids (inferior_appeared api g i) = [inf_pid i]) \<and>
     (\<forall>g i. pids (add_inferior api g i) = pids g @ [inf_pid i]) \<and>
     (\<forall>g t. pids (add_thread api g t) = pids g) \<and>
     (\<forall>g t. thrs (add_thread api g t) = thrs g @ [t]) \<and>
     (\<forall>g i. thrs (inferior_appeared api g i) = thrs g) \<and>
     (\<forall>g i. thrs (add_inferior api g i) = thrs g)"

lemma api_okD:
  assumes "api_ok api pids thrs"
  shows "in_inferior_list api g p \<longleftrightarrow> p \<in> set (pids g)"
    and "thrs (init_thread_list api g) = []"
    and "pids (init_thread_list api g) = pids g"
    and "length (pids g) \<le> 1 \<Longrightarrow> pids (inferior_appeared api g i) = [inf_pid i]"
    and "pids (add_inferior api g i) = pids g @ [inf_pid i]"
    and "pids (add_thread api g t) = pids g"
    and "thrs (add_thread api g t) = thrs g @ [t]"
    and "thrs (inferior_appeared api g i) = thrs g"
    and "thrs (add_inferior api g i) = thrs g"
  using assms unfolding api_ok_def by blast+

lemma register_threads_pids:
  assumes "api_ok api pids thrs" and "fi \<longrightarrow> pids g = [] \<or> pids g = [0] \<and> 0 \<notin> pid ` set kts"
    and "distinct (pids g)"
  shows "thrs (register_threads api arch fi g kts) = thrs g @ map ptid_build kts"
    and "distinct (pids (register_threads api arch fi g kts))"
    and "set (pids (register_threads api arch fi g kts)) =
           (if fi \<and> kts \<noteq> [] then {} else set (pids g)) \<union> pid ` set kts"
  using assms(2,3)
proof (induction kts arbitrary: fi g)
  case (Cons kt kts)
  note api = api_okD [OF assms(1)]
  {
    case 1
    then show ?case
      using Cons.IH(1) by (cases fi) (auto simp: api new_inferior_def)
  next
    case 2
    then show ?case
      using Cons.IH(2) by (cases fi) (auto simp: api new_inferior_def)
  next
    case 3
    then show ?case
      using Cons.IH(3) by (cases fi) (auto simp: api new_inferior_def)
  }
qed simp_all

lemma ptid_build_entry: "ptid_build (thread_entry d t dpcb a) =
   (pid (thread_entry d t dpcb a), lwpid (thread_entry d t dpcb a), a)"
  by (simp add: ptid_build_def)

text \<open>C7: opening a dump while gdb knows no process yet (there is no inferior, or only gdb's own with
  id 0 and no thread of the dump has that id): with a kernel, a file that opens and an image whose
  threads can be listed, gdb's thread table, whatever threads it held before, is emptied
  (\<open>init_thread_list\<close>) and gets the ids of all threads of all CPUs, last one first, and no others; each
  process becomes one inferior, and the selected thread is the one that took the dump.\<close>

theorem kgdb_trgt_open_correct:
  assumes "kvm_openfiles kern (core_filename tilde_expand cwd f) = Inr h"
    and "api_ok api pids thrs" 
    and "kgdb_lookup (dump_of h) ''_ncpus'' \<noteq> 0"
    and "rd_int (dump_of h) (kgdb_lookup (dump_of h) ''_ncpus'') = Some (int (length css))"
    and "kgdb_lookup (dump_of h) ''_dumppcb'' \<noteq> 0"
    and "kgdb_lookup (dump_of h) ''_CPU_prvspace'' \<noteq> 0"
    and "find_dumptid (dump_of h) gd_off (kgdb_lookup (dump_of h) ''_CPU_prvspace'')
           (dumptid (threads (unpush kgdb_trgt_close t))) = Inr ti"
    and "\<forall>i<length css. cpu_chain (dump_of h) gd_off
           (kgdb_lookup (dump_of h) ''_CPU_prvspace'') i (css ! i)"
    and "\<forall>as\<in>set css. length as \<le> fuel \<and> (\<forall>x\<in>set as. readable (dump_of h) x)"
    and "ti \<in> set (concat css)"
    and "pids g = [] \<or> pids g = [0] \<and>
           (\<forall>x\<in>set (concat css).
              pid (thread_entry (dump_of h) ti (kgdb_lookup (dump_of h) ''_dumppcb'') x) \<noteq> 0)"
  shows "\<exists>t' g' kts. kgdb_trgt_open tilde_expand cwd (Some kern) kvm_openfiles unpush dump_of fuel gd_off
             api arch (Some f) (t, g) = Inr (t', g') \<and>
           kvm t' = Some h \<and>
           kts = rev (map (thread_entry (dump_of h) ti (kgdb_lookup (dump_of h) ''_dumppcb''))
                        (concat css)) \<and>
           thrs g' = map ptid_build kts \<and> distinct (pids g') \<and> set (pids g') = pid ` set kts \<and>
           inferior_ptid t' =
             Some (ptid_build (thread_entry (dump_of h) ti (kgdb_lookup (dump_of h) ''_dumppcb'') ti))"
proof -
  define t1 where "t1 = (unpush kgdb_trgt_close t)\<lparr>kvm := Some h,
    vmcore := Some (core_filename tilde_expand cwd f), pushed := True\<rparr>"
  have dt: "dumptid (threads (unpush kgdb_trgt_close t)) = dumptid (threads t1)"
    by (simp add: t1_def)
  obtain s' where s': "kgdb_thr_init fuel (dump_of h) gd_off (threads t1) = Inr s'"
    "first s' = rev (map (thread_entry (dump_of h) ti (kgdb_lookup (dump_of h) ''_dumppcb'')) (concat css))"
    "curkthr s' = Thr (thread_entry (dump_of h) ti (kgdb_lookup (dump_of h) ''_dumppcb'') ti)"
    using kgdb_thr_init_ok [OF assms(3-6) assms(7) [unfolded dt] assms(8,9)] assms(10) by blast
  have "kgdb_trgt_open tilde_expand cwd (Some kern) kvm_openfiles unpush dump_of fuel gd_off
          api arch (Some f) (t, g) =
        (case trgt_threads fuel (dump_of h) gd_off api arch (t1, g) of
           Inl e \<Rightarrow> Inl e
         | Inr (t, g) \<Rightarrow> Inr (t\<lparr>unwinders := unwinders t + 1, kld_ops := True\<rparr>, g))"
    using assms(1) by (simp add: kgdb_trgt_open_def t1_def Let_def)
  moreover have "trgt_threads fuel (dump_of h) gd_off api arch (t1, g) =
      Inr (t1\<lparr>threads := s', inferior_ptid :=
             Some (ptid_build (thread_entry (dump_of h) ti (kgdb_lookup (dump_of h) ''_dumppcb'') ti))\<rparr>,
           register_threads api arch True (init_thread_list api g) (first s'))"
    using s' by (simp add: trgt_threads_def lift_kt_def kgdb_thr_first_def Let_def)
  moreover have "kvm t1 = Some h" by (simp add: t1_def)
  moreover {
    have "pids g = [] \<or> pids g = [0] \<and> 0 \<notin> pid ` set (first s')" "first s' \<noteq> []"
      using assms(10,11) s'(2) by fastforce+
    then have "thrs (register_threads api arch True (init_thread_list api g) (first s')) =
        map ptid_build (first s')"
      and "distinct (pids (register_threads api arch True (init_thread_list api g) (first s')))"
      and "set (pids (register_threads api arch True (init_thread_list api g) (first s'))) =
        pid ` set (first s')"
      using register_threads_pids [OF assms(2), of True "init_thread_list api g" "first s'" arch]
      by (auto simp: api_okD [OF assms(2)])
  }
  ultimately show ?thesis using s'(2) by simp
qed

text \<open>gdb's tables as two lists.\<close>

definition list_api :: "(int list \<times> ptid list) gdb_api" where
  "list_api =
     \<lparr>init_thread_list = (\<lambda>(ps, ts). (ps, [])),
      in_inferior_list = (\<lambda>(ps, ts) p. p \<in> set ps),
      inferior_appeared = (\<lambda>(ps, ts) i. (inf_pid i # drop 1 ps, ts)),
      add_inferior = (\<lambda>(ps, ts) i. (ps @ [inf_pid i], ts)),
      add_thread = (\<lambda>(ps, ts) t. (ps, ts @ [t]))\<rparr>"

definition closed_trgt :: "unit trgt" where
  "closed_trgt = \<lparr>kvm = None, vmcore = None, kernbase = 0, threads = sample_state,
     inferior_ptid = None, pushed = False, kld_ops = False, unwinders = 0\<rparr>"

lemma kgdb_trgt_open_correct_witness:
  "\<exists>t' g'. kgdb_trgt_open id ''/root'' (Some ''kernel'') (\<lambda>_ _. Inr ()) id (\<lambda>_. sample_dump) 2 100
      list_api ''i386:x86-64'' (Some ''vmcore.0'') (closed_trgt, [0], [(5, None, 9)]) = Inr (t', g') \<and>
    snd g' = [(- 2, None, 3000), (77, Some 1, 2000)] \<and> set (fst g') = {- 2, 77} \<and> inferior_ptid t' = Some (- 2, None, 3000)"
proof -
  have "api_ok list_api fst snd"
    by (auto simp: api_ok_def list_api_def le_Suc_eq length_Suc_conv)
  then show ?thesis
    using kgdb_trgt_open_correct [of "\<lambda>_ _. Inr ()" "''kernel''" id "''/root''" "''vmcore.0''" "()"
        list_api fst snd "\<lambda>_. sample_dump" "[[2000, 3000]]" 100 id closed_trgt 3000 2
        "([0], [(5, None, 9)])" "''i386:x86-64''"]
    by (fastforce simp: sample_dump_def closed_trgt_def sample_state_def kgdb_lookup_def find_dumptid_def
        cpu_chain_def readable_def Let_def thread_entry_def ptid_build_def kgdb_trgt_close_def)
qed

text \<open>A second dump that cannot be listed: when an earlier dump left a current thread and the new
  image has no \<open>_ncpus\<close>, the open goes on with the pointer to the freed thread.\<close>

theorem kgdb_trgt_open_dangling:
  assumes "kvm_openfiles kern (core_filename tilde_expand cwd f) = Inr h"
    and "curkthr (threads (unpush kgdb_trgt_close t)) = Thr kt"
    and "kgdb_lookup (dump_of h) ''_ncpus'' = 0"
  shows "kgdb_trgt_open tilde_expand cwd (Some kern) kvm_openfiles unpush dump_of fuel gd_off
           api arch (Some f) (t, g) = Inl Use_after_free"
  using assms
  by (simp add: kgdb_trgt_open_def trgt_threads_def lift_kt_def kgdb_thr_init_def free_threads_def Let_def)

lemma kgdb_trgt_open_dangling_witness:
  "kgdb_trgt_open id ''/root'' (Some ''kernel'') (\<lambda>_ _. Inr ()) (\<lambda>f. f)
     (\<lambda>_. sample_dump\<lparr>nlist := (\<lambda>_. None)\<rparr>) 2 100 list_api ''i386:x86-64'' (Some ''vmcore.1'')
     (closed_trgt\<lparr>threads := sample_state\<lparr>first := [sample_kthr], curkthr := Thr sample_kthr\<rparr>\<rparr>, [], [])
   = Inl Use_after_free"
  by (rule kgdb_trgt_open_dangling [where kt = sample_kthr])
    (simp_all add: closed_trgt_def kgdb_trgt_close_def kgdb_lookup_def)

text \<open>The text of a thread's address that \<open>kgdb_switch_to_thread\<close> hands to \<open>gdb_thread_select\<close> is its
  decimal representation exactly when the address has at most 15 digits; a kernel address of a 64-bit
  system has 20.\<close>

theorem tid_text_complete: "tid_text ti = show_nat (unat ti) \<longleftrightarrow> unat ti < 10 ^ 15"
proof -
  have "take 15 xs = xs \<longleftrightarrow> length xs \<le> 15" for xs :: string by (metis length_take min_def take_all_iff)
  then show ?thesis using length_show_nat_iff [of 15 "unat ti"] by (simp add: tid_text_def)
qed

text \<open>Unwinding a trap frame: for every frame that the sniffer takes and every register of the
  trap frame, the table has an entry and the register is looked up at that field's offset from the
  stack pointer, one word further for an interrupt entry point other than the timer's; a cache from an
  earlier query of the frame gives the same answer.\<close>

theorem prev_register_correct:
  assumes "AMD64_RAX R = 0" and "AMD64_EFLAGS R = 17" and "0 \<le> regnum" and "regnum \<le> 19"
    and "kgdb_trgt_trapframe_sniffer find_name pc" and "find_name pc = Some name"
  shows "nat regnum < length kgdb_trgt_frame_offset \<and>
    (\<exists>c. kgdb_trgt_trapframe_prev_register R tf_offset find_name pc sp regnum None =
       Inr (Got_memory (sp + tf_offset (kgdb_trgt_frame_offset ! nat regnum) +
              (if has_prefix ''X'' name \<and> name \<noteq> ''Xtimerint'' then 8 else 0)), Some c) \<and>
     kgdb_trgt_trapframe_prev_register R tf_offset find_name pc sp regnum (Some c) =
     kgdb_trgt_trapframe_prev_register R tf_offset find_name pc sp regnum None)"
proof -
  have "has_prefix ''X'' name \<Longrightarrow> name \<noteq> ''calltrap''" by (auto simp: has_prefix_def)
  then show ?thesis
    using assms
    by (auto simp: kgdb_trgt_trapframe_prev_register_def kgdb_trgt_frame_cache_def Let_def
        strcmp_eq_0_iff add.assoc kgdb_trgt_frame_offset_def)
qed

definition gdb_regnums :: amd64_regnums where
  "gdb_regnums = \<lparr>AMD64_RAX = 0, AMD64_RBX = 1, AMD64_RBP = 6, AMD64_RSP = 7, AMD64_R8 = 8,
     AMD64_R15 = 15, AMD64_RIP = 16, AMD64_EFLAGS = 17\<rparr>"

lemma prev_register_correct_witness:
  "\<exists>c. kgdb_trgt_trapframe_prev_register gdb_regnums (\<lambda>f. if f = tf_rip then 128 else 0)
      (\<lambda>_. Some ''Xfpu'') 5 1000 16 None = Inr (Got_memory 1136, Some c)"
  using prev_register_correct [of gdb_regnums 16 "\<lambda>_. Some ''Xfpu''" 5 "''Xfpu''"
      "\<lambda>f. if f = tf_rip then 128 else 0" 1000]
  by (auto simp: gdb_regnums_def kgdb_trgt_trapframe_sniffer_def has_prefix_def kgdb_trgt_frame_offset_def)

end
