(* ===== verification/Kgdb_Klds.thy ===== *)
theory Kgdb_Klds
  imports Kgdb_Threads
begin

text \<open>
  \<^verbatim>\<open>kgdb/kld.c\<close>: finding the kernel's loadable modules, on disk and in the kernel's memory, and
  placing their sections.

  The debugged kernel's memory, the file system's regular files and gdb's expression evaluator are
  arguments.  \<open>PATH_MAX\<close> is 1024.
\<close>

datatype kld_error = Kld_error string | Kld_endless | Kld_null

section \<open>The C library's path functions\<close>

definition strip_slashes :: "c_string \<Rightarrow> c_string" where
  "strip_slashes s = rev (dropWhile (\<lambda>c. c = CHR ''/'') (rev s))"

definition limited :: "c_string \<Rightarrow> c_string option" where
  "limited s = (if length s < PATH_MAX then Some s else None)"

definition basename :: "c_string \<Rightarrow> c_string option" where
  "basename s =
     (if s = [] then Some ''.''
      else if strip_slashes s = [] then Some ''/''
      else limited (rev (takeWhile (\<lambda>c. c \<noteq> CHR ''/'') (rev (strip_slashes s)))))"

definition dirname :: "c_string \<Rightarrow> c_string option" where
  "dirname s =
     (if s = [] then Some ''.''
      else if strip_slashes s = [] then Some ''/''
      else (let u = rev (dropWhile (\<lambda>c. c \<noteq> CHR ''/'') (rev (strip_slashes s))) in
        if u = [] then Some ''.''
        else if strip_slashes u = [] then Some ''/''
        else limited (strip_slashes u)))"

section \<open>Finding the file\<close>

text \<open>\<open>regular\<close> says which paths name regular files.  A search returns whether it found one and what
  it left in \<open>path\<close>.\<close>

definition kld_ok :: "(c_string \<Rightarrow> bool) \<Rightarrow> c_string \<Rightarrow> bool" where
  "kld_ok regular path = regular path"

definition kld_suffixes :: "c_string list" where
  "kld_suffixes = [''.debug'', []]"

fun try_suffixes :: "(c_string \<Rightarrow> bool) \<Rightarrow> nat \<Rightarrow> c_string \<Rightarrow> c_string list \<Rightarrow> bool \<times> c_string" where
  "try_suffixes regular n path [] = (False, path)"
| "try_suffixes regular n path (suffix # rest) =
     (if length path + length suffix < n \<and> kld_ok regular (strlcat n path suffix)
      then (True, strlcat n path suffix)
      else try_suffixes regular n path rest)"

definition check_kld_path :: "(c_string \<Rightarrow> bool) \<Rightarrow> nat \<Rightarrow> c_string \<Rightarrow> bool \<times> c_string" where
  "check_kld_path regular n path = try_suffixes regular n path kld_suffixes"

definition join_path :: "nat \<Rightarrow> c_string \<Rightarrow> c_string \<Rightarrow> c_string" where
  "join_path n dir f = take (n - 1) (dir @ ''/'' @ f)"

text \<open>The loop over the module path; what is left of it gets shorter.\<close>

definition rest_length :: "c_string option \<Rightarrow> nat" where
  "rest_length cp = (case cp of None \<Rightarrow> 0 | Some s \<Rightarrow> Suc (length s))"

lemma strsep_shorter: "strsep c s = (t, r) \<Longrightarrow> rest_length r < rest_length (Some s)"
  by (rule strsep_cases [of c s]) (auto simp: rest_length_def)

function try_module_dirs ::
  "(c_string \<Rightarrow> bool) \<Rightarrow> nat \<Rightarrow> c_string \<Rightarrow> c_string option \<Rightarrow> c_string \<Rightarrow> bool \<times> c_string"
where
  "try_module_dirs regular n f None path = (False, path)"
| "try_module_dirs regular n f (Some cp) path =
     (case strsep (CHR '';'') cp of
        (module_dir, cp) \<Rightarrow>
          (case check_kld_path regular n (join_path n module_dir f) of
             (True, path) \<Rightarrow> (True, path)
           | (False, path) \<Rightarrow> try_module_dirs regular n f cp path))"
  by pat_completeness auto

termination
  by (relation "measure (\<lambda>(_, _, _, cp, _). rest_length cp)") (auto dest: strsep_shorter [OF sym])

declare try_module_dirs.simps(2) [simp del]

record target_mem =
  mem_read :: "addr \<Rightarrow> nat \<Rightarrow> 8 word list option"
  mem_uint :: "8 word list \<Rightarrow> addr"
  mem_str :: "addr \<Rightarrow> nat \<Rightarrow> c_string option"
  ptr_bytes :: nat

text \<open>The static variables: offsets of the fields of \<open>struct linker_file\<close> and kernel addresses.\<close>

record kld_state =
  off_address :: addr
  off_filename :: addr
  off_pathname :: addr
  off_next :: addr
  module_path_addr :: addr
  linker_files_addr :: addr
  kernel_file_addr :: addr

definition find_kld_path ::
  "(c_string \<Rightarrow> bool) \<Rightarrow> target_mem \<Rightarrow> c_string option \<Rightarrow> kld_state \<Rightarrow> c_string \<Rightarrow> nat \<Rightarrow> c_string \<Rightarrow>
   bool \<times> c_string"
where
  "find_kld_path regular m exec_bfd st f n path =
     (let r = (case exec_bfd of
                 None \<Rightarrow> (False, path)
               | Some kern \<Rightarrow>
                   (case dirname kern of
                      None \<Rightarrow> (False, path)
                    | Some kernel_dir \<Rightarrow> check_kld_path regular n (join_path n kernel_dir f)))
      in if fst r then r
         else if module_path_addr st \<noteq> 0 then
           (case mem_str m (module_path_addr st) PATH_MAX of
              None \<Rightarrow> r
            | Some module_path \<Rightarrow> try_module_dirs regular n f (Some module_path) (snd r))
         else r)"

section \<open>The kernel linker's list\<close>

definition read_pointer :: "target_mem \<Rightarrow> addr \<Rightarrow> addr" where
  "read_pointer m a =
     (case mem_read m a (ptr_bytes m) of None \<Rightarrow> 0 | Some bs \<Rightarrow> mem_uint m bs)"

text \<open>The loop over the linker files; one that does not end on a list that runs in a circle.  The
  result is the address found.\<close>

fun walk_linker_files ::
  "nat \<Rightarrow> target_mem \<Rightarrow> kld_state \<Rightarrow> c_string \<Rightarrow> addr \<Rightarrow> kld_error + addr option"
where
  "walk_linker_files fuel m st f kld =
     (if kld = 0 then Inr None
      else (case fuel of
              0 \<Rightarrow> Inl Kld_endless
            | Suc fuel \<Rightarrow>
                (if mem_str m (read_pointer m (kld + off_filename st)) PATH_MAX = Some f
                 then (let a = read_pointer m (kld + off_address st) in
                       Inr (if a = 0 then None else Some a))
                 else walk_linker_files fuel m st f (read_pointer m (kld + off_next st)))))"

declare walk_linker_files.simps [simp del]

definition find_kld_address ::
  "nat \<Rightarrow> target_mem \<Rightarrow> kld_state \<Rightarrow> c_string \<Rightarrow> kld_error + addr option"
where
  "find_kld_address fuel m st arg =
     (if linker_files_addr st = 0 \<or> off_address st = 0 \<or> off_filename st = 0 \<or> off_next st = 0
      then Inr None
      else (case basename arg of
              None \<Rightarrow> Inl Kld_null
            | Some f \<Rightarrow> walk_linker_files fuel m st f (read_pointer m (linker_files_addr st))))"

record so_list =
  so_original_name :: c_string
  so_name :: c_string
  base_address :: addr

text \<open>The body of the loop of \<open>kld_current_sos\<close> for one module: its entry, or none where its file name
  or its address cannot be read.  \<open>N\<close> is the size of the two name arrays.\<close>

definition so_entry :: "nat \<Rightarrow> target_mem \<Rightarrow> kld_state \<Rightarrow> addr \<Rightarrow> so_list option" where
  "so_entry N m st kld =
     (case mem_str m (read_pointer m (kld + off_filename st)) N of
        None \<Rightarrow> None
      | Some path \<Rightarrow>
          (let orig = take (N - 1) path;
               name = (if off_pathname st \<noteq> 0 then
                         (case mem_str m (read_pointer m (kld + off_pathname st)) N of
                            None \<Rightarrow> orig
                          | Some path \<Rightarrow> take (N - 1) path)
                       else orig);
               base = read_pointer m (kld + off_address st)
           in if base = 0 then None
              else Some \<lparr>so_original_name = orig, so_name = name, base_address = base\<rparr>))"

fun collect_sos ::
  "nat \<Rightarrow> nat \<Rightarrow> target_mem \<Rightarrow> kld_state \<Rightarrow> addr \<Rightarrow> addr \<Rightarrow> so_list list \<Rightarrow> kld_error + so_list list"
where
  "collect_sos fuel N m st kernel_file kld sos =
     (if kld = 0 then Inr sos
      else (case fuel of
              0 \<Rightarrow> Inl Kld_endless
            | Suc fuel \<Rightarrow>
                (let next_kld = read_pointer m (kld + off_next st) in
                 if kld = kernel_file then collect_sos fuel N m st kernel_file next_kld sos
                 else (case so_entry N m st kld of
                         None \<Rightarrow> collect_sos fuel N m st kernel_file next_kld sos
                       | Some so \<Rightarrow>
                           collect_sos fuel N m st kernel_file next_kld (sos @ [so])))))"

declare collect_sos.simps [simp del]

definition kld_current_sos :: "nat \<Rightarrow> nat \<Rightarrow> target_mem \<Rightarrow> kld_state \<Rightarrow> kld_error + so_list list" where
  "kld_current_sos fuel N m st =
     (if linker_files_addr st = 0 \<or> kernel_file_addr st = 0 \<or> off_address st = 0 \<or>
         off_filename st = 0 \<or> off_next st = 0
      then Inr []
      else collect_sos fuel N m st (read_pointer m (kernel_file_addr st))
             (read_pointer m (linker_files_addr st)) [])"

section \<open>Placing the sections\<close>

record target_section =
  sec_name :: string
  sec_align :: nat
  sec_size :: addr
  addr :: "64 word"
  endaddr :: "64 word"

text \<open>\<open>linked\<close>: the object is an executable or a shared object, whose sections have addresses already.
  \<open>align_power\<close> is BFD's macro.\<close>

definition adjust_section_address ::
  "(addr \<Rightarrow> nat \<Rightarrow> addr) \<Rightarrow> bool \<Rightarrow> target_section \<Rightarrow> addr \<Rightarrow> target_section \<times> addr"
where
  "adjust_section_address align_power linked sec curr_base =
     (if linked then (sec\<lparr>addr := addr sec + curr_base, endaddr := endaddr sec + curr_base\<rparr>, curr_base)
      else (let b = align_power curr_base (sec_align sec);
                sec = sec\<lparr>addr := b, endaddr := b + sec_size sec\<rparr>
            in (sec, endaddr sec)))"

fun adjust_sections ::
  "(addr \<Rightarrow> nat \<Rightarrow> addr) \<Rightarrow> bool \<Rightarrow> addr \<Rightarrow> target_section list \<Rightarrow> target_section list"
where
  "adjust_sections align_power linked base [] = []"
| "adjust_sections align_power linked base (s # ss) =
     (case adjust_section_address align_power linked s base of
        (s, base) \<Rightarrow> s # adjust_sections align_power linked base ss)"

text \<open>What BFD finds in the file: not an object, no text section, no section table, or the sections.\<close>

datatype object_file =
    Cannot_open | Not_object | No_text | No_sections | Object bool "target_section list"

definition load_kld ::
  "(addr \<Rightarrow> nat \<Rightarrow> addr) \<Rightarrow> (c_string \<Rightarrow> object_file) \<Rightarrow> bool \<Rightarrow> c_string \<Rightarrow> addr \<Rightarrow> bool \<Rightarrow>
   kld_error + (c_string \<times> target_section list)"
where
  "load_kld align_power bfd_open query path base_addr from_tty =
     (case bfd_open path of
        Cannot_open \<Rightarrow> Inl (Kld_error ''can't open'')
      | Not_object \<Rightarrow> Inl (Kld_error ''not an object file'')
      | No_text \<Rightarrow> Inl (Kld_error ''can't find text section'')
      | No_sections \<Rightarrow> Inl (Kld_error ''can't find file sections'')
      | Object linked secs \<Rightarrow>
          (let secs = adjust_sections align_power linked base_addr secs in
           if from_tty \<and> \<not> query then Inl (Kld_error ''Not confirmed.'')
           else Inr (path, secs)))"

definition kgdb_add_kld_cmd ::
  "nat \<Rightarrow> (c_string \<Rightarrow> bool) \<Rightarrow> target_mem \<Rightarrow> c_string option \<Rightarrow> kld_state \<Rightarrow> (addr \<Rightarrow> nat \<Rightarrow> addr) \<Rightarrow>
   (c_string \<Rightarrow> object_file) \<Rightarrow> bool \<Rightarrow> c_string option \<Rightarrow> bool \<Rightarrow>
   kld_error + (c_string \<times> target_section list)"
where
  "kgdb_add_kld_cmd fuel regular m exec_bfd st align_power bfd_open query arg from_tty =
     (if exec_bfd = None then Inl (Kld_error ''No kernel symbol file'')
      else (case arg of
              None \<Rightarrow> Inl Kld_null
            | Some arg \<Rightarrow>
                (let r = check_kld_path regular PATH_MAX (take (PATH_MAX - 1) arg);
                     r = (if fst r then r else find_kld_path regular m exec_bfd st arg PATH_MAX (snd r))
                 in if \<not> fst r then Inl (Kld_error ''Unable to locate kld'')
                    else (case find_kld_address fuel m st arg of
                            Inl e \<Rightarrow> Inl e
                          | Inr None \<Rightarrow> Inl (Kld_error ''Unable to find kld in kernel'')
                          | Inr (Some base_addr) \<Rightarrow>
                              load_kld align_power bfd_open query (snd r) base_addr from_tty))))"

text \<open>gdb relocates a shared object's sections one by one; \<open>curr_addr\<close> is the function's static variable
  and \<open>is_first\<close> says that \<open>sec == so->sections\<close>.\<close>

definition kld_relocate_section_addresses ::
  "(addr \<Rightarrow> nat \<Rightarrow> addr) \<Rightarrow> bool \<Rightarrow> so_list \<Rightarrow> bool \<Rightarrow> target_section \<Rightarrow> addr \<Rightarrow> target_section \<times> addr"
where
  "kld_relocate_section_addresses align_power linked so is_first sec curr_addr =
     adjust_section_address align_power linked sec (if is_first then base_address so else curr_addr)"

section \<open>Opening a module, and the symbols the reading rests on\<close>

definition kld_find_and_open_solib ::
  "(c_string \<Rightarrow> bool) \<Rightarrow> target_mem \<Rightarrow> c_string option \<Rightarrow> kld_state \<Rightarrow> (c_string \<Rightarrow> int) \<Rightarrow> c_string \<Rightarrow>
   int \<times> c_string option"
where
  "kld_find_and_open_solib regular m exec_bfd st os_open solib =
     (case find_kld_path regular m exec_bfd st solib PATH_MAX [] of
        (False, path) \<Rightarrow> (- 1, None)
      | (True, path) \<Rightarrow> (os_open path, if 0 \<le> os_open path then Some path else None))"

text \<open>\<open>parse\<close> is \<open>kgdb_parse\<close> and \<open>kgdb_parse_quiet\<close>, which differ in the warning only.\<close>

definition kld_new_objfile :: "bool \<Rightarrow> (c_string \<Rightarrow> addr) \<Rightarrow> kld_state \<Rightarrow> kld_state" where
  "kld_new_objfile have_partial_symbols parse st =
     (if \<not> have_partial_symbols then st
      else st\<lparr>off_address := parse ''&((struct linker_file *)0)->address'',
              off_filename := parse ''&((struct linker_file *)0)->filename'',
              off_pathname := parse ''&((struct linker_file *)0)->pathname'',
              off_next := parse ''&((struct linker_file *)0)->link.tqe_next'',
              module_path_addr := parse ''linker_path'',
              linker_files_addr := parse ''&linker_files.tqh_first'',
              kernel_file_addr := parse ''&linker_kernel_file''\<rparr>)"

section \<open>The search order\<close>

text \<open>The paths tried for one directory, and all of them.\<close>

definition dir_candidates :: "nat \<Rightarrow> c_string \<Rightarrow> c_string list" where
  "dir_candidates n p = (if length p + 6 < n then [p @ ''.debug'', p] else [p])"

definition module_dirs :: "target_mem \<Rightarrow> kld_state \<Rightarrow> c_string list" where
  "module_dirs m st =
     (if module_path_addr st = 0 then []
      else (case mem_str m (module_path_addr st) PATH_MAX of
              None \<Rightarrow> []
            | Some s \<Rightarrow> pieces (CHR '';'') s))"


definition kernel_dirs :: "c_string option \<Rightarrow> c_string list" where
  "kernel_dirs exec_bfd =
     (case exec_bfd of
        None \<Rightarrow> []
      | Some kern \<Rightarrow> (case dirname kern of None \<Rightarrow> [] | Some d \<Rightarrow> [d]))"

definition kld_candidates ::
  "target_mem \<Rightarrow> c_string option \<Rightarrow> kld_state \<Rightarrow> c_string \<Rightarrow> nat \<Rightarrow> c_string list"
where
  "kld_candidates m exec_bfd st f n =
     concat (map (\<lambda>d. dir_candidates n (join_path n d f)) (kernel_dirs exec_bfd @ module_dirs m st))"

lemma find_append:
  "List.find p (xs @ ys) = (case List.find p xs of None \<Rightarrow> List.find p ys | Some x \<Rightarrow> Some x)"
  by (induction xs) auto

lemma length_join_path: "0 < n \<Longrightarrow> length (join_path n d f) < n"
  by (simp add: join_path_def)

text \<open>What a search found, if it did.\<close>

definition found :: "bool \<times> c_string \<Rightarrow> c_string option" where
  "found r = (if fst r then Some (snd r) else None)"

lemma found_simps [simp]: "found (True, q) = Some q" "found (False, q) = None"
  by (simp_all add: found_def)

lemma found_SomeD: "found r = Some q \<Longrightarrow> r = (True, q)"
  by (cases r) (auto simp: found_def split: if_splits)

lemma found_NoneD: "found r = None \<Longrightarrow> r = (False, snd r)"
  by (cases r) (auto simp: found_def split: if_splits)

lemma check_kld_path_find:
  "length p < n \<Longrightarrow> found (check_kld_path regular n p) = List.find regular (dir_candidates n p)"
  by (auto simp: check_kld_path_def kld_suffixes_def kld_ok_def dir_candidates_def strlcat_def)

lemma try_module_dirs_step:
  "strsep (CHR '';'') cp = (d, r) \<Longrightarrow>
   found (try_module_dirs regular n f (Some cp) path) =
     (case found (check_kld_path regular n (join_path n d f)) of
        Some q \<Rightarrow> Some q
      | None \<Rightarrow> found (try_module_dirs regular n f r (snd (check_kld_path regular n (join_path n d f)))))"
  by (cases "check_kld_path regular n (join_path n d f)")
    (auto simp: try_module_dirs.simps(2) found_def split: bool.split)

lemma try_module_dirs_find:
  assumes "0 < n"
  shows "found (try_module_dirs regular n f (Some cp) path) =
     List.find regular (concat (map (\<lambda>d. dir_candidates n (join_path n d f)) (pieces (CHR '';'') cp)))"
proof (induction cp arbitrary: path rule: length_induct)
  case (1 cp)
  note check = check_kld_path_find [OF length_join_path [OF assms]]
  show ?case
  proof (cases rule: strsep_cases [of "CHR '';''" cp])
    case last
    then show ?thesis by (simp only: try_module_dirs_step check) (simp add: pieces_last split: option.split)
  next
    case (sep t r)
    then show ?thesis
      using 1 by (simp only: try_module_dirs_step check) (simp add: pieces_sep find_append split: option.split)
  qed
qed

lemma find_kld_path_find:
  assumes "0 < n"
  shows "found (find_kld_path regular m exec_bfd st f n path) =
     List.find regular (kld_candidates m exec_bfd st f n)"
proof -
  define r where "r = (case exec_bfd of
      None \<Rightarrow> (False, path)
    | Some kern \<Rightarrow>
        (case dirname kern of
           None \<Rightarrow> (False, path)
         | Some kernel_dir \<Rightarrow> check_kld_path regular n (join_path n kernel_dir f)))"
  have r: "found r = List.find regular
      (concat (map (\<lambda>d. dir_candidates n (join_path n d f)) (kernel_dirs exec_bfd)))"
    unfolding r_def kernel_dirs_def
    by (auto simp: check_kld_path_find [OF length_join_path [OF assms]] split: option.split)
  have "found (find_kld_path regular m exec_bfd st f n path) =
     (case found r of
        Some q \<Rightarrow> Some q
      | None \<Rightarrow> List.find regular
          (concat (map (\<lambda>d. dir_candidates n (join_path n d f)) (module_dirs m st))))"
    unfolding find_kld_path_def r_def [symmetric] Let_def
    by (cases r; cases "fst r")
      (auto simp: module_dirs_def try_module_dirs_find [OF assms] split: option.split)
  then show ?thesis
    by (simp add: r kld_candidates_def find_append)
qed

section \<open>The modules of the list\<close>

text \<open>The linker files on the list that starts at \<open>a\<close>.\<close>

fun linked_list :: "target_mem \<Rightarrow> kld_state \<Rightarrow> addr \<Rightarrow> addr list \<Rightarrow> bool" where
  "linked_list m st a [] \<longleftrightarrow> a = 0"
| "linked_list m st a (x # xs) \<longleftrightarrow>
     a = x \<and> a \<noteq> 0 \<and> linked_list m st (read_pointer m (a + off_next st)) xs"

definition kld_filename :: "target_mem \<Rightarrow> kld_state \<Rightarrow> addr \<Rightarrow> c_string option" where
  "kld_filename m st kld = mem_str m (read_pointer m (kld + off_filename st)) PATH_MAX"

definition nonzero :: "addr \<Rightarrow> addr option" where
  "nonzero a = (if a = 0 then None else Some a)"

lemma walk_linker_files_list:
  "linked_list m st a klds \<Longrightarrow> length klds \<le> fuel \<Longrightarrow>
   walk_linker_files fuel m st f a =
     Inr (Option.bind (List.find (\<lambda>k. kld_filename m st k = Some f) klds)
            (\<lambda>k. nonzero (read_pointer m (k + off_address st))))"
proof (induction klds arbitrary: a fuel)
  case Nil
  then show ?case by (simp add: walk_linker_files.simps [of fuel])
next
  case (Cons k klds)
  then obtain n where "fuel = Suc n" by (cases fuel) auto
  with Cons show ?case
    by (auto simp: walk_linker_files.simps [of "Suc n"] kld_filename_def nonzero_def Let_def)
qed

lemma collect_sos_list:
  "linked_list m st a klds \<Longrightarrow> length klds \<le> fuel \<Longrightarrow>
   collect_sos fuel N m st kernel_file a sos =
     Inr (sos @ List.map_filter (so_entry N m st) (filter (\<lambda>k. k \<noteq> kernel_file) klds))"
proof (induction klds arbitrary: a fuel sos)
  case Nil
  then show ?case by (simp add: collect_sos.simps [of fuel] List.map_filter_simps)
next
  case (Cons k klds)
  then obtain n where "fuel = Suc n" by (cases fuel) auto
  with Cons show ?case
    by (auto simp: collect_sos.simps [of "Suc n"] List.map_filter_simps Let_def split: option.split)
qed

section \<open>The sections' places\<close>

lemma length_adjust_sections [simp]: "length (adjust_sections al linked base ss) = length ss"
  by (induction ss arbitrary: base) (auto split: prod.split)

text \<open>\<open>align_power a n\<close> rounds \<open>a\<close> up to a multiple of \<open>2 ^ n\<close>, where that fits.\<close>

definition align_ok :: "(addr \<Rightarrow> nat \<Rightarrow> addr) \<Rightarrow> bool" where
  "align_ok al \<longleftrightarrow>
     (\<forall>a n. unat a + 2 ^ n \<le> 2 ^ 64 \<longrightarrow>
        unat a \<le> unat (al a n) \<and> unat (al a n) < unat a + 2 ^ n \<and> 2 ^ n dvd unat (al a n))"

text \<open>The room that the sections can take.\<close>

definition room :: "target_section list \<Rightarrow> nat" where
  "room ss = sum_list (map (\<lambda>s. unat (sec_size s) + 2 ^ sec_align s) ss)"

text \<open>Sections that lie one after the other from \<open>base\<close> on, each at a multiple of its alignment.\<close>

fun placed :: "nat \<Rightarrow> target_section list \<Rightarrow> bool" where
  "placed base [] \<longleftrightarrow> True"
| "placed base (s # ss) \<longleftrightarrow>
     base \<le> unat (addr s) \<and> 2 ^ sec_align s dvd unat (addr s) \<and>
     unat (endaddr s) = unat (addr s) + unat (sec_size s) \<and> placed (unat (endaddr s)) ss"

lemma adjust_sections_placed:
  assumes "align_ok al" and "unat base + room ss < 2 ^ 64"
  shows "placed (unat base) (adjust_sections al False base ss)"
  using assms(2)
proof (induction ss arbitrary: base)
  case (Cons s ss)
  let ?b = "al base (sec_align s)"
  have b: "unat base \<le> unat ?b" "unat ?b < unat base + 2 ^ sec_align s"
    "2 ^ sec_align s dvd unat ?b"
    using assms(1) Cons.prems by (auto simp: align_ok_def room_def)
  have e: "unat (?b + sec_size s) = unat ?b + unat (sec_size s)"
    using b Cons.prems by (simp add: room_def unat_word_ariths)
  have "placed (unat (?b + sec_size s)) (adjust_sections al False (?b + sec_size s) ss)"
    using Cons.prems b e by (intro Cons.IH) (simp add: room_def)
  then show ?case using b e by (simp add: adjust_section_address_def Let_def)
qed simp

text \<open>gdb's calls for the sections of one shared object, first to last.\<close>

fun relocate_rest ::
  "(addr \<Rightarrow> nat \<Rightarrow> addr) \<Rightarrow> bool \<Rightarrow> so_list \<Rightarrow> bool \<Rightarrow> target_section list \<Rightarrow> addr \<Rightarrow> target_section list"
where
  "relocate_rest al linked so is_first [] base = []"
| "relocate_rest al linked so is_first (s # ss) base =
     (case kld_relocate_section_addresses al linked so is_first s base of
        (s, base) \<Rightarrow> s # relocate_rest al linked so False ss base)"

lemma relocate_later: "relocate_rest al linked so False ss base = adjust_sections al linked base ss"
  by (induction ss arbitrary: base) (auto simp: kld_relocate_section_addresses_def split: prod.split)

lemma relocate_first:
  "relocate_rest al linked so True ss base = adjust_sections al linked (base_address so) ss"
  by (cases ss) (auto simp: kld_relocate_section_addresses_def relocate_later split: prod.split)

section \<open>Properties\<close>

text \<open>\<open>find_kld_path\<close> is a search through one list of candidates: the kernel's directory, then each
  directory of the kernel's module path, and in each of them the name with \<open>.debug\<close> (where it fits the
  buffer) before the name itself; it answers with the first candidate that is a regular file and fails
  exactly when there is none.\<close>

theorem find_kld_path_correct:
  assumes "0 < n"
  shows "found (find_kld_path regular m exec_bfd st f n path) =
     List.find regular (kld_candidates m exec_bfd st f n)"
  using assms by (rule find_kld_path_find)

definition sample_mem :: target_mem where
  "sample_mem =
     \<lparr>mem_read = (\<lambda>a n. map_of [(8, [16]), (24, [32]), (32, [0]), (17, [64]), (18, [80]), (33, [66]),
                              (34, [96]), (40, [0]), (56, [16])] a),
      mem_uint = (\<lambda>bs. case bs of [b] \<Rightarrow> ucast b | _ \<Rightarrow> 0),
      mem_str = (\<lambda>a n. map_of [(64, ''kernel''), (66, ''fs.ko''), (48, ''/boot;/mods'')] a),
      ptr_bytes = 1\<rparr>"

definition sample_klds :: kld_state where
  "sample_klds =
     \<lparr>off_address = 2, off_filename = 1, off_pathname = 0, off_next = 8, module_path_addr = 48,
      linker_files_addr = 8, kernel_file_addr = 56\<rparr>"

lemma find_kld_path_correct_witness:
  "found (find_kld_path (\<lambda>p. p = ''/mods/fs.ko'') sample_mem (Some ''/k/kernel'') sample_klds ''fs.ko'' 64 [])
     = Some ''/mods/fs.ko''"
  using find_kld_path_correct [of 64 "\<lambda>p. p = ''/mods/fs.ko''" sample_mem "Some ''/k/kernel''"
      sample_klds "''fs.ko''" "[]"]
  by (simp add: kld_candidates_def kernel_dirs_def module_dirs_def sample_mem_def sample_klds_def
      dir_candidates_def join_path_def dirname_def strip_slashes_def limited_def PATH_MAX_def Let_def)

text \<open>On a linker list that ends, \<open>find_kld_address\<close> answers with the address of the first file
  whose name is the base name of the argument, and with none where no file has the name or the address
  of the first that has it reads as zero; files whose name cannot be read are passed over.  Fuel for
  the length of the list is enough.\<close>

theorem find_kld_address_correct:
  assumes "linker_files_addr st \<noteq> 0" and "off_address st \<noteq> 0" and "off_filename st \<noteq> 0"
    and "off_next st \<noteq> 0" and "basename arg = Some f"
    and "linked_list m st (read_pointer m (linker_files_addr st)) klds" and "length klds \<le> fuel"
  shows "find_kld_address fuel m st arg =
     Inr (Option.bind (List.find (\<lambda>k. kld_filename m st k = Some f) klds)
            (\<lambda>k. nonzero (read_pointer m (k + off_address st))))"
  using assms by (simp add: find_kld_address_def walk_linker_files_list)

lemma find_kld_address_correct_witness:
  "find_kld_address 2 sample_mem sample_klds ''mods/fs.ko'' = Inr (Some 96)"
proof -
  have "basename ''mods/fs.ko'' = Some ''fs.ko''"
    by (simp add: basename_def strip_slashes_def limited_def PATH_MAX_def)
  then show ?thesis
    using find_kld_address_correct [of sample_klds "''mods/fs.ko''" "''fs.ko''" sample_mem "[16, 32]" 2]
    by (simp add: sample_klds_def sample_mem_def read_pointer_def kld_filename_def nonzero_def)
qed

text \<open>On a linker list that ends, \<open>kld_current_sos\<close> gives gdb one entry per module, in the list's
  order: the kernel itself and the modules whose name or address cannot be read are left out, and
  nothing else.\<close>

theorem kld_current_sos_correct:
  assumes "linker_files_addr st \<noteq> 0" and "kernel_file_addr st \<noteq> 0" and "off_address st \<noteq> 0"
    and "off_filename st \<noteq> 0" and "off_next st \<noteq> 0"
    and "linked_list m st (read_pointer m (linker_files_addr st)) klds" and "length klds \<le> fuel"
  shows "kld_current_sos fuel N m st =
     Inr (List.map_filter (so_entry N m st)
            (filter (\<lambda>k. k \<noteq> read_pointer m (kernel_file_addr st)) klds))"
  using assms by (simp add: kld_current_sos_def collect_sos_list)

lemma kld_current_sos_correct_witness:
  "kld_current_sos 2 512 sample_mem sample_klds =
     Inr [\<lparr>so_original_name = ''fs.ko'', so_name = ''fs.ko'', base_address = 96\<rparr>]"
  using kld_current_sos_correct [of sample_klds sample_mem "[16, 32]" 2 512]
  by (simp add: sample_klds_def sample_mem_def read_pointer_def so_entry_def List.map_filter_simps Let_def)

text \<open>C38: the sections of a relocatable module are placed from the base address on without overlap: each
  starts at a multiple of its alignment, at or after the end of the one before, and has its size,
  as long as the module with its padding ends below \<open>2 ^ 64\<close>; and gdb's section by section relocation,
  whose static variable starts with any value, puts them in the same places as \<open>load_kld\<close>.\<close>

theorem sections_placed:
  assumes "align_ok al" and "unat (base_address so) + room ss < 2 ^ 64"
  shows "placed (unat (base_address so)) (adjust_sections al False (base_address so) ss) \<and>
         relocate_rest al False so True ss curr_addr = adjust_sections al False (base_address so) ss"
  using assms by (simp add: adjust_sections_placed relocate_first)

text \<open>BFD's macro.\<close>

definition bfd_align_power :: "addr \<Rightarrow> nat \<Rightarrow> addr" where
  "bfd_align_power a n = of_nat ((unat a + 2 ^ n - 1) div 2 ^ n * 2 ^ n)"

lemma bfd_align_ok: "align_ok bfd_align_power"
  unfolding align_ok_def
proof (intro allI impI)
  fix a :: addr and n :: nat
  assume le: "unat a + 2 ^ n \<le> 2 ^ 64"
  define p :: nat where "p = 2 ^ n"
  define q where "q = (unat a + p - 1) div p * p"
  have p: "0 < p" by (simp add: p_def)
  have "unat a + p - 1 = q + (unat a + p - 1) mod p" by (simp add: q_def)
  moreover have "(unat a + p - 1) mod p < p" using p by simp
  ultimately have q: "unat a \<le> q" "q < unat a + p" using p by linarith+
  then have "unat (of_nat q :: addr) = q" using le by (simp add: p_def unat_of_nat)
  then show "unat a \<le> unat (bfd_align_power a n) \<and> unat (bfd_align_power a n) < unat a + 2 ^ n \<and>
      2 ^ n dvd unat (bfd_align_power a n)"
    using q by (simp add: bfd_align_power_def flip: p_def q_def) (simp add: q_def)
qed

lemma sections_placed_witness:
  "placed 100 (adjust_sections bfd_align_power False 100
     [\<lparr>sec_name = ''.text'', sec_align = 4, sec_size = 10, addr = 0, endaddr = 0\<rparr>,
      \<lparr>sec_name = ''.data'', sec_align = 3, sec_size = 8, addr = 0, endaddr = 0\<rparr>])"
  using sections_placed [OF bfd_align_ok, of "\<lparr>so_original_name = [], so_name = [], base_address = 100\<rparr>"
      "[\<lparr>sec_name = ''.text'', sec_align = 4, sec_size = 10, addr = 0, endaddr = 0\<rparr>,
        \<lparr>sec_name = ''.data'', sec_align = 3, sec_size = 8, addr = 0, endaddr = 0\<rparr>]"]
  by (simp add: room_def)

end
