(* ===== verification/Kgdb_Main.thy ===== *)
theory Kgdb_Main
  imports Kgdb_Target Kgdb_Klds
begin

text \<open>
  \<^verbatim>\<open>kgdb/kgdb.c\<close>: the debugger's start, from the command line to the call of \<open>gdb_main\<close>, the search
  for the kernel that belongs to a dump, the expression evaluator's wrapper and the printing of the
  message buffer.

  The file system is the function \<open>fs\<close> from paths to kinds of files, \<open>contents\<close> gives what
  \<open>fopen\<close> and \<open>fgets\<close> read.  \<open>usage\<close>, \<open>err\<close> and \<open>errx\<close> are \<open>Inl (Exit ...)\<close>.
\<close>

datatype kind = Reg | Dir | Chr | Fifo | Other

datatype kg_error =
  Exit string | Undefined string | Out_of_bounds nat | Gdb_exit string | Runs_on

section \<open>The C library\<close>

text \<open>\<open>strtol(s, &p, 0)\<close>: the value, saturated, and the text at \<open>p\<close>.\<close>

definition strtol_base :: "c_string \<Rightarrow> int \<times> c_string" where
  "strtol_base t =
     (case t of
        c # x # d # r \<Rightarrow>
          if c = CHR ''0'' \<and> (x = CHR ''x'' \<or> x = CHR ''X'') \<and> isxdigit d then (16, d # r)
          else if c = CHR ''0'' then (8, t) else (10, t)
      | c # _ \<Rightarrow> if c = CHR ''0'' then (8, t) else (10, t)
      | [] \<Rightarrow> (10, t))"

definition strtol0 :: "c_string \<Rightarrow> int \<times> c_string" where
  "strtol0 s =
     (let t = dropWhile isspace s;
          neg = (t \<noteq> [] \<and> hd t = CHR ''-'');
          t = (if t \<noteq> [] \<and> (hd t = CHR ''-'' \<or> hd t = CHR ''+'') then tl t else t)
      in case strtol_base t of
           (b, t) \<Rightarrow>
             (let ds = takeWhile (\<lambda>c. digit_value c < b) t;
                  v = foldl (\<lambda>v c. v * b + digit_value c) 0 ds;
                  v = (if neg then - v else v)
              in if ds = [] then (0, s)
                 else (max (- (2 ^ 63)) (min (2 ^ 63 - 1) v), dropWhile (\<lambda>c. digit_value c < b) t)))"

section \<open>kernel_from_dumpnr\<close>

text \<open>The line that names the object directory: \<open>off\<close> is where \<open>s\<close> points in \<open>path\<close>.\<close>

definition dir_offset :: "c_string \<Rightarrow> nat" where
  "dir_offset line =
     (case strchr line (CHR '':'') of
        None \<Rightarrow> 4
      | Some r \<Rightarrow> length line - length r + 1)"

text \<open>\<open>snprintf(path, sizeof(path), "%s/kernel.debug", s)\<close> reads from the buffer that it writes, which the
  standard leaves open; \<open>overlap line off\<close> is what it puts there.\<close>

definition kernel_in_dir ::
  "(c_string \<Rightarrow> kind option) \<Rightarrow> (c_string \<Rightarrow> nat \<Rightarrow> c_string) \<Rightarrow> c_string \<Rightarrow> kg_error + c_string option"
where
  "kernel_in_dir fs overlap line =
     (let off = dir_offset line;
          l = length (drop off line) + 13;
          path = overlap line off
      in if fs path = Some Reg then Inr (Some path)
         else if PATH_MAX \<le> l - 6 then Inl (Out_of_bounds (l - 6))
         else (let path = take (l - 6) path in
               Inr (if fs path = Some Reg then Some path else None)))"

function read_info ::
  "(c_string \<Rightarrow> kind option) \<Rightarrow> (c_string \<Rightarrow> nat \<Rightarrow> c_string) \<Rightarrow> char list \<Rightarrow> kg_error + c_string option"
where
  "read_info fs overlap r =
     (case fgets PATH_MAX r of
        (chunk, r') \<Rightarrow>
          if chunk = [] then Inr None
          else (let line = takeWhile (\<lambda>c. c \<noteq> nul) chunk;
                    line = (if line \<noteq> [] \<and> last line = CHR 0x0A then butlast line else line)
                in if has_prefix ''    '' line then kernel_in_dir fs overlap line
                   else read_info fs overlap r'))"
  by pat_completeness auto

termination
  by (relation "measure (\<lambda>(_, _, r). length r)") (auto dest: fgets_shorter)

declare read_info.simps [simp del]

definition kernel_from_dumpnr ::
  "(c_string \<Rightarrow> kind option) \<Rightarrow> (c_string \<Rightarrow> char list option) \<Rightarrow> (c_string \<Rightarrow> nat \<Rightarrow> c_string) \<Rightarrow>
   c_string \<Rightarrow> int \<Rightarrow> kg_error + c_string option"
where
  "kernel_from_dumpnr fs contents overlap crashdir nr =
     (let path = take (PATH_MAX - 1) (crashdir @ ''/kern.'' @ show_int nr);
          sub = take (PATH_MAX - 1) (crashdir @ ''/kern.'' @ show_int nr @ ''/kernel'')
      in if fs path = Some Reg then Inr (Some path)
         else if fs path = Some Dir \<and> fs sub = Some Reg then Inr (Some sub)
         else (case contents (take (PATH_MAX - 1) (crashdir @ ''/info.'' @ show_int nr)) of
                 None \<Rightarrow> Inr None
               | Some r \<Rightarrow> read_info fs overlap r))"

section \<open>The first object file\<close>

text \<open>\<open>once\<close> is the function's static variable, \<open>is_kernel\<close> that the object file is the symbol file's.
  The result is the command executed and the new \<open>once\<close>.\<close>

definition kgdb_new_objfile ::
  "c_string option \<Rightarrow> c_string option \<Rightarrow> bool \<Rightarrow> bool \<Rightarrow> kg_error + c_string option \<times> bool"
where
  "kgdb_new_objfile remote core is_kernel once =
     (if once \<and> is_kernel then
        (case (remote, core) of
           (Some r, _) \<Rightarrow> Inr (Some (''target remote '' @ r), False)
         | (None, Some v) \<Rightarrow> Inr (Some (''target kernel '' @ v), False)
         | (None, None) \<Rightarrow> Inl (Undefined ''buf''))
      else Inr (None, once))"

section \<open>Evaluating an expression\<close>

text \<open>\<open>parse_exp\<close> gives the expression and the text it left; both it and \<open>evaluate\<close> may raise an error,
  which is caught.  \<open>gdb_stderr\<close> is put back on every path.\<close>

definition gdb_parse_exp_1 :: "(c_string \<Rightarrow> ('e \<times> c_string) option) \<Rightarrow> c_string \<Rightarrow> ('e \<times> c_string) option" where
  "gdb_parse_exp_1 parse_exp s = parse_exp s"

definition gdb_evaluate_expression :: "('e \<Rightarrow> addr option) \<Rightarrow> 'e \<Rightarrow> addr option" where
  "gdb_evaluate_expression evaluate e = evaluate e"

definition kgdb_parse_1 ::
  "(c_string \<Rightarrow> ('e \<times> c_string) option) \<Rightarrow> ('e \<Rightarrow> addr option) \<Rightarrow> c_string \<Rightarrow> addr"
where
  "kgdb_parse_1 parse_exp evaluate s =
     (case gdb_parse_exp_1 parse_exp s of
        Some (expr, []) \<Rightarrow>
          (case gdb_evaluate_expression evaluate expr of None \<Rightarrow> 0 | Some v \<Rightarrow> v)
      | _ \<Rightarrow> 0)"

section \<open>The message buffer\<close>

text \<open>C's \<open>%\<close> on \<open>int\<close>s truncates toward zero.\<close>

definition MSGBUF_SEQ_TO_POS :: "int \<Rightarrow> int \<Rightarrow> int" where
  "MSGBUF_SEQ_TO_POS sz s = sgn s * (\<bar>s\<bar> mod \<bar>sz\<bar>)"

definition int_of_addr :: "addr \<Rightarrow> int" where
  "int_of_addr a = sint (ucast a :: 32 word)"

text \<open>The loop, with \<open>c\<close> the last byte read; \<open>None\<close> when none was.  \<open>read_byte\<close> raises gdb's error on
  memory that is not there.  The fuel bounds the number of bytes.\<close>

fun dmesg_loop ::
  "nat \<Rightarrow> (addr \<Rightarrow> char option) \<Rightarrow> addr \<Rightarrow> int \<Rightarrow> int \<Rightarrow> int \<Rightarrow> char option \<Rightarrow> string \<Rightarrow>
   kg_error + char option \<times> string"
where
  "dmesg_loop fuel read_byte bufp sz rseq wseq c out =
     (if rseq < wseq then
        (case fuel of
           0 \<Rightarrow> Inl Runs_on
         | Suc fuel \<Rightarrow>
             (case read_byte (bufp + of_int rseq) of
                None \<Rightarrow> Inl (Gdb_exit ''Cannot access memory'')
              | Some c \<Rightarrow>
                  dmesg_loop fuel read_byte bufp sz (if rseq + 1 = sz then 0 else rseq + 1) wseq (Some c)
                    (out @ [c])))
      else Inr (c, out))"

declare dmesg_loop.simps [simp del]

text \<open>\<open>parse\<close> is \<open>kgdb_parse\<close>; the result is what is printed.\<close>

definition kgdb_dmesg ::
  "nat \<Rightarrow> bool \<Rightarrow> (c_string \<Rightarrow> addr) \<Rightarrow> (addr \<Rightarrow> char option) \<Rightarrow> kg_error + string"
where
  "kgdb_dmesg fuel quiet parse read_byte =
     (if quiet then Inr []
      else (let bufp = parse ''msgbufp->msg_ptr'';
                sz = int_of_addr (parse ''msgbufp->msg_size'')
            in if bufp = 0 \<or> sz = 0 then Inr []
               else (let rseq = MSGBUF_SEQ_TO_POS sz (int_of_addr (parse ''msgbufp->msg_bufr''));
                         wseq = MSGBUF_SEQ_TO_POS sz (int_of_addr (parse ''msgbufp->msg_bufx''))
                     in if rseq = wseq then Inr []
                        else (case dmesg_loop fuel read_byte bufp sz rseq wseq None [] of
                                Inl e \<Rightarrow> Inl e
                              | Inr (None, out) \<Rightarrow> Inl (Undefined ''c'')
                              | Inr (Some c, out) \<Rightarrow>
                                  Inr (CHR 0x0A # ''Unread portion of the kernel message buffer:'' @ [CHR 0x0A] @
                                       out @ (if c \<noteq> CHR 0x0A then [CHR 0x0A] else []) @ [CHR 0x0A])))))"

section \<open>The command line\<close>

text \<open>\<open>verify_remote\<close>: the device, with \<open>/dev/\<close> before it where only that names a file.\<close>

definition verify_remote :: "(c_string \<Rightarrow> kind option) \<Rightarrow> c_string \<Rightarrow> kg_error + c_string" where
  "verify_remote fs dev =
     (case (case fs dev of
              Some k \<Rightarrow> Some (dev, k)
            | None \<Rightarrow>
                (let path = take (PATH_MAX - 1) (''/dev/'' @ dev) in
                 case fs path of None \<Rightarrow> None | Some k \<Rightarrow> Some (path, k))) of
        None \<Rightarrow> Inr dev
      | Some (path, k) \<Rightarrow>
          if k \<noteq> Chr \<and> k \<noteq> Fifo
          then Inl (Exit (path @ '': not a special file, FIFO or socket''))
          else Inr path)"

text \<open>A long option becomes a short one.\<close>

definition short_option :: "c_string \<Rightarrow> c_string" where
  "short_option s =
     (if has_prefix ''-'' s then
        (let t = (if has_prefix ''-'' (tl s) then tl (tl s) else tl s) in
         if t = ''quiet'' then ''-q''
         else if t = ''fullname'' then ''-f''
         else if t = ''tui-mode'' then ''-t''
         else s)
      else s)"

text \<open>\<open>getopt(argc, argv, "ac:d:fn:qr:tvw")\<close> called to its end: the options in order, with their
  arguments, and the operands.  It stops at \<open>--\<close> and at the first argument that is no option.\<close>

datatype opt = Flag char | With_arg char c_string | Bad_option

definition plain_options :: "char list" where
  "plain_options = ''afqtvw''"

definition arg_options :: "char list" where
  "arg_options = ''cdnr''"

function getopt :: "c_string \<Rightarrow> c_string list \<Rightarrow> opt list \<times> c_string list" where
  "getopt [] [] = ([], [])"
| "getopt [] (a # as) =
     (if a = ''--'' then ([], as)
      else if has_prefix ''-'' a \<and> a \<noteq> ''-'' then getopt (tl a) as
      else ([], a # as))"
| "getopt (c # cs) as =
     (if c \<in> set plain_options then (case getopt cs as of (os, r) \<Rightarrow> (Flag c # os, r))
      else if c \<in> set arg_options then
        (if cs \<noteq> [] then (case getopt [] as of (os, r) \<Rightarrow> (With_arg c cs # os, r))
         else (case as of
                 [] \<Rightarrow> ([Bad_option], [])
               | b # as \<Rightarrow> (case getopt [] as of (os, r) \<Rightarrow> (With_arg c b # os, r))))
      else (case getopt cs as of (os, r) \<Rightarrow> (Bad_option # os, r)))"
  by pat_completeness auto

termination
  by (relation "measure (\<lambda>(cs, as). length cs + sum_list (map (\<lambda>a. Suc (length a)) as))") auto

record kgdb_opts =
  annotation_level :: int
  o_vmcore :: "c_string option"
  o_crashdir :: c_string
  o_dumpnr :: int
  o_quiet :: bool
  o_remote :: "c_string option"
  o_tui :: bool
  o_verbose :: int
  o_args :: "c_string list"

definition strlcpy :: "nat \<Rightarrow> c_string \<Rightarrow> c_string" where
  "strlcpy n s = take (n - 1) s"

definition add_arg :: "c_string \<Rightarrow> kgdb_opts \<Rightarrow> kgdb_opts" where
  "add_arg a s = s\<lparr>o_args := o_args s @ [a]\<rparr>"

text \<open>The switch of \<open>main\<close>'s option loop.\<close>

definition main_option :: "opt \<Rightarrow> kgdb_opts \<Rightarrow> kg_error + kgdb_opts" where
  "main_option ch s =
     (case ch of
        Bad_option \<Rightarrow> Inl (Exit ''usage'')
      | With_arg c optarg \<Rightarrow>
          if c = CHR ''c'' then
            (if o_vmcore s \<noteq> None then Inl (Exit ''usage'') else Inr (s\<lparr>o_vmcore := Some optarg\<rparr>))
          else if c = CHR ''d'' then Inr (s\<lparr>o_crashdir := strlcpy (PATH_MAX - 24) optarg\<rparr>)
          else if c = CHR ''n'' then
            (case strtol0 optarg of
               (v, p) \<Rightarrow>
                 (let nr = sint (word_of_int v :: 32 word) in
                  if nr < 0 \<or> p \<noteq> [] then Inl (Exit ''usage'') else Inr (s\<lparr>o_dumpnr := nr\<rparr>)))
          else
            (if o_remote s \<noteq> None then Inl (Exit ''usage'') else Inr (s\<lparr>o_remote := Some optarg\<rparr>))
      | Flag c \<Rightarrow>
          if c = CHR ''a'' then Inr (s\<lparr>annotation_level := annotation_level s + 1\<rparr>)
          else if c = CHR ''f'' then Inr (s\<lparr>annotation_level := 1\<rparr>)
          else if c = CHR ''q'' then Inr (add_arg ''-q'' (s\<lparr>o_quiet := True\<rparr>))
          else if c = CHR ''t'' then
            Inr (add_arg ''-q'' (add_arg ''-tui'' (s\<lparr>o_tui := True, o_quiet := True\<rparr>)))
          else if c = CHR ''v'' then Inr (s\<lparr>o_verbose := o_verbose s + 1\<rparr>)
          else Inr (add_arg ''--write'' s))"

fun main_options :: "opt list \<Rightarrow> kgdb_opts \<Rightarrow> kg_error + kgdb_opts" where
  "main_options [] s = Inr s"
| "main_options (ch # os) s =
     (case main_option ch s of Inl e \<Rightarrow> Inl e | Inr s \<Rightarrow> main_options os s)"

text \<open>The operands: the kernel, and the core file with what the options say.  \<open>bootfile\<close> is
  \<open>getbootfile()\<close>, \<open>mem\<close> is \<open>_PATH_MEM\<close>.\<close>

definition choose_files ::
  "(c_string \<Rightarrow> kind option) \<Rightarrow> c_string \<Rightarrow> c_string \<Rightarrow> c_string list \<Rightarrow> kgdb_opts \<Rightarrow>
   kg_error + c_string option \<times> kgdb_opts"
where
  "choose_files fs bootfile mem operands s =
     (let kern = (case operands of [] \<Rightarrow> None | k # _ \<Rightarrow> Some k);
          rest = drop 1 operands;
          rest = (if rest \<noteq> [] \<and> (0 \<le> o_dumpnr s \<or> o_remote s \<noteq> None) then [] else rest)
      in if 0 \<le> o_dumpnr s then
           (let path = take (PATH_MAX - 1) (o_crashdir s @ ''/vmcore.'' @ show_int (o_dumpnr s)) in
            case fs path of
              None \<Rightarrow> Inl (Exit path)
            | Some k \<Rightarrow>
                if k \<noteq> Reg then Inl (Exit (path @ '': not a regular file''))
                else Inr (kern, s\<lparr>o_vmcore := Some path\<rparr>))
         else (case o_remote s of
                 Some dev \<Rightarrow>
                   (case verify_remote fs dev of
                      Inl e \<Rightarrow> Inl e
                    | Inr dev \<Rightarrow> Inr (kern, s\<lparr>o_remote := Some dev\<rparr>))
               | None \<Rightarrow>
                   (case rest of
                      core # _ \<Rightarrow>
                        Inr (kern, if o_vmcore s = None then s\<lparr>o_vmcore := Some core\<rparr> else s)
                    | [] \<Rightarrow>
                        if o_vmcore s = None \<and> kern = None
                        then Inr (Some bootfile, s\<lparr>o_vmcore := Some mem\<rparr>)
                        else Inr (kern, s))))"

text \<open>What follows the option loop: the exclusive options, the files, and the kernel that belongs to the
  dump.\<close>

definition find_kernel ::
  "(c_string \<Rightarrow> kind option) \<Rightarrow> (c_string \<Rightarrow> char list option) \<Rightarrow> (c_string \<Rightarrow> nat \<Rightarrow> c_string) \<Rightarrow>
   c_string option \<Rightarrow> kgdb_opts \<Rightarrow> kg_error + c_string option"
where
  "find_kernel fs contents overlap kern s =
     (case kern of
        Some k \<Rightarrow> Inr (Some k)
      | None \<Rightarrow>
          if 0 \<le> o_dumpnr s
          then kernel_from_dumpnr fs contents overlap (o_crashdir s) (o_dumpnr s) else Inr None)"

definition start_session ::
  "(c_string \<Rightarrow> kind option) \<Rightarrow> (c_string \<Rightarrow> char list option) \<Rightarrow> (c_string \<Rightarrow> nat \<Rightarrow> c_string) \<Rightarrow>
   c_string \<Rightarrow> c_string \<Rightarrow> c_string list \<Rightarrow> kgdb_opts \<Rightarrow> kg_error + c_string \<times> kgdb_opts"
where
  "start_session fs contents overlap bootfile mem operands s =
     (if 1 < (if o_vmcore s \<noteq> None then 1 else 0) + (if 0 \<le> o_dumpnr s then 1 else 0) +
             (if o_remote s \<noteq> None then 1 else (0::nat))
      then Inl (Exit ''usage'')
      else (case choose_files fs bootfile mem operands s of
              Inl e \<Rightarrow> Inl e
            | Inr (kern, s) \<Rightarrow>
                if o_remote s \<noteq> None \<and> kern = None then Inl (Exit ''usage'')
                else (case find_kernel fs contents overlap kern s of
                        Inl e \<Rightarrow> Inl e
                      | Inr None \<Rightarrow> Inl (Exit ''couldn't find a suitable kernel image'')
                      | Inr (Some k) \<Rightarrow> Inr (k, add_arg k s))))"

text \<open>The whole of \<open>main\<close> up to the call of \<open>gdb_main\<close>: the kernel (the static variable \<open>kernel\<close>) and the
  arguments and settings it is called with.\<close>

definition kgdb_main ::
  "(c_string \<Rightarrow> kind option) \<Rightarrow> (c_string \<Rightarrow> char list option) \<Rightarrow> (c_string \<Rightarrow> nat \<Rightarrow> c_string) \<Rightarrow>
   (c_string \<Rightarrow> c_string option) \<Rightarrow> c_string \<Rightarrow> c_string \<Rightarrow> c_string list \<Rightarrow>
   kg_error + c_string \<times> kgdb_opts"
where
  "kgdb_main fs contents overlap getenv bootfile mem argv =
     (let dir = (case getenv ''KGDB_CRASH_DIR'' of
                   None \<Rightarrow> strlcpy (PATH_MAX - 24) ''/var/crash''
                 | Some v \<Rightarrow> strlcpy (PATH_MAX - 24) v);
          s = \<lparr>annotation_level = 0, o_vmcore = None, o_crashdir = dir, o_dumpnr = - 1,
               o_quiet = False, o_remote = None, o_tui = False, o_verbose = 0,
               o_args = [hd argv, ''--kernel'']\<rparr>
      in case getopt [] (map short_option (tl argv)) of
           (os, operands) \<Rightarrow>
             (case main_options os s of
                Inl e \<Rightarrow> Inl e
              | Inr s \<Rightarrow> start_session fs contents overlap bootfile mem operands s))"

section \<open>Lemmas on the command line\<close>

definition added_flags :: "c_string set" where
  "added_flags = {''-q'', ''-tui'', ''--write''}"

lemma main_option_args:
  "main_option ch s = Inr s' \<Longrightarrow> \<exists>fl. o_args s' = o_args s @ fl \<and> set fl \<subseteq> added_flags"
  by (cases ch) (auto simp: main_option_def add_arg_def added_flags_def Let_def split: if_splits prod.splits)

lemma main_options_args:
  "main_options os s = Inr s' \<Longrightarrow> \<exists>fl. o_args s' = o_args s @ fl \<and> set fl \<subseteq> added_flags"
proof (induction os arbitrary: s)
  case (Cons ch os)
  then obtain s1 where s1: "main_option ch s = Inr s1" "main_options os s1 = Inr s'"
    by (auto split: sum.splits)
  obtain f g where "o_args s1 = o_args s @ f" "set f \<subseteq> added_flags"
    "o_args s' = o_args s1 @ g" "set g \<subseteq> added_flags"
    using main_option_args [OF s1(1)] Cons.IH [OF s1(2)] by auto
  then show ?case by (intro exI [of _ "f @ g"]) auto
qed auto

text \<open>One source of data at most, and what each needs of the file system.\<close>

definition one_source :: "kgdb_opts \<Rightarrow> bool" where
  "one_source s \<longleftrightarrow>
     (o_vmcore s = None \<or> o_dumpnr s < 0) \<and> (o_vmcore s = None \<or> o_remote s = None) \<and>
     (o_dumpnr s < 0 \<or> o_remote s = None)"

lemma one_source_count:
  "\<not> 1 < (if o_vmcore s \<noteq> None then 1 else 0) + (if 0 \<le> o_dumpnr s then 1 else 0) +
         (if o_remote s \<noteq> None then 1 else (0::nat)) \<longleftrightarrow> one_source s"
  by (auto simp: one_source_def)

definition special :: "(c_string \<Rightarrow> kind option) \<Rightarrow> c_string \<Rightarrow> bool" where
  "special fs dev \<longleftrightarrow> fs dev = None \<or> fs dev = Some Chr \<or> fs dev = Some Fifo"

definition session_ok :: "(c_string \<Rightarrow> kind option) \<Rightarrow> kgdb_opts \<Rightarrow> bool" where
  "session_ok fs s \<longleftrightarrow>
     (0 \<le> o_dumpnr s \<longrightarrow>
        o_remote s = None \<and>
        (\<exists>path. o_vmcore s = Some path \<and> fs path = Some Reg \<and>
           path = take (PATH_MAX - 1) (o_crashdir s @ ''/vmcore.'' @ show_int (o_dumpnr s)))) \<and>
     (case o_remote s of
        None \<Rightarrow> True
      | Some dev \<Rightarrow> o_dumpnr s < 0 \<and> o_vmcore s = None \<and> special fs dev)"

lemma verify_remote_special: "verify_remote fs dev = Inr dev' \<Longrightarrow> special fs dev'"
  by (auto simp: verify_remote_def special_def Let_def split: option.splits if_splits)

lemma choose_files_ok:
  "one_source s \<Longrightarrow> choose_files fs bootfile mem operands s = Inr (kern, s') \<Longrightarrow>
   session_ok fs s' \<and> o_args s' = o_args s"
  unfolding choose_files_def Let_def one_source_def session_ok_def
  by (auto split: if_splits option.splits sum.splits list.splits dest: verify_remote_special)

lemma session_ok_add_arg [simp]: "session_ok fs (add_arg k s) = session_ok fs s"
  by (simp add: session_ok_def add_arg_def cong: option.case_cong)

lemma start_session_exclusive:
  "\<not> one_source s \<Longrightarrow> start_session fs contents overlap bootfile mem operands s = Inl (Exit ''usage'')"
  unfolding start_session_def by (rule if_P) (use one_source_count [of s] in blast)

lemma start_session_ok:
  assumes "start_session fs contents overlap bootfile mem operands s = Inr (k, s')"
  shows "session_ok fs s' \<and> o_args s' = o_args s @ [k]"
proof -
  have one: "one_source s"
    using assms start_session_exclusive [of s fs contents overlap bootfile mem operands] by force
  obtain kern s2 where c: "choose_files fs bootfile mem operands s = Inr (kern, s2)" "s' = add_arg k s2"
    using assms unfolding start_session_def
    by (cases "choose_files fs bootfile mem operands s")
      (auto split: if_splits sum.splits option.splits prod.splits)
  show ?thesis
    using choose_files_ok [OF one c(1)] c(2) by (simp, simp add: add_arg_def)
qed

lemma kgdb_main_ok:
  assumes "kgdb_main fs contents overlap getenv bootfile mem argv = Inr (k, s)"
  shows "session_ok fs s"
    and "\<exists>fl. o_args s = [hd argv, ''--kernel''] @ fl @ [k] \<and> set fl \<subseteq> added_flags"
proof -
  obtain os operands where g: "getopt [] (map short_option (tl argv)) = (os, operands)" by fastforce
  define s0 where "s0 = \<lparr>annotation_level = 0, o_vmcore = None,
    o_crashdir = (case getenv ''KGDB_CRASH_DIR'' of
                    None \<Rightarrow> strlcpy (PATH_MAX - 24) ''/var/crash''
                  | Some v \<Rightarrow> strlcpy (PATH_MAX - 24) v),
    o_dumpnr = - 1, o_quiet = False, o_remote = None, o_tui = False, o_verbose = 0,
    o_args = [hd argv, ''--kernel'']\<rparr>"
  have "(case main_options os s0 of
          Inl e \<Rightarrow> Inl e
        | Inr s \<Rightarrow> start_session fs contents overlap bootfile mem operands s) = Inr (k, s)"
    using assms unfolding kgdb_main_def Let_def g prod.case s0_def .
  then obtain s1 where r: "o_args s0 = [hd argv, ''--kernel'']" "main_options os s0 = Inr s1"
       "start_session fs contents overlap bootfile mem operands s1 = Inr (k, s)"
    by (cases "main_options os s0") (simp_all add: s0_def)
  show "session_ok fs s"
    and "\<exists>fl. o_args s = [hd argv, ''--kernel''] @ fl @ [k] \<and> set fl \<subseteq> added_flags"
    using start_session_ok [OF r(3)] r(1) main_options_args [OF r(2)] by auto
qed

section \<open>Lemmas on the message buffer\<close>

lemma dmesg_loop_reads:
  assumes "\<forall>i\<in>{r..<w}. read_byte (bufp + of_int i) = Some (b i)" and "w < sz" and "nat (w - r) \<le> fuel"
  shows "dmesg_loop fuel read_byte bufp sz r w c out =
     Inr (if r < w then Some (b (w - 1)) else c, out @ map b [r..w - 1])"
  using assms
proof (induction "nat (w - r)" arbitrary: r fuel c out)
  case 0
  then show ?case by (simp add: dmesg_loop.simps [of fuel])
next
  case (Suc n)
  then obtain m where m: "fuel = Suc m" by (cases fuel) auto
  have lt: "r < w" using Suc.hyps by simp
  have "dmesg_loop m read_byte bufp sz (r + 1) w (Some (b r)) (out @ [b r]) =
      Inr (if r + 1 < w then Some (b (w - 1)) else Some (b r), (out @ [b r]) @ map b [r + 1..w - 1])"
    using Suc.hyps Suc.prems m by (intro Suc.hyps(1)) auto
  moreover have "[r..w - 1] = r # [r + 1..w - 1]" using lt by (simp add: upto_rec1)
  moreover have w: "w - 1 = r" if "\<not> r + 1 < w" using lt that by simp
  ultimately show ?case
    using lt Suc.prems m by (cases "r + 1 < w") (auto simp: dmesg_loop.simps [of "Suc m"] w)
qed

lemma dmesg_loop_none: "\<not> r < w \<Longrightarrow> dmesg_loop fuel read_byte bufp sz r w c out = Inr (c, out)"
  by (simp add: dmesg_loop.simps [of fuel])

section \<open>Properties\<close>

text \<open>C33: whenever \<open>main\<close> reaches \<open>gdb_main\<close>, the session is coherent: at most one of a core file,
  a dump number and a remote device is in force; a dump number stands for the regular file
  \<open>vmcore.N\<close> of the crash directory; a remote device is no file at all, a character device or a FIFO;
  and the arguments are \<open>--kernel\<close>, the flags of the options, and the kernel last.\<close>

theorem kgdb_main_session:
  assumes "kgdb_main fs contents overlap getenv bootfile mem argv = Inr (k, s)"
  shows "session_ok fs s \<and>
    (\<exists>fl. o_args s = [hd argv, ''--kernel''] @ fl @ [k] \<and> set fl \<subseteq> added_flags)"
  using kgdb_main_ok [OF assms] by blast

lemma sample_main:
  "kgdb_main (\<lambda>p. if p = ''/d/vmcore.5'' \<or> p = ''/d/kern.5'' then Some Reg else None) (\<lambda>_. None)
     (\<lambda>l n. l) (\<lambda>_. Some ''/d'') ''/boot/kernel'' ''/dev/mem'' [''kgdb'', ''--quiet'', ''-wn5''] =
   Inr (''/d/kern.5'',
     \<lparr>annotation_level = 0, o_vmcore = Some ''/d/vmcore.5'', o_crashdir = ''/d'', o_dumpnr = 5,
      o_quiet = True, o_remote = None, o_tui = False, o_verbose = 0,
      o_args = [''kgdb'', ''--kernel'', ''-q'', ''--write'', ''/d/kern.5'']\<rparr>)"
  by code_simp

lemma kgdb_main_session_witness:
  "\<exists>k s. kgdb_main (\<lambda>p. if p = ''/d/vmcore.5'' \<or> p = ''/d/kern.5'' then Some Reg else None) (\<lambda>_. None)
     (\<lambda>l n. l) (\<lambda>_. Some ''/d'') ''/boot/kernel'' ''/dev/mem'' [''kgdb'', ''--quiet'', ''-wn5''] =
     Inr (k, s) \<and> o_dumpnr s = 5 \<and>
   session_ok (\<lambda>p. if p = ''/d/vmcore.5'' \<or> p = ''/d/kern.5'' then Some Reg else None) s"
  using kgdb_main_session [OF sample_main] sample_main by (intro exI conjI) auto

text \<open>With the message buffer's positions within its size, \<open>kgdb_dmesg\<close> prints exactly the unread bytes
  when the unread part does not wrap around the end of the buffer; when it does, it prints none of
  them and looks at a byte that it never read.\<close>

theorem kgdb_dmesg_correct:
  assumes "parse ''msgbufp->msg_ptr'' = bufp" and "bufp \<noteq> 0"
    and "int_of_addr (parse ''msgbufp->msg_size'') = sz" and "0 < sz"
    and "MSGBUF_SEQ_TO_POS sz (int_of_addr (parse ''msgbufp->msg_bufr'')) = r" and "0 \<le> r"
    and "MSGBUF_SEQ_TO_POS sz (int_of_addr (parse ''msgbufp->msg_bufx'')) = w" and "0 \<le> w"
    and "\<forall>i\<in>{0..<sz}. read_byte (bufp + of_int i) = Some (b i)" and "nat sz \<le> fuel"
  shows "(r < w \<longrightarrow> kgdb_dmesg fuel False parse read_byte =
           Inr (CHR 0x0A # ''Unread portion of the kernel message buffer:'' @ [CHR 0x0A] @
                map b [r..w - 1] @ (if b (w - 1) \<noteq> CHR 0x0A then [CHR 0x0A] else []) @ [CHR 0x0A])) \<and>
         (w < r \<longrightarrow> kgdb_dmesg fuel False parse read_byte = Inl (Undefined ''c''))"
proof -
  have w: "w < sz"
    using assms(4,7) by (auto simp: MSGBUF_SEQ_TO_POS_def sgn_if split: if_splits)
      (smt (verit) pos_mod_bound pos_mod_sign)+
  have "kgdb_dmesg fuel False parse read_byte =
      (if r = w then Inr []
       else (case dmesg_loop fuel read_byte bufp sz r w None [] of
               Inl e \<Rightarrow> Inl e
             | Inr (None, out) \<Rightarrow> Inl (Undefined ''c'')
             | Inr (Some c, out) \<Rightarrow>
                 Inr (CHR 0x0A # ''Unread portion of the kernel message buffer:'' @ [CHR 0x0A] @
                      out @ (if c \<noteq> CHR 0x0A then [CHR 0x0A] else []) @ [CHR 0x0A])))"
    using assms(1-8) by (simp add: kgdb_dmesg_def Let_def)
  moreover have "r < w \<Longrightarrow> dmesg_loop fuel read_byte bufp sz r w None [] =
      Inr (Some (b (w - 1)), map b [r..w - 1])"
    using dmesg_loop_reads [of r w read_byte bufp b sz fuel None "[]"] assms(6,9,10) w by auto
  ultimately show ?thesis using dmesg_loop_none [of r w fuel read_byte bufp sz None "[]"] by auto
qed

definition sample_msgbuf :: "c_string \<Rightarrow> addr" where
  "sample_msgbuf e =
     (if e = ''msgbufp->msg_ptr'' then 1000 else if e = ''msgbufp->msg_size'' then 8
      else if e = ''msgbufp->msg_bufr'' then 9 else 11)"

lemma kgdb_dmesg_correct_witness:
  "kgdb_dmesg 8 False sample_msgbuf (\<lambda>a. Some (CHR ''x'')) =
     Inr ([CHR 0x0A] @ ''Unread portion of the kernel message buffer:'' @ [CHR 0x0A] @ ''xx'' @
          [CHR 0x0A, CHR 0x0A])"
proof -
  have "[1..2] = [1, 2 :: int]" by (simp add: upto_rec1)
  then show ?thesis
    using kgdb_dmesg_correct [of sample_msgbuf 1000 8 1 3 "\<lambda>a. Some (CHR ''x'')" "\<lambda>i. CHR ''x''" 8]
    by (simp add: sample_msgbuf_def int_of_addr_def MSGBUF_SEQ_TO_POS_def)
qed

text \<open>\<open>kgdb kernel\<close> alone: with one operand and no option, \<open>main\<close> succeeds without a core file and
  without a device, and the hook for the first object file then tests a command that was never set.\<close>

theorem kgdb_bare_kernel:
  assumes "\<not> has_prefix ''-'' k"
  shows "\<exists>s. kgdb_main fs contents overlap getenv bootfile mem [prog, k] = Inr (k, s) \<and>
    kgdb_new_objfile (o_remote s) (o_vmcore s) True True = Inl (Undefined ''buf'')"
proof -
  have "short_option k = k"
    using assms by (simp add: short_option_def)
  moreover have "k \<noteq> ''--''" using assms by (auto simp: has_prefix_def)
  ultimately show ?thesis
    using assms by (simp add: kgdb_main_def start_session_def choose_files_def find_kernel_def
        kgdb_new_objfile_def add_arg_def)
qed

lemma kgdb_bare_kernel_witness:
  "\<exists>s. kgdb_main (\<lambda>_. None) (\<lambda>_. None) (\<lambda>l n. l) (\<lambda>_. None) ''/boot/kernel'' ''/dev/mem''
       [''kgdb'', ''mykernel''] = Inr (''mykernel'', s) \<and>
     kgdb_new_objfile (o_remote s) (o_vmcore s) True True = Inl (Undefined ''buf'')"
  using kgdb_bare_kernel [of "''mykernel''" "\<lambda>_. None" "\<lambda>_. None" "\<lambda>l n. l" "\<lambda>_. None"
      "''/boot/kernel''" "''/dev/mem''" "''kgdb''"]
  by (simp add: has_prefix_def)

text \<open>The line of the dump's info file that names the object directory: when the copy within the buffer
  comes out as written, the debug kernel is taken if it is a regular file, else the plain kernel of the
  directory; the cut for the latter is outside the 1024-byte buffer exactly when the directory's name
  has 1017 bytes or more.\<close>

theorem kernel_in_dir_correct:
  assumes "dir = drop (dir_offset line) line"
    and "overlap line (dir_offset line) = take (PATH_MAX - 1) (dir @ ''/kernel.debug'')"
  shows "kernel_in_dir fs overlap line =
     (if fs (take (PATH_MAX - 1) (dir @ ''/kernel.debug'')) = Some Reg
      then Inr (Some (take (PATH_MAX - 1) (dir @ ''/kernel.debug'')))
      else if 1017 \<le> length dir then Inl (Out_of_bounds (length dir + 7))
      else Inr (if fs (dir @ ''/kernel'') = Some Reg then Some (dir @ ''/kernel'') else None))"
proof -
  have "take (7 + length dir) (take (PATH_MAX - 1) (dir @ ''/kernel.debug'')) = dir @ ''/kernel''"
    if "length dir < 1017"
    using that by (simp add: PATH_MAX_def)
  moreover have "PATH_MAX \<le> 7 + length dir \<longleftrightarrow> 1017 \<le> length dir" by (simp add: PATH_MAX_def)
  moreover have "length dir + 13 - 6 = 7 + length dir" by simp
  ultimately show ?thesis
    unfolding kernel_in_dir_def Let_def assms(1) [symmetric] assms(2)
    by (cases "1017 \<le> length dir") (simp_all del: take_append take_take)
qed

lemma kernel_in_dir_correct_witness:
  "kernel_in_dir (\<lambda>p. if p = ''/o/kernel'' then Some Reg else None)
     (\<lambda>l n. take (PATH_MAX - 1) (drop n l @ ''/kernel.debug'')) ''    m:/o'' = Inr (Some ''/o/kernel'')"
proof -
  have "drop (dir_offset ''    m:/o'') ''    m:/o'' = ''/o''" by (simp add: dir_offset_def)
  then show ?thesis
    using kernel_in_dir_correct [of "''/o''" "''    m:/o''"
        "\<lambda>l n. take (PATH_MAX - 1) (drop n l @ ''/kernel.debug'')"
        "\<lambda>p. if p = ''/o/kernel'' then Some Reg else None"]
    by (simp add: PATH_MAX_def)
qed

end
