(* ===== verification/Loop_Kqueue.thy ===== *)
theory Loop_Kqueue
  imports Prelude
begin

text \<open>
  The interface between the event loop of \<^verbatim>\<open>wayland/dragonfly/patch-src_event-loop.c\<close> and the
  kernel: what \<open>kevent(2)\<close> promises about one change, and about a list of them.

  The kernel's side is a parameter: \<open>kev\<close> carries out one change, \<open>knote\<close> is what is registered for a
  filter and an ident.  The locale \<open>kqueue\<close> states the documented behaviour, and the interpretation at
  the end shows that a table of knotes has it.
\<close>

datatype filt = EVFILT_READ | EVFILT_WRITE | EVFILT_TIMER | EVFILT_SIGNAL

text \<open>What the code puts into \<open>udata\<close>: a source, or the loop's heap of timers.\<close>

datatype udata = Source nat | Timer_heap

record kchange =
  kc_ident :: int
  kc_filter :: filt
  kc_delete :: bool
  kc_enable :: bool
  kc_oneshot :: bool
  kc_data :: int
  kc_udata :: udata

record knote_rec =
  kn_enabled :: bool
  kn_oneshot :: bool
  kn_data :: int
  kn_udata :: udata

type_synonym kkey = "filt \<times> int"

definition kkey_of :: "kchange \<Rightarrow> kkey" where
  "kkey_of c = (kc_filter c, kc_ident c)"

definition knote_of :: "kchange \<Rightarrow> knote_rec" where
  "knote_of c =
     \<lparr>kn_enabled = kc_enable c, kn_oneshot = kc_oneshot c, kn_data = kc_data c, kn_udata = kc_udata c\<rparr>"

text \<open>\<open>EV_SET\<close> with \<open>EV_ADD\<close> and with \<open>EV_DELETE\<close>.\<close>

definition ev_add :: "int \<Rightarrow> filt \<Rightarrow> bool \<Rightarrow> bool \<Rightarrow> int \<Rightarrow> udata \<Rightarrow> kchange" where
  "ev_add i f enable oneshot d u =
     \<lparr>kc_ident = i, kc_filter = f, kc_delete = False, kc_enable = enable, kc_oneshot = oneshot,
      kc_data = d, kc_udata = u\<rparr>"

definition ev_delete :: "int \<Rightarrow> filt \<Rightarrow> udata \<Rightarrow> kchange" where
  "ev_delete i f u =
     \<lparr>kc_ident = i, kc_filter = f, kc_delete = True, kc_enable = False, kc_oneshot = False,
      kc_data = 0, kc_udata = u\<rparr>"

lemma ev_add_simps [simp]:
  "kc_delete (ev_add i f e os d u) = False" "kkey_of (ev_add i f e os d u) = (f, i)"
  "knote_of (ev_add i f e os d u) = \<lparr>kn_enabled = e, kn_oneshot = os, kn_data = d, kn_udata = u\<rparr>"
  by (simp_all add: ev_add_def kkey_of_def knote_of_def)

lemma ev_delete_simps [simp]:
  "kc_delete (ev_delete i f u)" "kkey_of (ev_delete i f u) = (f, i)"
  by (simp_all add: ev_delete_def kkey_of_def)

text \<open>A change list is processed in order; without room for events the first error ends the call.\<close>

fun kevent :: "('q \<Rightarrow> kchange \<Rightarrow> 'q \<times> int) \<Rightarrow> 'q \<Rightarrow> kchange list \<Rightarrow> 'q \<times> int" where
  "kevent kev q [] = (q, 0)"
| "kevent kev q (c # cs) =
     (case kev q c of (q, r) \<Rightarrow> if r < 0 then (q, - 1) else kevent kev q cs)"

locale kqueue =
  fixes kev :: "'q \<Rightarrow> kchange \<Rightarrow> 'q \<times> int"
    and knote :: "'q \<Rightarrow> kkey \<Rightarrow> knote_rec option"
    and kclose :: "'q \<Rightarrow> int \<Rightarrow> 'q"
  assumes kev_add: "\<not> kc_delete c \<Longrightarrow> kev q c = (q', r) \<Longrightarrow> 0 \<le> r \<Longrightarrow>
      knote q' = (knote q)(kkey_of c \<mapsto> knote_of c)"
    and kev_update: "\<not> kc_delete c \<Longrightarrow> knote q (kkey_of c) \<noteq> None \<Longrightarrow> 0 \<le> snd (kev q c)"
    and kev_delete: "kc_delete c \<Longrightarrow> kev q c = (q', r) \<Longrightarrow> 0 \<le> r \<Longrightarrow>
      knote q' = (knote q)(kkey_of c := None)"
    and kev_delete_iff: "kc_delete c \<Longrightarrow> 0 \<le> snd (kev q c) \<longleftrightarrow> knote q (kkey_of c) \<noteq> None"
    and kev_error: "kev q c = (q', r) \<Longrightarrow> r < 0 \<Longrightarrow> knote q' = knote q"
    and kev_close: "knote (kclose q fd) k =
      (if k = (EVFILT_READ, fd) \<or> k = (EVFILT_WRITE, fd) then None else knote q k)"
begin

text \<open>A call touches the keys of its changes only.\<close>

lemma kev_other: "kev q c = (q', r) \<Longrightarrow> k \<noteq> kkey_of c \<Longrightarrow> knote q' k = knote q k"
  using kev_add [of c q q' r] kev_delete [of c q q' r] kev_error [of q c q' r]
  by (cases "r < 0"; cases "kc_delete c") auto

lemma kevent_other:
  "kevent kev q cs = (q', r) \<Longrightarrow> k \<notin> kkey_of ` set cs \<Longrightarrow> knote q' k = knote q k"
proof (induction cs arbitrary: q)
  case (Cons c cs)
  obtain q1 r1 where q1: "kev q c = (q1, r1)" by fastforce
  have "knote q1 k = knote q k" using kev_other [OF q1] Cons.prems by simp
  then show ?case using Cons q1 by (auto split: if_splits)
qed simp

text \<open>A successful list of registrations for different keys leaves a knote for each.\<close>

lemma kevent_adds:
  "kevent kev q cs = (q', r) \<Longrightarrow> 0 \<le> r \<Longrightarrow> \<forall>c\<in>set cs. \<not> kc_delete c \<Longrightarrow> distinct (map kkey_of cs) \<Longrightarrow>
   c \<in> set cs \<Longrightarrow> knote q' (kkey_of c) = Some (knote_of c)"
proof (induction cs arbitrary: q)
  case (Cons d cs)
  obtain q1 r1 where q1: "kev q d = (q1, r1)" by fastforce
  with Cons.prems have r1: "0 \<le> r1" "kevent kev q1 cs = (q', r)" by (auto split: if_splits)
  show ?case
  proof (cases "c = d")
    case True
    then have "kkey_of c \<notin> kkey_of ` set cs" using Cons.prems(4) by auto
    then have "knote q' (kkey_of c) = knote q1 (kkey_of c)" using kevent_other [OF r1(2)] by blast
    then show ?thesis using kev_add [OF _ q1 r1(1)] Cons.prems(3) True by simp
  next
    case False
    then show ?thesis using Cons.IH [OF r1(2)] Cons.prems by simp
  qed
qed simp

end

section \<open>A table of knotes is a kqueue\<close>

type_synonym ktable = "kkey \<Rightarrow> knote_rec option"

definition table_kev :: "ktable \<Rightarrow> kchange \<Rightarrow> ktable \<times> int" where
  "table_kev q c =
     (if kc_delete c then
        (if q (kkey_of c) = None then (q, - 1) else (q(kkey_of c := None), 0))
      else (q(kkey_of c \<mapsto> knote_of c), 0))"

definition table_close :: "ktable \<Rightarrow> int \<Rightarrow> ktable" where
  "table_close q fd = q((EVFILT_READ, fd) := None, (EVFILT_WRITE, fd) := None)"

interpretation table: kqueue table_kev "\<lambda>q. q" table_close
  by unfold_locales (auto simp: table_kev_def table_close_def split: if_splits)

end
