(* ===== verification/Loop_Timers.thy ===== *)
theory Loop_Timers
  imports Loop_Kqueue
begin

text \<open>
  The timers of \<^verbatim>\<open>wayland/dragonfly/patch-src_event-loop.c\<close>: one kernel timer stands for the
  earliest deadline of the loop's heap.

  The patch does not show the heap's own operations nor \<open>time_lt\<close>; they are parameters.  Times are
  unbounded integers.
\<close>

record timespec =
  tv_sec :: int
  tv_nsec :: int

definition nanos :: "timespec \<Rightarrow> int" where
  "nanos t = tv_sec t * 1000000000 + tv_nsec t"

definition normal :: "timespec \<Rightarrow> bool" where
  "normal t \<longleftrightarrow> 0 \<le> tv_nsec t \<and> tv_nsec t < 1000000000"

definition exact_lt :: "(timespec \<Rightarrow> timespec \<Rightarrow> bool) \<Rightarrow> bool" where
  "exact_lt lt \<longleftrightarrow> (\<forall>a b. normal a \<longrightarrow> normal b \<longrightarrow> lt a b = (nanos a < nanos b))"

section \<open>Arming and disarming the kernel's timer\<close>

text \<open>The interval in milliseconds that \<open>set_timer\<close> asks for.\<close>

definition rel_deadline :: "timespec \<Rightarrow> timespec \<Rightarrow> int" where
  "rel_deadline now deadline =
     (let diff_sec = tv_sec deadline - tv_sec now;
          diff_nsec = tv_nsec deadline - tv_nsec now;
          (diff_sec, diff_nsec) =
            (if diff_nsec < 0 then (diff_sec - 1, diff_nsec + 1000000000) else (diff_sec, diff_nsec));
          rel = diff_sec * 1000 + diff_nsec div 1000000
      in if 499999 < diff_nsec mod 1000000 then rel + 1 else rel)"

text \<open>\<open>clock\<close> is what \<open>clock_gettime\<close> gives at this point.\<close>

definition set_timer ::
  "('q \<Rightarrow> kchange \<Rightarrow> 'q \<times> int) \<Rightarrow> (timespec \<Rightarrow> timespec \<Rightarrow> bool) \<Rightarrow> timespec option \<Rightarrow>
   int \<Rightarrow> timespec \<Rightarrow> 'q \<Rightarrow> 'q \<times> int"
where
  "set_timer kev time_lt clock timerfd deadline q =
     (case clock of
        None \<Rightarrow> (q, - 1)
      | Some now \<Rightarrow>
          if \<not> time_lt now deadline then (q, - 1)
          else kevent kev q
                 [ev_add timerfd EVFILT_TIMER True True (rel_deadline now deadline) Timer_heap])"

definition clear_timer :: "('q \<Rightarrow> kchange \<Rightarrow> 'q \<times> int) \<Rightarrow> int \<Rightarrow> 'q \<Rightarrow> 'q \<times> int" where
  "clear_timer kev timerfd q =
     kevent kev q [ev_add timerfd EVFILT_TIMER False False 0 Timer_heap]"

definition WL_TIMER_KQUEUE_IDENT :: int where
  "WL_TIMER_KQUEUE_IDENT = 1"

text \<open>The result is the return value, the new \<open>timers->base.fd\<close> and the queue.\<close>

definition wl_timer_heap_ensure_timerfd ::
  "('q \<Rightarrow> kchange \<Rightarrow> 'q \<times> int) \<Rightarrow> int \<Rightarrow> 'q \<Rightarrow> int \<times> int \<times> 'q"
where
  "wl_timer_heap_ensure_timerfd kev fd q =
     (if fd \<noteq> - 1 then (0, fd, q)
      else (case kevent kev q [ev_add WL_TIMER_KQUEUE_IDENT EVFILT_TIMER False True 0 Timer_heap] of
              (q, r) \<Rightarrow> if r < 0 then (- 1, fd, q) else (0, WL_TIMER_KQUEUE_IDENT, q)))"

section \<open>The heap\<close>

record timer =
  tm_source :: nat
  tm_deadline :: timespec

record 'h heap_ops =
  hp_active :: "'h \<Rightarrow> nat"
  hp_root :: "'h \<Rightarrow> timer"
  hp_disarm_root :: "'h \<Rightarrow> 'h"

text \<open>The loop that takes the due timers off the heap, the root always first; \<open>now\<close> was read before.
  Each turn disarms one timer, so \<open>fuel\<close> is the number of active timers.\<close>

fun take_due ::
  "nat \<Rightarrow> 'h heap_ops \<Rightarrow> (timespec \<Rightarrow> timespec \<Rightarrow> bool) \<Rightarrow> timespec \<Rightarrow> bool \<Rightarrow> 'h \<Rightarrow> timer list option \<times> 'h"
where
  "take_due fuel ops time_lt now root_due h =
     (if hp_active ops h = 0 then (Some [], h)
      else if \<not> root_due \<and> time_lt now (tm_deadline (hp_root ops h)) then (Some [], h)
      else (case fuel of
              0 \<Rightarrow> (None, h)
            | Suc fuel \<Rightarrow>
                (case take_due fuel ops time_lt now False (hp_disarm_root ops h) of
                   (ts, h') \<Rightarrow> (map_option (\<lambda>ts. hp_root ops h # ts) ts, h'))))"

declare take_due.simps [simp del]

text \<open>\<open>wl_timer_heap_dispatch\<close> up to the point where the due timers' functions are called: \<open>Inl\<close> is its
  return with \<open>-1\<close>, \<open>Inr\<close> the timers to call, in order.  \<open>clock\<close> is the second reading of the clock, by
  \<open>set_timer\<close>.\<close>

definition wl_timer_heap_dispatch ::
  "('q \<Rightarrow> kchange \<Rightarrow> 'q \<times> int) \<Rightarrow> 'h heap_ops \<Rightarrow> (timespec \<Rightarrow> timespec \<Rightarrow> bool) \<Rightarrow> timespec \<Rightarrow>
   timespec option \<Rightarrow> int \<Rightarrow> 'h \<Rightarrow> 'q \<Rightarrow> (int + timer list) \<times> 'h \<times> 'q"
where
  "wl_timer_heap_dispatch kev ops time_lt now clock fd h q =
     (case take_due (hp_active ops h) ops time_lt now True h of
        (None, h) \<Rightarrow> (Inl (- 1), h, q)
      | (Some due, h) \<Rightarrow>
          (case (if 0 < hp_active ops h
                 then set_timer kev time_lt clock fd (tm_deadline (hp_root ops h)) q
                 else clear_timer kev fd q) of
             (q, r) \<Rightarrow> if r < 0 then (Inl (- 1), h, q) else (Inr due, h, q)))"

text \<open>The end of \<open>wl_event_source_timer_update\<close>: after a timer was armed, the kernel's timer follows the
  heap's root if the timer is that root; after one was disarmed, it is cleared if none is left.\<close>

definition timer_update_kernel ::
  "('q \<Rightarrow> kchange \<Rightarrow> 'q \<times> int) \<Rightarrow> 'h heap_ops \<Rightarrow> (timespec \<Rightarrow> timespec \<Rightarrow> bool) \<Rightarrow> timespec option \<Rightarrow>
   int \<Rightarrow> bool \<Rightarrow> nat \<Rightarrow> 'h \<Rightarrow> 'q \<Rightarrow> 'q \<times> int"
where
  "timer_update_kernel kev ops time_lt clock fd armed heap_idx h q =
     (if armed then
        (if heap_idx = 0 then
           (case set_timer kev time_lt clock fd (tm_deadline (hp_root ops h)) q of
              (q, r) \<Rightarrow> if r < 0 then (q, - 1) else (q, 0))
         else (q, 0))
      else
        (if hp_active ops h = 0 then
           (case clear_timer kev fd q of (q, r) \<Rightarrow> if r < 0 then (q, - 1) else (q, 0))
         else (q, 0)))"

section \<open>The interval\<close>

lemma rel_deadline_eq:
  assumes "normal now" and "normal deadline"
  shows "rel_deadline now deadline = (nanos deadline - nanos now + 500000) div 1000000"
proof -
  define s where "s = tv_sec deadline - tv_sec now"
  define n where "n = tv_nsec deadline - tv_nsec now"
  define s' where "s' = (if n < 0 then s - 1 else s)"
  define n' where "n' = (if n < 0 then n + 1000000000 else n)"
  define m where "m = n' mod 1000000"
  define d where "d = n' div 1000000"
  have n': "n' = d * 1000000 + m" "0 \<le> m" "m < 1000000"
    by (simp_all add: m_def d_def)
  have e: "nanos deadline - nanos now = s' * 1000000000 + n'"
    by (simp add: nanos_def s'_def n'_def s_def n_def algebra_simps)
  have "rel_deadline now deadline = (if 499999 < m then s' * 1000 + d + 1 else s' * 1000 + d)"
    by (simp add: rel_deadline_def Let_def s'_def n'_def s_def n_def m_def d_def)
  moreover have "nanos deadline - nanos now + 500000 = (s' * 1000 + d) * 1000000 + (m + 500000)"
    using e n' by simp
  then have "(nanos deadline - nanos now + 500000) div 1000000 =
      s' * 1000 + d + (m + 500000) div 1000000"
    by (simp only: div_mult_self3 [of "1000000"])
  moreover have "(m + 500000) div 1000000 = (if 499999 < m then 1 else 0)"
    using n' int_div_pos_eq [of "m + 500000" 1000000 1 "m - 500000"] by (simp add: div_pos_pos_trivial)
  ultimately show ?thesis by simp
qed

context kqueue
begin

lemma set_timer_registers:
  assumes "exact_lt lt" and "normal now" and "normal deadline" and "nanos now < nanos deadline"
    and "set_timer kev lt (Some now) fd deadline q = (q', r)" and "0 \<le> r"
  shows "knote q' (EVFILT_TIMER, fd) =
     Some \<lparr>kn_enabled = True, kn_oneshot = True,
           kn_data = (nanos deadline - nanos now + 500000) div 1000000, kn_udata = Timer_heap\<rparr>"
proof -
  let ?c = "ev_add fd EVFILT_TIMER True True (rel_deadline now deadline) Timer_heap"
  have "kevent kev q [?c] = (q', r)"
    using assms by (simp add: set_timer_def exact_lt_def)
  from kevent_adds [OF this assms(6), of ?c] show ?thesis
    using rel_deadline_eq [OF assms(2,3)] by simp
qed

lemma set_timer_late:
  assumes "exact_lt lt" and "normal now" and "normal deadline" and "nanos deadline \<le> nanos now"
  shows "set_timer kev lt (Some now) fd deadline q = (q, - 1)"
  using assms by (simp add: set_timer_def exact_lt_def)

end

section \<open>The due timers\<close>

text \<open>What the heap promises: \<open>mset_of\<close> are its active timers, the root is one with the earliest
  deadline, and disarming it removes it.\<close>

definition heap_ok :: "'h heap_ops \<Rightarrow> ('h \<Rightarrow> timer multiset) \<Rightarrow> bool" where
  "heap_ok ops ms \<longleftrightarrow>
     (\<forall>h. hp_active ops h = size (ms h)) \<and>
     (\<forall>h. 0 < hp_active ops h \<longrightarrow> hp_root ops h \<in># ms h) \<and>
     (\<forall>h t. t \<in># ms h \<longrightarrow> nanos (tm_deadline (hp_root ops h)) \<le> nanos (tm_deadline t)) \<and>
     (\<forall>h. 0 < hp_active ops h \<longrightarrow> ms (hp_disarm_root ops h) = ms h - {#hp_root ops h#})"

lemma heap_okD:
  assumes "heap_ok ops ms"
  shows "hp_active ops h = size (ms h)"
    and "ms h \<noteq> {#} \<Longrightarrow> hp_root ops h \<in># ms h"
    and "t \<in># ms h \<Longrightarrow> nanos (tm_deadline (hp_root ops h)) \<le> nanos (tm_deadline t)"
    and "ms h \<noteq> {#} \<Longrightarrow> ms (hp_disarm_root ops h) = ms h - {#hp_root ops h#}"
  using assms unfolding heap_ok_def by (simp_all add: nonempty_has_size)

definition late :: "timespec \<Rightarrow> timer \<Rightarrow> bool" where
  "late now t \<longleftrightarrow> nanos (tm_deadline t) \<le> nanos now"

text \<open>What \<open>take_due\<close> gives: the due timers and, where \<open>root_due\<close> holds, the root; what is left is not
  yet due.\<close>

definition due_result :: "timer multiset \<Rightarrow> timespec \<Rightarrow> timer list \<Rightarrow> timer multiset \<Rightarrow> bool" where
  "due_result before now ts after \<longleftrightarrow>
     before = mset ts + after \<and> (\<forall>t\<in>#after. \<not> late now t) \<and>
     sorted (map (\<lambda>t. nanos (tm_deadline t)) ts)"

lemma take_due_ok:
  assumes "heap_ok ops ms" and "exact_lt lt" and "normal now"
    and "\<forall>t\<in>#ms h. normal (tm_deadline t)" and "size (ms h) \<le> fuel"
  shows "\<exists>ts h'. take_due fuel ops lt now root_due h = (Some ts, h') \<and> due_result (ms h) now ts (ms h') \<and>
    (\<forall>t\<in>set (if root_due then tl ts else ts). late now t) \<and>
    (root_due \<and> ms h \<noteq> {#} \<longrightarrow> ts \<noteq> [] \<and> hd ts = hp_root ops h)"
  using assms(4,5)
proof (induction "size (ms h)" arbitrary: h fuel root_due)
  case 0
  then show ?case
    using heap_okD(1) [OF assms(1), of h] by (simp add: take_due.simps [of fuel] due_result_def)
next
  case (Suc n)
  let ?r = "hp_root ops h"
  note hp = heap_okD [OF assms(1)]
  have ne: "ms h \<noteq> {#}" using Suc.hyps by auto
  obtain m where m: "fuel = Suc m" using Suc.hyps Suc.prems by (cases fuel) auto
  have r: "?r \<in># ms h" "ms (hp_disarm_root ops h) = ms h - {#?r#}" "normal (tm_deadline ?r)"
    using hp(2,4) [OF ne] Suc.prems(1) by auto
  show ?case
  proof (cases "\<not> root_due \<and> lt now (tm_deadline ?r)")
    case True
    then have "nanos now < nanos (tm_deadline ?r)"
      using assms(2,3) r(3) by (simp add: exact_lt_def)
    then have "\<forall>t\<in>#ms h. \<not> late now t" using hp(3) by (fastforce simp: late_def)
    then show ?thesis
      using True hp(1) [of h] Suc.hyps by (simp add: take_due.simps [of fuel] due_result_def)
  next
    case False
    let ?d = "hp_disarm_root ops h"
    have s: "n = size (ms ?d)" "size (ms ?d) \<le> m"
      using r Suc.hyps Suc.prems m by (simp_all add: size_Diff_singleton)
    have nd: "\<forall>t\<in>#ms ?d. normal (tm_deadline t)" using Suc.prems(1) r(2) by (auto dest: in_diffD)
    obtain ts h' where IH: "take_due m ops lt now False ?d = (Some ts, h')"
      "due_result (ms ?d) now ts (ms h')" "\<forall>t\<in>set ts. late now t"
      using Suc.hyps(1) [OF s(1) nd s(2), of False] by auto
    have "take_due fuel ops lt now root_due h = (Some (?r # ts), h')"
      using False IH(1) hp(1) [of h] ne m by (auto simp: take_due.simps [of "Suc m"])
    moreover have "due_result (ms h) now (?r # ts) (ms h')"
    proof -
      have "ms h = add_mset ?r (ms ?d)" using r by simp
      moreover have "t \<in># ms h" if "t \<in> set ts" for t
      proof -
        have "t \<in># ms ?d" using that IH(2) by (simp add: due_result_def)
        then show ?thesis unfolding r(2) by (rule in_diffD)
      qed
      then have "\<forall>t\<in>set ts. nanos (tm_deadline ?r) \<le> nanos (tm_deadline t)" using hp(3) by blast
      ultimately show ?thesis using IH(2) by (auto simp: due_result_def)
    qed
    moreover have "\<not> root_due \<Longrightarrow> late now ?r"
      using False assms(2,3) r(3) by (auto simp: exact_lt_def late_def)
    ultimately show ?thesis using IH(3) by auto
  qed
qed

text \<open>The registration that the loop needs for what is left in the heap, if any is possible: a disabled
  timer when nothing is left, else one for the time that is left to the next deadline.\<close>

definition wanted_timer :: "timespec option \<Rightarrow> int \<Rightarrow> bool \<Rightarrow> timespec \<Rightarrow> kchange option" where
  "wanted_timer clock fd none_left deadline =
     (if none_left then Some (ev_add fd EVFILT_TIMER False False 0 Timer_heap)
      else (case clock of
              None \<Rightarrow> None
            | Some now \<Rightarrow>
                if nanos now < nanos deadline
                then Some (ev_add fd EVFILT_TIMER True True
                       ((nanos deadline - nanos now + 500000) div 1000000) Timer_heap)
                else None))"

lemma timer_call_eq:
  assumes "exact_lt lt" "\<forall>now. clock = Some now \<longrightarrow> normal now" "normal deadline"
  shows "set_timer kev lt clock fd deadline q =
     (case wanted_timer clock fd False deadline of None \<Rightarrow> (q, - 1) | Some c \<Rightarrow> kevent kev q [c])"
  using assms
  by (auto simp: set_timer_def wanted_timer_def exact_lt_def rel_deadline_eq split: option.splits)

lemma wanted_timer_call:
  assumes "kqueue kev knote kclose" "wanted_timer clock fd none_left deadline = Some c"
  shows "snd (kevent kev q [c]) < 0 \<longleftrightarrow> snd (kev q c) < 0"
    and "0 \<le> snd (kev q c) \<Longrightarrow> knote (fst (kevent kev q [c])) = (knote q)((EVFILT_TIMER, fd) \<mapsto> knote_of c)"
    and "snd (kev q c) < 0 \<Longrightarrow> knote (fst (kevent kev q [c])) = knote q"
proof -
  obtain q1 r1 where k: "kev q c = (q1, r1)" by fastforce
  have c: "\<not> kc_delete c" "kkey_of c = (EVFILT_TIMER, fd)"
    using assms(2) by (auto simp: wanted_timer_def split: if_splits option.splits)
  show "snd (kevent kev q [c]) < 0 \<longleftrightarrow> snd (kev q c) < 0" by (simp add: k)
  show "0 \<le> snd (kev q c) \<Longrightarrow> knote (fst (kevent kev q [c])) = (knote q)((EVFILT_TIMER, fd) \<mapsto> knote_of c)"
    using kqueue.kev_add [OF assms(1) c(1) k] c(2) by (simp add: k)
  show "snd (kev q c) < 0 \<Longrightarrow> knote (fst (kevent kev q [c])) = knote q"
    using kqueue.kev_error [OF assms(1) k] by (simp add: k)
qed

section \<open>Properties\<close>

text \<open>Arming: with the deadline ahead of the clock, a \<open>set_timer\<close> that succeeds leaves the one-shot
  kernel timer of the loop enabled for the time to the deadline, rounded to the nearest millisecond;
  with a deadline that is not ahead it registers nothing and fails.\<close>

theorem set_timer_correct:
  assumes "kqueue kev knote kclose" and "exact_lt lt" and "normal now" and "normal deadline"
  shows "(nanos now < nanos deadline \<longrightarrow> set_timer kev lt (Some now) fd deadline q = (q', r) \<longrightarrow> 0 \<le> r \<longrightarrow>
           knote q' (EVFILT_TIMER, fd) =
             Some \<lparr>kn_enabled = True, kn_oneshot = True,
                   kn_data = (nanos deadline - nanos now + 500000) div 1000000, kn_udata = Timer_heap\<rparr>) \<and>
         (nanos deadline \<le> nanos now \<longrightarrow> set_timer kev lt (Some now) fd deadline q = (q, - 1))"
  using kqueue.set_timer_registers [OF assms] kqueue.set_timer_late [OF assms] by blast

definition at :: "int \<Rightarrow> int \<Rightarrow> timespec" where
  "at s n = \<lparr>tv_sec = s, tv_nsec = n\<rparr>"

definition nanos_lt :: "timespec \<Rightarrow> timespec \<Rightarrow> bool" where
  "nanos_lt a b \<longleftrightarrow> nanos a < nanos b"

lemma exact_nanos_lt: "exact_lt nanos_lt"
  by (simp add: exact_lt_def nanos_lt_def)

lemma set_timer_correct_witness:
  "fst (set_timer table_kev nanos_lt (Some (at 5 900000000)) 1 (at 7 1500000) Map.empty) (EVFILT_TIMER, 1) =
     Some \<lparr>kn_enabled = True, kn_oneshot = True, kn_data = 1102, kn_udata = Timer_heap\<rparr>"
proof -
  obtain q r where s:
    "set_timer table_kev nanos_lt (Some (at 5 900000000)) 1 (at 7 1500000) Map.empty = (q, r)" "0 \<le> r"
    by (simp add: set_timer_def table_kev_def nanos_lt_def at_def nanos_def)
  then show ?thesis
    using set_timer_correct [OF table.kqueue_axioms exact_nanos_lt, of "at 5 900000000" "at 7 1500000"
        1 Map.empty q r]
    by (simp add: normal_def at_def nanos_def)
qed

text \<open>C11: \<open>wl_timer_heap_dispatch\<close> takes off the heap, in the order of their deadlines, the root and
  exactly those others whose deadline has been reached, so that every timer still in the heap lies ahead
  of the clock.  It hands them out exactly when the kernel's timer can be set for what is left: with an
  empty heap when the kernel takes the disabled timer, else when the clock can be read again, the next
  deadline still lies ahead of that reading, and the kernel takes the timer; the kernel's timer of the
  loop is then disabled, or enabled, one-shot, for the time to the next deadline rounded to the nearest
  millisecond.  In every other case, also when the next deadline is reached between the two readings of
  the clock, it returns -1 with the due timers already off the heap, which are then never called, and
  the kernel's timers as they were.\<close>

theorem wl_timer_heap_dispatch_correct:
  assumes "kqueue kev knote kclose" and "heap_ok ops ms" and "exact_lt lt" and "normal now"
    and "\<forall>now'. clock = Some now' \<longrightarrow> normal now'" and "\<forall>t\<in>#ms h. normal (tm_deadline t)"
    and "ms h \<noteq> {#}" and "wl_timer_heap_dispatch kev ops lt now clock fd h q = (res, h', q')"
  shows "\<exists>ts. due_result (ms h) now ts (ms h') \<and> ts \<noteq> [] \<and> hd ts = hp_root ops h \<and>
     (\<forall>t\<in>set (tl ts). late now t) \<and>
     (case wanted_timer clock fd (ms h' = {#}) (tm_deadline (hp_root ops h')) of
        None \<Rightarrow> res = Inl (- 1) \<and> q' = q
      | Some c \<Rightarrow>
          if 0 \<le> snd (kev q c)
          then res = Inr ts \<and> knote q' = (knote q)((EVFILT_TIMER, fd) \<mapsto> knote_of c)
          else res = Inl (- 1) \<and> knote q' = knote q)"
proof -
  note hp = heap_okD [OF assms(2)]
  obtain ts h1 where t: "take_due (hp_active ops h) ops lt now True h = (Some ts, h1)"
    "due_result (ms h) now ts (ms h1)" "\<forall>t\<in>set (tl ts). late now t" "ts \<noteq> []" "hd ts = hp_root ops h"
    using take_due_ok [OF assms(2-4,6), of "hp_active ops h" True] hp(1) [of h] assms(7) by auto
  define set where "set = (if 0 < hp_active ops h1
     then set_timer kev lt clock fd (tm_deadline (hp_root ops h1)) q else clear_timer kev fd q)"
  have w: "wl_timer_heap_dispatch kev ops lt now clock fd h q =
      (if snd set < 0 then (Inl (- 1), h1, fst set) else (Inr ts, h1, fst set))"
    by (simp add: wl_timer_heap_dispatch_def t(1) set_def split: prod.splits)
  then have h': "h' = h1" "q' = fst set" "res = (if snd set < 0 then Inl (- 1) else Inr ts)"
    using assms(8) by (auto split: if_splits)
  have "normal (tm_deadline (hp_root ops h1))" if "ms h1 \<noteq> {#}"
    using t(2) hp(2) [OF that] assms(6) by (auto simp: due_result_def)
  then have "set = (case wanted_timer clock fd (ms h1 = {#}) (tm_deadline (hp_root ops h1)) of
      None \<Rightarrow> (q, - 1) | Some c \<Rightarrow> kevent kev q [c])"
    using timer_call_eq [OF assms(3,5), of _ kev fd q] hp(1) [of h1]
    by (auto simp: set_def nonempty_has_size clear_timer_def wanted_timer_def)
  then show ?thesis
    using t h' wanted_timer_call [OF assms(1)]
    by (intro exI [of _ ts]) (fastforce split: option.splits)
qed

text \<open>A heap for the witness: a list that is sorted when its root is asked for.\<close>

definition deadline_key :: "timer \<Rightarrow> int" where
  "deadline_key t = nanos (tm_deadline t)"

definition list_heap :: "timer list heap_ops" where
  "list_heap =
     \<lparr>hp_active = length, hp_root = (\<lambda>h. hd (sort_key deadline_key h)),
      hp_disarm_root = (\<lambda>h. tl (sort_key deadline_key h))\<rparr>"

lemma list_heap_ok: "heap_ok list_heap mset"
  unfolding heap_ok_def
proof (intro conjI allI impI)
  fix h :: "timer list" and t
  let ?s = "sort_key deadline_key h"
  show "hp_active list_heap h = size (mset h)" by (simp add: list_heap_def)
  {
    assume "0 < hp_active list_heap h"
    then obtain x xs where s: "?s = x # xs"
      by (cases ?s) (auto simp: list_heap_def dest: arg_cong [of _ _ length])
    then have m: "mset h = add_mset x (mset xs)" by (metis mset_sort mset.simps(2))
    show "hp_root list_heap h \<in># mset h"
      and "mset (hp_disarm_root list_heap h) = mset h - {#hp_root list_heap h#}"
      using s m by (simp_all add: list_heap_def)
  }
  assume "t \<in># mset h"
  then have "t \<in> set ?s" by simp
  then obtain x xs where s: "?s = x # xs" by (cases ?s) auto
  have "sorted (map deadline_key ?s)" by simp
  then show "nanos (tm_deadline (hp_root list_heap h)) \<le> nanos (tm_deadline t)"
    using s \<open>t \<in> set ?s\<close> by (auto simp: list_heap_def simp flip: deadline_key_def)
qed

definition sample_timers :: "timer list" where
  "sample_timers = [\<lparr>tm_source = 1, tm_deadline = at 9 0\<rparr>, \<lparr>tm_source = 2, tm_deadline = at 3 0\<rparr>]"

lemma wl_timer_heap_dispatch_correct_witness:
  "\<exists>h' q'. wl_timer_heap_dispatch table_kev list_heap nanos_lt (at 4 0) (Some (at 4 1700000)) 1 sample_timers
      Map.empty = (Inr [\<lparr>tm_source = 2, tm_deadline = at 3 0\<rparr>], h', q') \<and>
    q' (EVFILT_TIMER, 1) =
      Some \<lparr>kn_enabled = True, kn_oneshot = True, kn_data = 4998, kn_udata = Timer_heap\<rparr>"
proof -
  obtain res h' q' where w: "wl_timer_heap_dispatch table_kev list_heap nanos_lt (at 4 0)
      (Some (at 4 1700000)) 1 sample_timers Map.empty = (res, h', q')"
    using prod_cases3 by blast
  have n: "normal (at 4 0)" "\<forall>now. Some (at 4 1700000) = Some now \<longrightarrow> normal now"
    "\<forall>t\<in>#mset sample_timers. normal (tm_deadline t)" "mset sample_timers \<noteq> {#}"
    by (auto simp: sample_timers_def normal_def at_def)
  have h': "h' = [\<lparr>tm_source = 1, tm_deadline = at 9 0\<rparr>]"
    using w by (auto simp: wl_timer_heap_dispatch_def take_due.simps list_heap_def sample_timers_def
        deadline_key_def nanos_def at_def nanos_lt_def set_timer_def split: prod.splits if_splits)
  have c: "wanted_timer (Some (at 4 1700000)) 1 (mset h' = {#}) (tm_deadline (hp_root list_heap h')) =
      Some (ev_add 1 EVFILT_TIMER True True 4998 Timer_heap)"
    by (simp add: h' wanted_timer_def list_heap_def nanos_def at_def)
  obtain ts where "due_result (mset sample_timers) (at 4 0) ts (mset h')" "res = Inr ts"
      "q' = Map.empty((EVFILT_TIMER, 1) \<mapsto> knote_of (ev_add 1 EVFILT_TIMER True True 4998 Timer_heap))"
    using wl_timer_heap_dispatch_correct [OF table.kqueue_axioms list_heap_ok exact_nanos_lt n w] c
    by (auto simp: table_kev_def)
  moreover from this have "mset ts = {#\<lparr>tm_source = 2, tm_deadline = at 3 0\<rparr>#}"
    by (auto simp: due_result_def sample_timers_def h')
  ultimately show ?thesis using w by simp
qed

end
