(* ===== verification/Loop_Sources.thy ===== *)
theory Loop_Sources
  imports Loop_Timers "HOL-Library.Sublist"
begin

unbundle bit_operations_syntax

text \<open>
  The event sources of \<^verbatim>\<open>wayland/dragonfly/patch-src_event-loop.c\<close>: file descriptors and signals,
  their knotes, their removal, and one round of dispatching.

  A source is a number.  \<open>kev\<close>, \<open>kclose\<close> are the kernel's side, the users' callbacks and what the patch
  does not show of the timers are parameters.
\<close>

section \<open>The loop\<close>

datatype source_kind = Fd_source | Timer_source | Signal_source

text \<open>\<open>s_fd\<close> is the source's \<open>fd\<close> field (the duplicate of the user's descriptor, \<open>0\<close> for a signal),
  \<open>s_user\<close> the user's descriptor, \<open>s_signo\<close> the signal's number.\<close>

record src =
  s_kind :: source_kind
  s_fd :: int
  s_user :: int
  s_signo :: int

record ('q, 'h) loop =
  kq :: 'q
  srcs :: "nat \<Rightarrow> src option"
  signal_list :: "nat list"
  check_list :: "nat list"
  timers :: 'h
  timers_fd :: int
  blocked :: "int set"

record event_mask =
  ev_readable :: bool
  ev_writable :: bool
  ev_hangup :: bool
  ev_error :: bool

record kernel_event =
  ke_ident :: int
  ke_filter :: filt
  ke_eof :: bool
  ke_failed :: bool
  ke_udata :: udata

text \<open>A new loop, where the kernel gives a queue.\<close>

definition wl_event_loop_create :: "'q option \<Rightarrow> 'h \<Rightarrow> ('q, 'h) loop option" where
  "wl_event_loop_create queue h =
     (case queue of
        None \<Rightarrow> None
      | Some q \<Rightarrow>
          Some \<lparr>kq = q, srcs = Map.empty, signal_list = [], check_list = [], timers = h,
                timers_fd = - 1, blocked = {}\<rparr>)"

definition add_source :: "nat \<Rightarrow> src \<Rightarrow> ('q, 'h) loop \<Rightarrow> ('q, 'h) loop" where
  "add_source x s st = st\<lparr>srcs := (srcs st)(x \<mapsto> s)\<rparr>"

section \<open>File descriptors\<close>

text \<open>What the user's function is called with.\<close>

definition wl_event_source_fd_dispatch :: "src \<Rightarrow> kernel_event \<Rightarrow> int \<times> event_mask" where
  "wl_event_source_fd_dispatch s ev =
     (s_user s,
      \<lparr>ev_readable = (ke_filter ev = EVFILT_READ), ev_writable = (ke_filter ev = EVFILT_WRITE),
       ev_hangup = ke_eof ev, ev_error = ke_failed ev\<rparr>)"

definition fd_changes :: "nat \<Rightarrow> int \<Rightarrow> event_mask \<Rightarrow> kchange list" where
  "fd_changes x fd msk =
     (if ev_readable msk then [ev_add fd EVFILT_READ True False 0 (Source x)] else []) @
     (if ev_writable msk then [ev_add fd EVFILT_WRITE True False 0 (Source x)] else [])"

text \<open>\<open>alloc\<close> is the new source, or none without memory; \<open>dupfd\<close> what duplicating \<open>fd\<close> gives.\<close>

definition wl_event_loop_add_fd ::
  "('q \<Rightarrow> kchange \<Rightarrow> 'q \<times> int) \<Rightarrow> ('q \<Rightarrow> int \<Rightarrow> 'q) \<Rightarrow> nat option \<Rightarrow> int \<Rightarrow> int \<Rightarrow> event_mask \<Rightarrow>
   ('q, 'h) loop \<Rightarrow> nat option \<times> ('q, 'h) loop"
where
  "wl_event_loop_add_fd kev kclose alloc dupfd fd msk st =
     (case alloc of
        None \<Rightarrow> (None, st)
      | Some x \<Rightarrow>
          (let s = \<lparr>s_kind = Fd_source, s_fd = dupfd, s_user = fd, s_signo = 0\<rparr> in
           if dupfd < 0 then (None, st)
           else (case kevent kev (kq st) (fd_changes x dupfd msk) of
                   (q, r) \<Rightarrow>
                     if r < 0 then (None, st\<lparr>kq := kclose q dupfd\<rparr>)
                     else (Some x, add_source x s (st\<lparr>kq := q\<rparr>)))))"

definition wl_event_source_fd_update ::
  "('q \<Rightarrow> kchange \<Rightarrow> 'q \<times> int) \<Rightarrow> nat \<Rightarrow> src \<Rightarrow> event_mask \<Rightarrow> ('q, 'h) loop \<Rightarrow> int \<times> ('q, 'h) loop"
where
  "wl_event_source_fd_update kev x s msk st =
     (case kevent kev (kq st) (fd_changes x (s_fd s) msk) of (q, r) \<Rightarrow> (r, st\<lparr>kq := q\<rparr>))"

section \<open>Signals\<close>

definition wl_event_loop_add_signal ::
  "('q \<Rightarrow> kchange \<Rightarrow> 'q \<times> int) \<Rightarrow> nat option \<Rightarrow> int \<Rightarrow> ('q, 'h) loop \<Rightarrow> nat option \<times> ('q, 'h) loop"
where
  "wl_event_loop_add_signal kev alloc signo st =
     (case alloc of
        None \<Rightarrow> (None, st)
      | Some x \<Rightarrow>
          (let s = \<lparr>s_kind = Signal_source, s_fd = 0, s_user = 0, s_signo = signo\<rparr>;
               st = st\<lparr>blocked := insert signo (blocked st)\<rparr>
           in case kevent kev (kq st) [ev_add signo EVFILT_SIGNAL True False 0 (Source x)] of
                (q, r) \<Rightarrow>
                  if r < 0 then (None, st\<lparr>kq := q\<rparr>)
                  else (Some x, add_source x s (st\<lparr>kq := q, signal_list := x # signal_list st\<rparr>))))"

text \<open>The element behind \<open>x\<close> in a list (\<open>Some None\<close>: \<open>x\<close> is the last); \<open>None\<close> for an element whose
  link has been removed, which \<open>wl_list_remove\<close> leaves in an invalid state.\<close>

fun next_link :: "nat list \<Rightarrow> nat \<Rightarrow> nat option option" where
  "next_link [] x = None"
| "next_link (y # ys) x =
     (if y = x then Some (case ys of [] \<Rightarrow> None | z # _ \<Rightarrow> Some z) else next_link ys x)"

datatype loop_error = Invalid_link | Too_long | Dispatch_failed

definition live :: "('q, 'h) loop \<Rightarrow> int \<Rightarrow> nat \<Rightarrow> bool" where
  "live st signo x \<longleftrightarrow>
     (case srcs st x of None \<Rightarrow> False | Some s \<Rightarrow> s_signo s = signo \<and> s_fd s \<noteq> - 1)"

text \<open>\<open>wl_list_for_each_safe\<close>: \<open>tmp\<close>, the element behind \<open>x\<close>, is looked up before the callback runs,
  and the element behind \<open>tmp\<close> after it.  The fuel bounds the number of elements visited.\<close>

fun signal_loop ::
  "nat \<Rightarrow> (nat \<Rightarrow> ('q, 'h) loop \<Rightarrow> int \<times> ('q, 'h) loop) \<Rightarrow> int \<Rightarrow> nat option \<Rightarrow> int \<Rightarrow> ('q, 'h) loop \<Rightarrow>
   loop_error + int \<times> ('q, 'h) loop"
where
  "signal_loop fuel cb signo None rc st = Inr (rc, st)"
| "signal_loop 0 cb signo (Some x) rc st = Inl Too_long"
| "signal_loop (Suc fuel) cb signo (Some x) rc st =
     (case next_link (signal_list st) x of
        None \<Rightarrow> Inl Invalid_link
      | Some tmp \<Rightarrow>
          (case (if live st signo x then cb x st else (0, st)) of
             (r, st) \<Rightarrow> signal_loop fuel cb signo tmp (rc OR r) st))"

definition wl_event_source_signal_dispatch ::
  "nat \<Rightarrow> (nat \<Rightarrow> ('q, 'h) loop \<Rightarrow> int \<times> ('q, 'h) loop) \<Rightarrow> kernel_event \<Rightarrow> ('q, 'h) loop \<Rightarrow>
   loop_error + int \<times> ('q, 'h) loop"
where
  "wl_event_source_signal_dispatch fuel cb ev st =
     signal_loop fuel cb (ke_ident ev)
       (case signal_list st of [] \<Rightarrow> None | x # _ \<Rightarrow> Some x) 0 st"

section \<open>Removal\<close>

text \<open>The knotes of a descriptor: one call for each filter, either of which may fail.\<close>

definition remove_fd ::
  "('q \<Rightarrow> kchange \<Rightarrow> 'q \<times> int) \<Rightarrow> ('q \<Rightarrow> int \<Rightarrow> 'q) \<Rightarrow> nat \<Rightarrow> src \<Rightarrow> ('q, 'h) loop \<Rightarrow> ('q, 'h) loop"
where
  "remove_fd kev kclose x s st =
     (let q = fst (kevent kev (kq st) [ev_delete (s_fd s) EVFILT_READ (Source x)]);
          q = fst (kevent kev q [ev_delete (s_fd s) EVFILT_WRITE (Source x)])
      in add_source x (s\<lparr>s_fd := - 1\<rparr>) (st\<lparr>kq := kclose q (s_fd s)\<rparr>))"

text \<open>\<open>cancel\<close> is \<open>wl_event_source_timer_update(source, 0)\<close> and \<open>wl_timer_heap_unreserve\<close>,
  \<open>TIMER_REMOVED\<close> the mark of a removed timer.\<close>

definition remove_timer ::
  "('q \<Rightarrow> kchange \<Rightarrow> 'q \<times> int) \<Rightarrow> (nat \<Rightarrow> 'h \<Rightarrow> 'q \<Rightarrow> 'h \<times> 'q) \<Rightarrow> int \<Rightarrow> nat \<Rightarrow> src \<Rightarrow>
   ('q, 'h) loop \<Rightarrow> ('q, 'h) loop"
where
  "remove_timer kev cancel TIMER_REMOVED x s st =
     (let q = (if 0 \<le> s_fd s
               then fst (kevent kev (kq st) [ev_delete (s_fd s) EVFILT_TIMER (Source x)])
               else kq st)
      in if s_fd s \<noteq> TIMER_REMOVED then
           (case cancel x (timers st) q of
              (h, q) \<Rightarrow> add_source x (s\<lparr>s_fd := TIMER_REMOVED\<rparr>) (st\<lparr>kq := q, timers := h\<rparr>))
         else st\<lparr>kq := q\<rparr>)"

fun find_survivor :: "(nat \<Rightarrow> src option) \<Rightarrow> int \<Rightarrow> nat list \<Rightarrow> nat option" where
  "find_survivor ss signo [] = None"
| "find_survivor ss signo (x # xs) =
     (if map_option s_signo (ss x) = Some signo then Some x else find_survivor ss signo xs)"

definition remove_signal ::
  "('q \<Rightarrow> kchange \<Rightarrow> 'q \<times> int) \<Rightarrow> nat \<Rightarrow> src \<Rightarrow> ('q, 'h) loop \<Rightarrow> ('q, 'h) loop"
where
  "remove_signal kev x s st =
     (let l = remove1 x (signal_list st);
          c = (case find_survivor (srcs st) (s_signo s) l of
                 Some y \<Rightarrow> ev_add (s_signo s) EVFILT_SIGNAL True False 0 (Source y)
               | None \<Rightarrow> ev_delete (s_signo s) EVFILT_SIGNAL (Source x))
      in add_source x (s\<lparr>s_fd := - 1\<rparr>)
           (st\<lparr>signal_list := l, kq := fst (kevent kev (kq st) [c])\<rparr>))"

definition wl_event_source_remove ::
  "('q \<Rightarrow> kchange \<Rightarrow> 'q \<times> int) \<Rightarrow> ('q \<Rightarrow> int \<Rightarrow> 'q) \<Rightarrow> (nat \<Rightarrow> 'h \<Rightarrow> 'q \<Rightarrow> 'h \<times> 'q) \<Rightarrow> int \<Rightarrow>
   nat \<Rightarrow> src \<Rightarrow> ('q, 'h) loop \<Rightarrow> ('q, 'h) loop"
where
  "wl_event_source_remove kev kclose cancel TIMER_REMOVED x s st =
     (let st = (if s_kind s = Fd_source \<and> 0 \<le> s_fd s then remove_fd kev kclose x s st
                else if s_kind s = Timer_source then remove_timer kev cancel TIMER_REMOVED x s st
                else if s_kind s = Signal_source then remove_signal kev x s st
                else st)
      in st\<lparr>check_list := remove1 x (check_list st)\<rparr>)"

section \<open>One round\<close>

text \<open>\<open>timeout_spec\<close>, with C's division and remainder; without one the call waits for ever.\<close>

definition timeout_spec :: "int \<Rightarrow> timespec option" where
  "timeout_spec timeout =
     (if timeout = - 1 then None
      else Some \<lparr>tv_sec = sgn timeout * (\<bar>timeout\<bar> div 1000),
                 tv_nsec = sgn timeout * (\<bar>timeout\<bar> mod 1000) * 1000000\<rparr>)"

text \<open>Whether the timers are due: the kernel says so, or the heap's root has been reached.\<close>

definition timers_due ::
  "'h heap_ops \<Rightarrow> (timespec \<Rightarrow> timespec \<Rightarrow> bool) \<Rightarrow> timespec \<Rightarrow> kernel_event list \<Rightarrow> 'h \<Rightarrow> bool"
where
  "timers_due ops time_lt now evs h \<longleftrightarrow>
     list_ex (\<lambda>ev. ke_udata ev = Timer_heap) evs \<or>
     0 < hp_active ops h \<and> \<not> time_lt now (tm_deadline (hp_root ops h))"

record ('q, 'h) callbacks =
  fd_func :: "nat \<Rightarrow> int \<times> event_mask \<Rightarrow> ('q, 'h) loop \<Rightarrow> ('q, 'h) loop"
  signal_func :: "nat \<Rightarrow> ('q, 'h) loop \<Rightarrow> int \<times> ('q, 'h) loop"
  timer_func :: "nat \<Rightarrow> ('q, 'h) loop \<Rightarrow> ('q, 'h) loop"

definition dispatch_event ::
  "nat \<Rightarrow> ('q, 'h) callbacks \<Rightarrow> kernel_event \<Rightarrow> ('q, 'h) loop \<Rightarrow> loop_error + ('q, 'h) loop"
where
  "dispatch_event fuel cbs ev st =
     (case ke_udata ev of
        Timer_heap \<Rightarrow> Inr st
      | Source x \<Rightarrow>
          (case srcs st x of
             None \<Rightarrow> Inl Invalid_link
           | Some s \<Rightarrow>
               if s_fd s = - 1 then Inr st
               else (case s_kind s of
                       Fd_source \<Rightarrow> Inr (fd_func cbs x (wl_event_source_fd_dispatch s ev) st)
                     | Timer_source \<Rightarrow> Inr (timer_func cbs x st)
                     | Signal_source \<Rightarrow>
                         (case wl_event_source_signal_dispatch fuel (signal_func cbs) ev st of
                            Inl e \<Rightarrow> Inl e
                          | Inr (rc, st) \<Rightarrow> Inr st))))"

fun dispatch_events ::
  "nat \<Rightarrow> ('q, 'h) callbacks \<Rightarrow> kernel_event list \<Rightarrow> ('q, 'h) loop \<Rightarrow> loop_error + ('q, 'h) loop"
where
  "dispatch_events fuel cbs [] st = Inr st"
| "dispatch_events fuel cbs (ev # evs) st =
     (case dispatch_event fuel cbs ev st of
        Inl e \<Rightarrow> Inl e
      | Inr st \<Rightarrow> dispatch_events fuel cbs evs st)"

text \<open>\<open>wl_event_loop_dispatch\<close> after the wait has given the events \<open>evs\<close>: the timers first, then the
  sources in order.  \<open>clock\<close> are the readings of the clock, by this function, by
  \<open>wl_timer_heap_dispatch\<close> and by \<open>set_timer\<close>.\<close>

definition loop_round ::
  "nat \<Rightarrow> ('q \<Rightarrow> kchange \<Rightarrow> 'q \<times> int) \<Rightarrow> 'h heap_ops \<Rightarrow> (timespec \<Rightarrow> timespec \<Rightarrow> bool) \<Rightarrow>
   timespec \<times> timespec \<times> timespec option \<Rightarrow> ('q, 'h) callbacks \<Rightarrow> kernel_event list \<Rightarrow>
   ('q, 'h) loop \<Rightarrow> loop_error + ('q, 'h) loop"
where
  "loop_round fuel kev ops time_lt clock cbs evs st =
     (case clock of
        (now, now', clock) \<Rightarrow>
          if timers_due ops time_lt now evs (timers st) then
            (case wl_timer_heap_dispatch kev ops time_lt now' clock (timers_fd st) (timers st) (kq st) of
               (Inl r, h, q) \<Rightarrow> Inl Dispatch_failed
             | (Inr due, h, q) \<Rightarrow>
                 dispatch_events fuel cbs evs
                   (foldl (\<lambda>st t. timer_func cbs (tm_source t) st) (st\<lparr>timers := h, kq := q\<rparr>) due))
          else dispatch_events fuel cbs evs st)"

section \<open>One knote for all sources of a signal\<close>

text \<open>Every source of the signal list is alive, every signal with a source has a knote, and every knote
  for a signal belongs to a source of the list that watches it.\<close>

definition signal_ok :: "('q \<Rightarrow> kkey \<Rightarrow> knote_rec option) \<Rightarrow> ('q, 'h) loop \<Rightarrow> bool" where
  "signal_ok knote st \<longleftrightarrow>
     distinct (signal_list st) \<and>
     (\<forall>x\<in>set (signal_list st). \<exists>s. srcs st x = Some s \<and> s_kind s = Signal_source \<and> s_fd s \<noteq> - 1 \<and>
        knote (kq st) (EVFILT_SIGNAL, s_signo s) \<noteq> None) \<and>
     (\<forall>n k. knote (kq st) (EVFILT_SIGNAL, n) = Some k \<longrightarrow>
        (\<exists>x s. x \<in> set (signal_list st) \<and> srcs st x = Some s \<and> s_signo s = n \<and>
           kn_udata k = Source x \<and> kn_enabled k)) \<and>
     (\<forall>x s. srcs st x = Some s \<and> s_kind s = Signal_source \<and> s_fd s \<noteq> - 1 \<longrightarrow> x \<in> set (signal_list st))"

lemma signal_okI:
  assumes "distinct (signal_list st)"
    and "\<And>x. x \<in> set (signal_list st) \<Longrightarrow> \<exists>s. srcs st x = Some s \<and> s_kind s = Signal_source \<and>
      s_fd s \<noteq> - 1 \<and> knote (kq st) (EVFILT_SIGNAL, s_signo s) \<noteq> None"
    and "\<And>n k. knote (kq st) (EVFILT_SIGNAL, n) = Some k \<Longrightarrow>
      \<exists>x s. x \<in> set (signal_list st) \<and> srcs st x = Some s \<and> s_signo s = n \<and>
        kn_udata k = Source x \<and> kn_enabled k"
    and "\<And>x s. srcs st x = Some s \<Longrightarrow> s_kind s = Signal_source \<Longrightarrow> s_fd s \<noteq> - 1 \<Longrightarrow>
      x \<in> set (signal_list st)"
  shows "signal_ok knote st"
  using assms unfolding signal_ok_def by blast

lemma signal_okD:
  assumes "signal_ok knote st"
  shows "distinct (signal_list st)"
    and "x \<in> set (signal_list st) \<Longrightarrow> \<exists>s. srcs st x = Some s \<and> s_kind s = Signal_source \<and>
      s_fd s \<noteq> - 1 \<and> knote (kq st) (EVFILT_SIGNAL, s_signo s) \<noteq> None"
    and "knote (kq st) (EVFILT_SIGNAL, n) = Some k \<Longrightarrow>
      \<exists>x s. x \<in> set (signal_list st) \<and> srcs st x = Some s \<and> s_signo s = n \<and>
        kn_udata k = Source x \<and> kn_enabled k"
    and "srcs st x = Some s \<Longrightarrow> s_kind s = Signal_source \<Longrightarrow> s_fd s \<noteq> - 1 \<Longrightarrow> x \<in> set (signal_list st)"
  using assms unfolding signal_ok_def by blast+

text \<open>What leaves the signals alone: the same list, the same signal sources, the same knotes.\<close>

lemma signal_ok_frame:
  assumes "signal_ok knote st" and "signal_list st' = signal_list st"
    and "\<And>x s. s_kind s = Signal_source \<Longrightarrow> srcs st' x = Some s \<longleftrightarrow> srcs st x = Some s"
    and "\<And>n. knote (kq st') (EVFILT_SIGNAL, n) = knote (kq st) (EVFILT_SIGNAL, n)"
  shows "signal_ok knote st'"
proof (rule signal_okI)
  show "distinct (signal_list st')" using signal_okD(1) [OF assms(1)] assms(2) by simp
next
  fix x assume "x \<in> set (signal_list st')"
  then show "\<exists>s. srcs st' x = Some s \<and> s_kind s = Signal_source \<and> s_fd s \<noteq> - 1 \<and>
      knote (kq st') (EVFILT_SIGNAL, s_signo s) \<noteq> None"
    using signal_okD(2) [OF assms(1), of x] assms(2-4) by fastforce
next
  fix n k assume k: "knote (kq st') (EVFILT_SIGNAL, n) = Some k"
  then obtain x s where x: "x \<in> set (signal_list st)" "srcs st x = Some s" "s_signo s = n"
    "kn_udata k = Source x" "kn_enabled k"
    using signal_okD(3) [OF assms(1), of n k] assms(4) by auto
  then have "s_kind s = Signal_source" using signal_okD(2) [OF assms(1) x(1)] by simp
  then show "\<exists>x s. x \<in> set (signal_list st') \<and> srcs st' x = Some s \<and> s_signo s = n \<and>
      kn_udata k = Source x \<and> kn_enabled k"
    using x assms(2,3) by auto
next
  fix x s assume "srcs st' x = Some s" "s_kind s = Signal_source" "s_fd s \<noteq> - 1"
  then show "x \<in> set (signal_list st')"
    using signal_okD(4) [OF assms(1), of x s] assms(2,3) by simp
qed

lemma find_survivor_SomeD:
  "find_survivor ss n xs = Some y \<Longrightarrow> y \<in> set xs \<and> (\<exists>s. ss y = Some s \<and> s_signo s = n)"
  by (induction xs) (auto split: if_splits)

lemma find_survivor_NoneD:
  "find_survivor ss n xs = None \<Longrightarrow> y \<in> set xs \<Longrightarrow> ss y = Some s \<Longrightarrow> s_signo s \<noteq> n"
  by (induction xs) (auto split: if_splits)

lemma fd_changes_keys: "kkey_of ` set (fd_changes x fd msk) \<subseteq> {(EVFILT_READ, fd), (EVFILT_WRITE, fd)}"
  by (auto simp: fd_changes_def)

context kqueue
begin

lemma kevent_fd_signal:
  "kevent kev q (fd_changes x fd msk) = (q', r) \<Longrightarrow>
   knote q' (EVFILT_SIGNAL, n) = knote q (EVFILT_SIGNAL, n)"
  by (rule kevent_other) (use fd_changes_keys [of x fd msk] in auto)

lemma kevent_single: "fst (kevent kev q [c]) = fst (kev q c)"
  by (cases "kev q c") auto

lemma kev_single_other: "k \<noteq> kkey_of c \<Longrightarrow> knote (fst (kevent kev q [c])) k = knote q k"
  unfolding kevent_single using kev_other [of q c] by (metis prod.collapse)

lemma add_fd_signal_ok:
  assumes "signal_ok knote st" and "\<And>x. alloc = Some x \<Longrightarrow> srcs st x = None"
    and "wl_event_loop_add_fd kev kclose alloc dupfd fd msk st = (r, st')"
  shows "signal_ok knote st'"
proof (cases alloc)
  case None
  then show ?thesis using assms by (simp add: wl_event_loop_add_fd_def)
next
  case (Some x)
  obtain q i where q: "kevent kev (kq st) (fd_changes x dupfd msk) = (q, i)" by fastforce
  have n: "knote q (EVFILT_SIGNAL, n) = knote (kq st) (EVFILT_SIGNAL, n)" for n
    using kevent_fd_signal [OF q] .
  show ?thesis
    by (rule signal_ok_frame [OF assms(1)])
      (use assms(2,3) Some q n in
        \<open>auto simp: wl_event_loop_add_fd_def add_source_def Let_def kev_close split: if_splits\<close>)
qed

lemma fd_update_signal_ok:
  assumes "signal_ok knote st" and "wl_event_source_fd_update kev x s msk st = (r, st')"
  shows "signal_ok knote st'"
proof -
  obtain q i where q: "kevent kev (kq st) (fd_changes x (s_fd s) msk) = (q, i)" by fastforce
  show ?thesis
    by (rule signal_ok_frame [OF assms(1)])
      (use assms(2) q kevent_fd_signal [OF q] in \<open>auto simp: wl_event_source_fd_update_def\<close>)
qed

lemma add_signal_signal_ok:
  assumes "signal_ok knote st" and "\<And>x. alloc = Some x \<Longrightarrow> srcs st x = None"
    and "wl_event_loop_add_signal kev alloc signo st = (r, st')"
  shows "signal_ok knote st'"
proof (cases alloc)
  case None
  then show ?thesis using assms by (simp add: wl_event_loop_add_signal_def)
next
  case (Some x)
  let ?c = "ev_add signo EVFILT_SIGNAL True False 0 (Source x)"
  obtain q i where q: "kev (kq st) ?c = (q, i)" by fastforce
  have fresh: "srcs st x = None" using assms(2) Some by simp
  show ?thesis
  proof (cases "i < 0")
    case True
    have "knote q = knote (kq st)" using kev_error [OF q True] .
    then show ?thesis
      using assms(3) Some q True
      by (intro signal_ok_frame [OF assms(1)]) (auto simp: wl_event_loop_add_signal_def Let_def)
  next
    case False
    let ?s = "\<lparr>s_kind = Signal_source, s_fd = 0, s_user = 0, s_signo = signo\<rparr>"
    have st': "signal_list st' = x # signal_list st" "srcs st' = (srcs st)(x \<mapsto> ?s)" "kq st' = q"
      using assms(3) Some q False by (auto simp: wl_event_loop_add_signal_def Let_def add_source_def)
    have kn: "knote q = (knote (kq st))((EVFILT_SIGNAL, signo) \<mapsto>
        \<lparr>kn_enabled = True, kn_oneshot = False, kn_data = 0, kn_udata = Source x\<rparr>)"
      using kev_add [OF _ q] False by simp
    have new: "x \<notin> set (signal_list st)" using signal_okD(2) [OF assms(1), of x] fresh by auto
    show ?thesis
    proof (rule signal_okI)
      show "distinct (signal_list st')" using new signal_okD(1) [OF assms(1)] st' by simp
    next
      fix y assume "y \<in> set (signal_list st')"
      then show "\<exists>s. srcs st' y = Some s \<and> s_kind s = Signal_source \<and> s_fd s \<noteq> - 1 \<and>
          knote (kq st') (EVFILT_SIGNAL, s_signo s) \<noteq> None"
        using signal_okD(2) [OF assms(1), of y] st' kn by (cases "y = x") auto
    next
      fix n k assume k: "knote (kq st') (EVFILT_SIGNAL, n) = Some k"
      show "\<exists>y s. y \<in> set (signal_list st') \<and> srcs st' y = Some s \<and> s_signo s = n \<and>
          kn_udata k = Source y \<and> kn_enabled k"
      proof (cases "n = signo")
        case True
        then show ?thesis using k st' kn by (intro exI [of _ x] exI [of _ ?s]) auto
      next
        case False
        then obtain y s where "y \<in> set (signal_list st)" "srcs st y = Some s" "s_signo s = n"
          "kn_udata k = Source y" "kn_enabled k"
          using signal_okD(3) [OF assms(1), of n k] k st' kn by auto
        then show ?thesis using st' new by (intro exI [of _ y] exI [of _ s]) auto
      qed
    next
      fix y s assume "srcs st' y = Some s" "s_kind s = Signal_source" "s_fd s \<noteq> - 1"
      then show "y \<in> set (signal_list st')"
        using signal_okD(4) [OF assms(1), of y s] st' by (cases "y = x") auto
    qed
  qed
qed

end

context kqueue
begin

text \<open>The knote after a signal source is gone: repointed at a survivor, or deleted.\<close>

lemma remove_signal_knotes:
  assumes ok: "signal_ok knote st" and x: "x \<in> set (signal_list st)" "srcs st x = Some s"
    and st': "st' = remove_signal kev x s st"
  shows "n \<noteq> s_signo s \<Longrightarrow> knote (kq st') (EVFILT_SIGNAL, n) = knote (kq st) (EVFILT_SIGNAL, n)"
    and "find_survivor (srcs st) (s_signo s) (remove1 x (signal_list st)) = Some y \<Longrightarrow>
      knote (kq st') (EVFILT_SIGNAL, s_signo s) =
        Some \<lparr>kn_enabled = True, kn_oneshot = False, kn_data = 0, kn_udata = Source y\<rparr>"
    and "find_survivor (srcs st) (s_signo s) (remove1 x (signal_list st)) = None \<Longrightarrow>
      knote (kq st') (EVFILT_SIGNAL, s_signo s) = None"
proof -
  have present: "knote (kq st) (EVFILT_SIGNAL, s_signo s) \<noteq> None"
    using signal_okD(2) [OF ok x(1)] x(2) by auto
  show "n \<noteq> s_signo s \<Longrightarrow> knote (kq st') (EVFILT_SIGNAL, n) = knote (kq st) (EVFILT_SIGNAL, n)"
    unfolding st' remove_signal_def Let_def add_source_def
    by (simp split: option.split add: kev_single_other del: kevent.simps)
  show "knote (kq st') (EVFILT_SIGNAL, s_signo s) =
      Some \<lparr>kn_enabled = True, kn_oneshot = False, kn_data = 0, kn_udata = Source y\<rparr>"
    if "find_survivor (srcs st) (s_signo s) (remove1 x (signal_list st)) = Some y"
  proof -
    let ?c = "ev_add (s_signo s) EVFILT_SIGNAL True False 0 (Source y)"
    obtain q r where q: "kev (kq st) ?c = (q, r)" by fastforce
    have "0 \<le> r" using kev_update [of ?c "kq st"] present q by simp
    then have "knote q = (knote (kq st))(kkey_of ?c \<mapsto> knote_of ?c)" using kev_add [OF _ q] by simp
    then show ?thesis
      using that q unfolding st' remove_signal_def Let_def add_source_def
      by (simp add: kevent_single del: kevent.simps)
  qed
  show "knote (kq st') (EVFILT_SIGNAL, s_signo s) = None"
    if "find_survivor (srcs st) (s_signo s) (remove1 x (signal_list st)) = None"
  proof -
    let ?c = "ev_delete (s_signo s) EVFILT_SIGNAL (Source x)"
    obtain q r where q: "kev (kq st) ?c = (q, r)" by fastforce
    have "0 \<le> r" using kev_delete_iff [of ?c "kq st"] present q by simp
    then have "knote q = (knote (kq st))(kkey_of ?c := None)" using kev_delete [OF _ q] by simp
    then show ?thesis
      using that q unfolding st' remove_signal_def Let_def add_source_def
      by (simp add: kevent_single del: kevent.simps)
  qed
qed

lemma remove_signal_signal_ok:
  assumes ok: "signal_ok knote st" and x: "x \<in> set (signal_list st)" "srcs st x = Some s"
  shows "signal_ok knote (remove_signal kev x s st)"
proof -
  let ?st = "remove_signal kev x s st" and ?l = "remove1 x (signal_list st)"
  note kn = remove_signal_knotes [OF ok x refl]
  have f: "signal_list ?st = ?l" "srcs ?st = (srcs st)(x \<mapsto> s\<lparr>s_fd := - 1\<rparr>)"
    by (simp_all add: remove_signal_def add_source_def Let_def)
  have l: "set ?l = set (signal_list st) - {x}" using signal_okD(1) [OF ok] by (simp add: set_remove1_eq)
  show ?thesis
  proof (rule signal_okI)
    show "distinct (signal_list ?st)" using signal_okD(1) [OF ok] f by simp
  next
    fix y assume "y \<in> set (signal_list ?st)"
    then have y: "y \<in> set ?l" "y \<noteq> x" "y \<in> set (signal_list st)" using f l by auto
    then obtain t where t: "srcs st y = Some t" "s_kind t = Signal_source" "s_fd t \<noteq> - 1"
      "knote (kq st) (EVFILT_SIGNAL, s_signo t) \<noteq> None"
      using signal_okD(2) [OF ok] by blast
    have "knote (kq ?st) (EVFILT_SIGNAL, s_signo t) \<noteq> None"
    proof (cases "s_signo t = s_signo s")
      case True
      have "find_survivor (srcs st) (s_signo s) ?l \<noteq> None"
        using find_survivor_NoneD [of "srcs st" "s_signo s" ?l y t] y(1) t(1) True by blast
      then show ?thesis using kn(2) True by auto
    next
      case False
      then show ?thesis using kn(1) t(4) by simp
    qed
    then show "\<exists>t. srcs ?st y = Some t \<and> s_kind t = Signal_source \<and> s_fd t \<noteq> - 1 \<and>
        knote (kq ?st) (EVFILT_SIGNAL, s_signo t) \<noteq> None"
      using t y f by simp
  next
    fix n k assume k: "knote (kq ?st) (EVFILT_SIGNAL, n) = Some k"
    show "\<exists>y t. y \<in> set (signal_list ?st) \<and> srcs ?st y = Some t \<and> s_signo t = n \<and>
        kn_udata k = Source y \<and> kn_enabled k"
    proof (cases "n = s_signo s")
      case True
      then obtain y where y: "find_survivor (srcs st) (s_signo s) ?l = Some y"
        using kn(3) k by (cases "find_survivor (srcs st) (s_signo s) ?l") auto
      then have "kn_udata k = Source y" "kn_enabled k" using kn(2) [OF y] k True by auto
      moreover obtain t where "srcs st y = Some t" "s_signo t = n" "y \<in> set ?l"
        using find_survivor_SomeD [OF y] True by auto
      ultimately show ?thesis using f l by auto
    next
      case False
      then obtain y t where t: "y \<in> set (signal_list st)" "srcs st y = Some t" "s_signo t = n"
        "kn_udata k = Source y" "kn_enabled k"
        using signal_okD(3) [OF ok, of n k] kn(1) k by auto
      then have "y \<noteq> x" using False x by auto
      then show ?thesis using t f l by auto
    qed
  next
    fix y t assume t: "srcs ?st y = Some t" "s_kind t = Signal_source" "s_fd t \<noteq> - 1"
    have "y \<noteq> x" using t f(2) by auto
    moreover from this have "srcs st y = Some t" using t(1) f(2) by simp
    ultimately show "y \<in> set (signal_list ?st)"
      using signal_okD(4) [OF ok _ t(2,3)] f(1) l by simp
  qed
qed

lemma remove_fd_knotes: "knote (kq (remove_fd kev kclose x s st)) (EVFILT_SIGNAL, n) =
    knote (kq st) (EVFILT_SIGNAL, n)"
  by (simp add: remove_fd_def add_source_def Let_def kev_close kev_single_other del: kevent.simps)

end

text \<open>Cancelling a timer leaves the signals' knotes alone.\<close>

definition cancel_ok ::
  "('q \<Rightarrow> kkey \<Rightarrow> knote_rec option) \<Rightarrow> (nat \<Rightarrow> 'h \<Rightarrow> 'q \<Rightarrow> 'h \<times> 'q) \<Rightarrow> bool"
where
  "cancel_ok knote cancel \<longleftrightarrow>
     (\<forall>x h q n. knote (snd (cancel x h q)) (EVFILT_SIGNAL, n) = knote q (EVFILT_SIGNAL, n))"

context kqueue
begin

lemma remove_timer_knotes:
  assumes "cancel_ok knote cancel"
  shows "knote (kq (remove_timer kev cancel TIMER_REMOVED x s st)) (EVFILT_SIGNAL, n) =
     knote (kq st) (EVFILT_SIGNAL, n)"
proof -
  define q where "q = (if 0 \<le> s_fd s
      then fst (kevent kev (kq st) [ev_delete (s_fd s) EVFILT_TIMER (Source x)]) else kq st)"
  have q: "knote q (EVFILT_SIGNAL, n) = knote (kq st) (EVFILT_SIGNAL, n)"
    by (simp add: q_def kev_single_other del: kevent.simps)
  obtain h' q' where c: "cancel x (timers st) q = (h', q')" by fastforce
  have "knote q' (EVFILT_SIGNAL, n) = knote q (EVFILT_SIGNAL, n)"
    using assms c unfolding cancel_ok_def by (metis snd_conv)
  then show ?thesis
    using q unfolding remove_timer_def Let_def q_def [symmetric] by (simp add: c add_source_def)
qed

lemma remove_fd_fields:
  "signal_list (remove_fd kev kclose x s st) = signal_list st"
  "srcs (remove_fd kev kclose x s st) = (srcs st)(x \<mapsto> s\<lparr>s_fd := - 1\<rparr>)"
  by (simp_all add: remove_fd_def add_source_def Let_def)

lemma remove_timer_fields:
  "signal_list (remove_timer kev cancel TIMER_REMOVED x s st) = signal_list st"
  "srcs (remove_timer kev cancel TIMER_REMOVED x s st) =
     (if s_fd s \<noteq> TIMER_REMOVED then (srcs st)(x \<mapsto> s\<lparr>s_fd := TIMER_REMOVED\<rparr>) else srcs st)"
  by (simp_all add: remove_timer_def add_source_def Let_def split: prod.split)

lemma source_remove_signal_ok:
  assumes "signal_ok knote st" and "srcs st x = Some s" and "s_fd s \<noteq> - 1" and "cancel_ok knote cancel"
  shows "signal_ok knote (wl_event_source_remove kev kclose cancel TIMER_REMOVED x s st)"
proof (cases "s_kind s = Signal_source")
  case True
  have x: "x \<in> set (signal_list st)" using signal_okD(4) [OF assms(1,2) True assms(3)] .
  show ?thesis
    by (rule signal_ok_frame [OF remove_signal_signal_ok [OF assms(1) x assms(2)]])
      (simp_all add: wl_event_source_remove_def True Let_def)
next
  case False
  let ?st = "wl_event_source_remove kev kclose cancel TIMER_REMOVED x s st"
  show ?thesis
  proof (rule signal_ok_frame [OF assms(1)])
    show "signal_list ?st = signal_list st"
      using False by (simp add: wl_event_source_remove_def Let_def remove_fd_fields remove_timer_fields)
    show "srcs ?st y = Some t \<longleftrightarrow> srcs st y = Some t" if "s_kind t = Signal_source" for y t
      using False that assms(2)
      by (auto simp: wl_event_source_remove_def Let_def remove_fd_fields remove_timer_fields
          split: if_splits)
    show "knote (kq ?st) (EVFILT_SIGNAL, n) = knote (kq st) (EVFILT_SIGNAL, n)" for n
      using False
      by (simp add: wl_event_source_remove_def Let_def remove_fd_knotes remove_timer_knotes [OF assms(4)])
  qed
qed

end

section \<open>The loop as a step relation\<close>

text \<open>What a user of the loop can do to its sources, in any order; \<open>collect\<close> frees removed sources.\<close>

inductive loop_step ::
  "('q \<Rightarrow> kchange \<Rightarrow> 'q \<times> int) \<Rightarrow> ('q \<Rightarrow> int \<Rightarrow> 'q) \<Rightarrow> (nat \<Rightarrow> 'h \<Rightarrow> 'q \<Rightarrow> 'h \<times> 'q) \<Rightarrow> int \<Rightarrow>
   ('q, 'h) loop \<Rightarrow> ('q, 'h) loop \<Rightarrow> bool"
  for kev kclose cancel TIMER_REMOVED
where
  add_fd: "(\<And>x. alloc = Some x \<Longrightarrow> srcs st x = None) \<Longrightarrow>
    wl_event_loop_add_fd kev kclose alloc dupfd fd msk st = (r, st') \<Longrightarrow>
    loop_step kev kclose cancel TIMER_REMOVED st st'"
| update_fd: "srcs st x = Some s \<Longrightarrow> wl_event_source_fd_update kev x s msk st = (i, st') \<Longrightarrow>
    loop_step kev kclose cancel TIMER_REMOVED st st'"
| add_signal: "(\<And>x. alloc = Some x \<Longrightarrow> srcs st x = None) \<Longrightarrow>
    wl_event_loop_add_signal kev alloc signo st = (r, st') \<Longrightarrow>
    loop_step kev kclose cancel TIMER_REMOVED st st'"
| remove: "srcs st x = Some s \<Longrightarrow> s_fd s \<noteq> - 1 \<Longrightarrow>
    st' = wl_event_source_remove kev kclose cancel TIMER_REMOVED x s st \<Longrightarrow>
    loop_step kev kclose cancel TIMER_REMOVED st st'"
| collect: "srcs st x = Some s \<Longrightarrow> s_fd s = - 1 \<Longrightarrow>
    st' = st\<lparr>srcs := (srcs st)(x := None)\<rparr> \<Longrightarrow>
    loop_step kev kclose cancel TIMER_REMOVED st st'"

inductive loop_reachable ::
  "('q \<Rightarrow> kchange \<Rightarrow> 'q \<times> int) \<Rightarrow> ('q \<Rightarrow> int \<Rightarrow> 'q) \<Rightarrow> (nat \<Rightarrow> 'h \<Rightarrow> 'q \<Rightarrow> 'h \<times> 'q) \<Rightarrow> int \<Rightarrow>
   'q \<Rightarrow> ('q, 'h) loop \<Rightarrow> bool"
  for kev kclose cancel TIMER_REMOVED q
where
  start: "wl_event_loop_create (Some q) h = Some st \<Longrightarrow>
    loop_reachable kev kclose cancel TIMER_REMOVED q st"
| step: "loop_reachable kev kclose cancel TIMER_REMOVED q st \<Longrightarrow>
    loop_step kev kclose cancel TIMER_REMOVED st st' \<Longrightarrow>
    loop_reachable kev kclose cancel TIMER_REMOVED q st'"

inductive_cases loop_stepE: "loop_step kev kclose cancel TIMER_REMOVED st st'"

lemma collect_signal_ok:
  assumes "signal_ok knote st" and "srcs st x = Some s" and "s_fd s = - 1"
  shows "signal_ok knote (st\<lparr>srcs := (srcs st)(x := None)\<rparr>)"
proof -
  have x: "y \<noteq> x" if "y \<in> set (signal_list st)" for y
    using signal_okD(2) [OF assms(1) that] assms(2,3) by auto
  show ?thesis
  proof (rule signal_okI)
    fix n k assume "knote (kq (st\<lparr>srcs := (srcs st)(x := None)\<rparr>)) (EVFILT_SIGNAL, n) = Some k"
    then show "\<exists>y s. y \<in> set (signal_list (st\<lparr>srcs := (srcs st)(x := None)\<rparr>)) \<and>
        srcs (st\<lparr>srcs := (srcs st)(x := None)\<rparr>) y = Some s \<and> s_signo s = n \<and>
        kn_udata k = Source y \<and> kn_enabled k"
      using signal_okD(3) [OF assms(1), of n k] x by fastforce
  qed (use signal_okD(1,2,4) [OF assms(1)] x in \<open>auto split: if_splits\<close>)
qed

context kqueue
begin

lemma loop_step_signal_ok:
  assumes "loop_step kev kclose cancel TIMER_REMOVED st st'" and "cancel_ok knote cancel"
    and "signal_ok knote st"
  shows "signal_ok knote st'"
  using assms(1)
proof (cases rule: loop_step.cases)
  case (add_fd alloc dupfd fd msk r)
  then show ?thesis using add_fd_signal_ok [OF assms(3)] by blast
next
  case (update_fd x s msk i)
  then show ?thesis using fd_update_signal_ok [OF assms(3)] by blast
next
  case (add_signal alloc signo r)
  then show ?thesis using add_signal_signal_ok [OF assms(3)] by blast
next
  case (remove x s)
  then show ?thesis using source_remove_signal_ok [OF assms(3) _ _ assms(2)] by blast
next
  case (collect x s)
  then show ?thesis using collect_signal_ok [OF assms(3)] by blast
qed

lemma loop_reachable_signal_ok:
  assumes "loop_reachable kev kclose cancel TIMER_REMOVED q st" and "cancel_ok knote cancel"
    and "\<forall>n. knote q (EVFILT_SIGNAL, n) = None"
  shows "signal_ok knote st"
  using assms(1)
proof (induction rule: loop_reachable.induct)
  case (start h st)
  then show ?case using assms(3) by (auto simp: wl_event_loop_create_def signal_ok_def)
next
  case (step st st')
  then show ?case using loop_step_signal_ok assms(2) by blast
qed

text \<open>Updating the filters of a descriptor.\<close>

lemma fd_update_knotes:
  assumes "wl_event_source_fd_update kev x s msk st = (r, st')" and "0 \<le> r"
  shows "knote (kq st') (EVFILT_READ, s_fd s) =
      (if ev_readable msk
       then Some \<lparr>kn_enabled = True, kn_oneshot = False, kn_data = 0, kn_udata = Source x\<rparr>
       else knote (kq st) (EVFILT_READ, s_fd s))"
    and "knote (kq st') (EVFILT_WRITE, s_fd s) =
      (if ev_writable msk
       then Some \<lparr>kn_enabled = True, kn_oneshot = False, kn_data = 0, kn_udata = Source x\<rparr>
       else knote (kq st) (EVFILT_WRITE, s_fd s))"
proof -
  obtain q where q: "kevent kev (kq st) (fd_changes x (s_fd s) msk) = (q, r)" "kq st' = q"
    using assms(1) by (auto simp: wl_event_source_fd_update_def split: prod.splits)
  have d: "\<forall>c\<in>set (fd_changes x (s_fd s) msk). \<not> kc_delete c"
    "distinct (map kkey_of (fd_changes x (s_fd s) msk))"
    by (auto simp: fd_changes_def)
  note adds = kevent_adds [OF q(1) assms(2) d] and other = kevent_other [OF q(1)]
  have k: "\<not> ev_readable msk \<Longrightarrow> (EVFILT_READ, s_fd s) \<notin> kkey_of ` set (fd_changes x (s_fd s) msk)"
    "\<not> ev_writable msk \<Longrightarrow> (EVFILT_WRITE, s_fd s) \<notin> kkey_of ` set (fd_changes x (s_fd s) msk)"
    by (auto simp: fd_changes_def)
  have m: "ev_readable msk \<Longrightarrow>
      ev_add (s_fd s) EVFILT_READ True False 0 (Source x) \<in> set (fd_changes x (s_fd s) msk)"
    "ev_writable msk \<Longrightarrow>
      ev_add (s_fd s) EVFILT_WRITE True False 0 (Source x) \<in> set (fd_changes x (s_fd s) msk)"
    by (auto simp: fd_changes_def)
  show "knote (kq st') (EVFILT_READ, s_fd s) =
      (if ev_readable msk
       then Some \<lparr>kn_enabled = True, kn_oneshot = False, kn_data = 0, kn_udata = Source x\<rparr>
       else knote (kq st) (EVFILT_READ, s_fd s))"
    using adds [OF m(1)] other [OF k(1)] q(2) by simp
  show "knote (kq st') (EVFILT_WRITE, s_fd s) =
      (if ev_writable msk
       then Some \<lparr>kn_enabled = True, kn_oneshot = False, kn_data = 0, kn_udata = Source x\<rparr>
       else knote (kq st) (EVFILT_WRITE, s_fd s))"
    using adds [OF m(2)] other [OF k(2)] q(2) by simp
qed

end

section \<open>Dispatching a signal\<close>

text \<open>The callbacks of a list of sources, one after the other.\<close>

fun run_callbacks ::
  "(nat \<Rightarrow> ('q, 'h) loop \<Rightarrow> int \<times> ('q, 'h) loop) \<Rightarrow> nat list \<Rightarrow> int \<Rightarrow> ('q, 'h) loop \<Rightarrow> int \<times> ('q, 'h) loop"
where
  "run_callbacks cb [] rc st = (rc, st)"
| "run_callbacks cb (x # xs) rc st = (case cb x st of (r, st) \<Rightarrow> run_callbacks cb xs (rc OR r) st)"

text \<open>What a change to the loop must leave as it is for the sources \<open>suf\<close> at the end of the list, those
  that the loop has still to visit.  Callbacks may add and remove sources of every kind elsewhere.\<close>

definition keeps_rest :: "int \<Rightarrow> nat list \<Rightarrow> ('q, 'h) loop \<Rightarrow> ('q, 'h) loop \<Rightarrow> bool" where
  "keeps_rest n suf st st' \<longleftrightarrow>
     distinct (signal_list st') \<and> suffix suf (signal_list st') \<and> (\<forall>y\<in>set suf. live st' n y = live st n y)"

text \<open>In the run of the callbacks of \<open>xs\<close>, which \<open>suf\<close> follows in the list, every callback keeps what lies
  behind its own source.\<close>

fun run_keeps ::
  "(nat \<Rightarrow> ('q, 'h) loop \<Rightarrow> int \<times> ('q, 'h) loop) \<Rightarrow> int \<Rightarrow> nat list \<Rightarrow> nat list \<Rightarrow> ('q, 'h) loop \<Rightarrow> bool"
where
  "run_keeps cb n [] suf st \<longleftrightarrow> True"
| "run_keeps cb n (x # xs) suf st \<longleftrightarrow>
     (if live st n x
      then keeps_rest n (xs @ suf) st (snd (cb x st)) \<and> run_keeps cb n xs suf (snd (cb x st))
      else run_keeps cb n xs suf st)"

lemma keeps_rest_refl: "distinct (signal_list st) \<Longrightarrow> suffix suf (signal_list st) \<Longrightarrow> keeps_rest n suf st st"
  by (simp add: keeps_rest_def)

lemma keeps_rest_trans: "keeps_rest n suf st st1 \<Longrightarrow> keeps_rest n suf st1 st2 \<Longrightarrow> keeps_rest n suf st st2"
  by (simp add: keeps_rest_def)

text \<open>The loop's own operations keep the rest: adding a source with a fresh number, and removing any
  source that does not lie behind the callback's own.\<close>

lemma keeps_rest_add_signal:
  assumes "distinct (signal_list st)" "suffix suf (signal_list st)"
    "\<And>x. alloc = Some x \<Longrightarrow> x \<notin> set (signal_list st)"
  shows "keeps_rest n suf st (snd (wl_event_loop_add_signal kev alloc signo st))"
proof (cases alloc)
  case None
  then show ?thesis using assms by (simp add: wl_event_loop_add_signal_def keeps_rest_def)
next
  case (Some x)
  then have "x \<notin> set suf" "x \<notin> set (signal_list st)" using assms(2,3) set_mono_suffix by blast+
  then show ?thesis
    using assms(1,2) Some
    by (auto simp: wl_event_loop_add_signal_def keeps_rest_def add_source_def live_def Let_def suffix_ConsI
        split: prod.split)
qed

lemma keeps_rest_remove:
  assumes "distinct (signal_list st)" "suffix suf (signal_list st)" "x \<notin> set suf"
  shows "keeps_rest n suf st (wl_event_source_remove kev kclose cancel TIMER_REMOVED x s st)"
proof -
  let ?st = "wl_event_source_remove kev kclose cancel TIMER_REMOVED x s st"
  obtain pre where pre: "signal_list st = pre @ suf" using assms(2) by (auto simp: suffix_def)
  then have "suffix suf (remove1 x (signal_list st))" using assms(3) by (auto simp: remove1_append suffix_def remove1_idem)
  then have l: "suffix suf (signal_list ?st)" "distinct (signal_list ?st)"
    using assms(1,2)
    by (simp_all add: wl_event_source_remove_def remove_fd_def remove_timer_def remove_signal_def
        add_source_def Let_def split: prod.split)
  have "live ?st n y = live st n y" if y: "y \<in> set suf" for y
  proof -
    have "y \<noteq> x" using y assms(3) by blast
    then have "srcs ?st y = srcs st y"
      by (simp add: wl_event_source_remove_def remove_fd_def remove_timer_def remove_signal_def
          add_source_def Let_def split: prod.split)
    then show ?thesis by (simp only: live_def)
  qed
  then show ?thesis using l by (simp add: keeps_rest_def)
qed

definition first_of :: "nat list \<Rightarrow> nat option" where
  "first_of xs = (case xs of [] \<Rightarrow> None | x # _ \<Rightarrow> Some x)"

lemma next_link_middle:
  "x \<notin> set pre \<Longrightarrow> next_link (pre @ x # suf) x = Some (case suf of [] \<Rightarrow> None | y # _ \<Rightarrow> Some y)"
  by (induction pre) auto

lemma next_link_None: "x \<notin> set xs \<Longrightarrow> next_link xs x = None"
  by (induction xs) auto

text \<open>As long as the rest is kept the loop calls the callbacks in order and comes to the rest.\<close>

lemma signal_loop_runs:
  assumes "signal_list st = pre @ xs @ suf" and "distinct (signal_list st)" and "run_keeps cb n xs suf st"
    and "length xs \<le> fuel" and "run_callbacks cb (filter (live st n) xs) rc st = (rc', st')"
  shows "signal_loop fuel cb n (first_of (xs @ suf)) rc st =
      signal_loop (fuel - length xs) cb n (first_of suf) rc' st'"
    and "suffix suf (signal_list st')" and "distinct (signal_list st')"
    and "\<forall>y\<in>set suf. live st' n y = live st n y"
proof -
  have "signal_loop fuel cb n (first_of (xs @ suf)) rc st =
      signal_loop (fuel - length xs) cb n (first_of suf) rc' st' \<and>
    suffix suf (signal_list st') \<and> distinct (signal_list st') \<and> (\<forall>y\<in>set suf. live st' n y = live st n y)"
    using assms
  proof (induction xs arbitrary: pre fuel rc st)
    case (Cons x xs)
    then obtain m where m: "fuel = Suc m" by (cases fuel) auto
    have nx: "next_link (signal_list st) x = Some (first_of (xs @ suf))"
      using Cons.prems(1,2) by (simp add: next_link_middle first_of_def)
    obtain r st1 where c: "(if live st n x then cb x st else (0, st)) = (r, st1)" by fastforce
    have k: "keeps_rest n (xs @ suf) st st1" "run_keeps cb n xs suf st1"
      using Cons.prems(1-3) c by (auto simp: keeps_rest_def suffix_def split: if_splits)
    then obtain pre1 where pre1: "signal_list st1 = pre1 @ xs @ suf" "distinct (signal_list st1)"
      by (auto simp: keeps_rest_def suffix_def)
    have f: "filter (live st1 n) xs = filter (live st n) xs"
      using k(1) by (auto simp: keeps_rest_def cong: filter_cong)
    have run: "run_callbacks cb (filter (live st1 n) xs) (rc OR r) st1 = (rc', st')"
      using Cons.prems(5) c unfolding f by (cases "live st n x") auto
    have "signal_loop m cb n (first_of (xs @ suf)) (rc OR r) st1 =
        signal_loop (m - length xs) cb n (first_of suf) rc' st' \<and>
      suffix suf (signal_list st') \<and> distinct (signal_list st') \<and> (\<forall>y\<in>set suf. live st' n y = live st1 n y)"
      using Cons.IH [OF pre1 k(2) _ run] Cons.prems(4) m by simp
    moreover have "signal_loop fuel cb n (first_of ((x # xs) @ suf)) rc st =
        signal_loop m cb n (first_of (xs @ suf)) (rc OR r) st1"
      using nx c m by (cases "live st n x") (auto simp: first_of_def)
    ultimately show ?case using k(1) m by (simp add: keeps_rest_def)
  qed (auto simp: suffix_def)
  then show "signal_loop fuel cb n (first_of (xs @ suf)) rc st =
      signal_loop (fuel - length xs) cb n (first_of suf) rc' st'"
    and "suffix suf (signal_list st')" and "distinct (signal_list st')"
    and "\<forall>y\<in>set suf. live st' n y = live st n y"
    by blast+
qed

section \<open>Properties\<close>

text \<open>C3: after any sequence of adding, updating, removing and freeing sources, from a new loop on a kernel
  queue without signals: each signal that has a source has one enabled knote, which points to a live
  source of the loop's list that watches the signal, and a signal without a source has none.\<close>

theorem loop_signal_invariant:
  assumes "kqueue kev knote kclose" and "cancel_ok knote cancel"
    and "\<forall>n. knote q (EVFILT_SIGNAL, n) = None"
    and "loop_reachable kev kclose cancel TIMER_REMOVED q st"
  shows "signal_ok knote st"
  using kqueue.loop_reachable_signal_ok [OF assms(1,4,2,3)] .

definition keep_timer :: "nat \<Rightarrow> timer list \<Rightarrow> ktable \<Rightarrow> timer list \<times> ktable" where
  "keep_timer x h q = (h, q)"

definition sample_loop :: "nat \<Rightarrow> (ktable, timer list) loop" where
  "sample_loop n =
     (let st0 = the (wl_event_loop_create (Some Map.empty) []);
          st1 = snd (wl_event_loop_add_signal table_kev (Some 7) 15 st0);
          st2 = snd (wl_event_loop_add_signal table_kev (Some 8) 15 st1);
          st3 = wl_event_source_remove table_kev table_close keep_timer (- 2) 8 (the (srcs st2 8)) st2
      in [st0, st1, st2, st3] ! n)"

lemma sample_loop_reachable:
  "loop_reachable table_kev table_close keep_timer (- 2) Map.empty (sample_loop 3)"
proof -
  let ?R = "loop_reachable table_kev table_close keep_timer (- 2) Map.empty"
  have "?R (sample_loop 0)"
    by (rule loop_reachable.start [of _ "[]"]) (simp add: sample_loop_def wl_event_loop_create_def Let_def)
  then have "?R (sample_loop 1)"
    by (rule loop_reachable.step [OF _ loop_step.add_signal [of "Some 7" _ _ 15 "Some 7"]])
      (simp_all add: sample_loop_def wl_event_loop_create_def wl_event_loop_add_signal_def table_kev_def
        Let_def)
  then have "?R (sample_loop 2)"
    by (rule loop_reachable.step [OF _ loop_step.add_signal [of "Some 8" _ _ 15 "Some 8"]])
      (simp_all add: sample_loop_def wl_event_loop_create_def wl_event_loop_add_signal_def table_kev_def
        add_source_def Let_def)
  then show ?thesis
    by (rule loop_reachable.step [OF _ loop_step.remove
          [of _ 8 "\<lparr>s_kind = Signal_source, s_fd = 0, s_user = 0, s_signo = 15\<rparr>"]])
      (simp_all add: sample_loop_def wl_event_loop_create_def wl_event_loop_add_signal_def table_kev_def
        add_source_def Let_def)
qed

lemma loop_signal_invariant_witness:
  "signal_ok (\<lambda>q. q) (sample_loop 3) \<and> signal_list (sample_loop 3) = [7]"
proof -
  have "cancel_ok (\<lambda>q. q) keep_timer" by (simp add: cancel_ok_def keep_timer_def)
  then have "signal_ok (\<lambda>q. q) (sample_loop 3)"
    using loop_signal_invariant [OF table.kqueue_axioms _ _ sample_loop_reachable] by simp
  then show ?thesis
    by (simp add: sample_loop_def wl_event_loop_create_def wl_event_loop_add_signal_def table_kev_def
        add_source_def wl_event_source_remove_def remove_signal_def Let_def)
qed

text \<open>C20: one signal event calls the function of every source that watches the signal and is alive, each
  once and in the order of the list, and or-s their results, as long as no callback disturbs the sources
  behind its own in the list: it may remove its own and any earlier one, add new sources and change
  everything else.  But when, anywhere in the list, the callback of a source removes the source right
  behind it, the loop goes on from a removed link.\<close>

theorem signal_dispatch_correct:
  assumes "distinct (signal_list st)" and "length (signal_list st) \<le> fuel" and "n = ke_ident ev"
  shows "(run_keeps cb n (signal_list st) [] st \<longrightarrow>
      wl_event_source_signal_dispatch fuel cb ev st =
        Inr (run_callbacks cb (filter (live st n) (signal_list st)) 0 st)) \<and>
    (\<forall>pre x y l rc st1. signal_list st = pre @ x # y # l \<and> live st n x \<and>
       run_keeps cb n pre (x # y # l) st \<and>
       run_callbacks cb (filter (live st n) pre) 0 st = (rc, st1) \<and>
       y \<notin> set (signal_list (snd (cb x st1))) \<longrightarrow>
       wl_event_source_signal_dispatch fuel cb ev st = Inl Invalid_link)"
proof (intro conjI allI impI)
  assume k: "run_keeps cb n (signal_list st) [] st"
  obtain rc st' where r: "run_callbacks cb (filter (live st n) (signal_list st)) 0 st = (rc, st')" by fastforce
  show "wl_event_source_signal_dispatch fuel cb ev st =
      Inr (run_callbacks cb (filter (live st n) (signal_list st)) 0 st)"
    using signal_loop_runs(1) [of st "[]" "signal_list st" "[]", OF _ assms(1) k assms(2) r] r
    by (simp add: wl_event_source_signal_dispatch_def first_of_def assms(3))
next
  fix pre x y l rc st1
  assume a: "signal_list st = pre @ x # y # l \<and> live st n x \<and> run_keeps cb n pre (x # y # l) st \<and>
    run_callbacks cb (filter (live st n) pre) 0 st = (rc, st1) \<and> y \<notin> set (signal_list (snd (cb x st1)))"
  then have l: "length pre \<le> fuel" using assms(2) by simp
  note run = signal_loop_runs [of st "[]" pre "x # y # l" cb n fuel 0 rc st1, OF _ assms(1) _ l]
  obtain p where p: "signal_list st1 = p @ x # y # l" "distinct (signal_list st1)" "live st1 n x"
    using run(2-4) a by (auto simp: suffix_def)
  obtain m where m: "fuel - length pre = Suc (Suc m)"
    using assms(2) a by (cases "fuel - length pre"; cases "fuel - length pre - 1") auto
  obtain r st2 where c: "cb x st1 = (r, st2)" by fastforce
  have "signal_loop fuel cb n (first_of (signal_list st)) 0 st =
      signal_loop (Suc (Suc m)) cb n (Some x) rc st1"
    using run(1) a m by (simp add: first_of_def)
  also have "\<dots> = Inl Invalid_link"
    using p a c by (simp add: next_link_middle next_link_None)
  finally show "wl_event_source_signal_dispatch fuel cb ev st = Inl Invalid_link"
    by (simp add: wl_event_source_signal_dispatch_def first_of_def assms(3))
qed

text \<open>A callback that adds a source for the same signal and then removes its own.\<close>

definition replace_source :: "nat \<Rightarrow> (ktable, timer list) loop \<Rightarrow> int \<times> (ktable, timer list) loop" where
  "replace_source x st =
     (int x, wl_event_source_remove table_kev table_close keep_timer (- 2) x (the (srcs st x))
        (snd (wl_event_loop_add_signal table_kev (Some (x + 10)) 15 st)))"

lemma signal_dispatch_correct_witness:
  "\<exists>st. wl_event_source_signal_dispatch 2 replace_source
     \<lparr>ke_ident = 15, ke_filter = EVFILT_SIGNAL, ke_eof = False, ke_failed = False, ke_udata = Source 7\<rparr>
     (sample_loop 2) = Inr (15, st) \<and> signal_list st = [17, 18]"
proof -
  let ?ev = "\<lparr>ke_ident = 15, ke_filter = EVFILT_SIGNAL, ke_eof = False, ke_failed = False,
    ke_udata = Source 7\<rparr>"
  note defs = sample_loop_def wl_event_loop_create_def wl_event_loop_add_signal_def table_kev_def
    add_source_def Let_def live_def
  have l: "signal_list (sample_loop 2) = [8, 7]" "live (sample_loop 2) 15 8" "live (sample_loop 2) 15 7"
    by (simp_all add: defs)
  have k: "run_keeps replace_source 15 [8, 7] [] (sample_loop 2)"
    by (simp add: keeps_rest_def replace_source_def wl_event_source_remove_def remove_signal_def defs suffix_def)
  have "wl_event_source_signal_dispatch 2 replace_source ?ev (sample_loop 2) =
      Inr (run_callbacks replace_source [8, 7] 0 (sample_loop 2))"
    using signal_dispatch_correct [THEN conjunct1, rule_format, of "sample_loop 2" 2 15 ?ev replace_source]
      k unfolding l(1) by (simp add: l(2,3) del: run_callbacks.simps run_keeps.simps)
  then show ?thesis
    by (simp add: replace_source_def wl_event_source_remove_def remove_signal_def defs)
qed

text \<open>A successful \<open>wl_event_source_fd_update\<close> leaves the filters of the mask enabled for the source, and
  a filter that is not in the mask exactly as it was: a descriptor that was watched for writing goes
  on being reported as writable after an update to a mask without it.\<close>

theorem fd_update_correct:
  assumes "kqueue kev knote kclose" and "wl_event_source_fd_update kev x s msk st = (r, st')" and "0 \<le> r"
  shows "knote (kq st') (EVFILT_READ, s_fd s) =
      (if ev_readable msk
       then Some \<lparr>kn_enabled = True, kn_oneshot = False, kn_data = 0, kn_udata = Source x\<rparr>
       else knote (kq st) (EVFILT_READ, s_fd s)) \<and>
    knote (kq st') (EVFILT_WRITE, s_fd s) =
      (if ev_writable msk
       then Some \<lparr>kn_enabled = True, kn_oneshot = False, kn_data = 0, kn_udata = Source x\<rparr>
       else knote (kq st) (EVFILT_WRITE, s_fd s))"
  using kqueue.fd_update_knotes [OF assms] by blast

definition sample_fd_loop :: "(ktable, timer list) loop" where
  "sample_fd_loop =
     snd (wl_event_loop_add_fd table_kev table_close (Some 3) 9 4
       \<lparr>ev_readable = True, ev_writable = True, ev_hangup = False, ev_error = False\<rparr> (sample_loop 0))"

lemma fd_update_correct_witness:
  "kq (snd (wl_event_source_fd_update table_kev 3
      \<lparr>s_kind = Fd_source, s_fd = 9, s_user = 4, s_signo = 0\<rparr>
      \<lparr>ev_readable = True, ev_writable = False, ev_hangup = False, ev_error = False\<rparr> sample_fd_loop))
    (EVFILT_WRITE, 9) =
   Some \<lparr>kn_enabled = True, kn_oneshot = False, kn_data = 0, kn_udata = Source 3\<rparr>"
proof -
  let ?s = "\<lparr>s_kind = Fd_source, s_fd = 9, s_user = 4, s_signo = 0\<rparr>"
  let ?m = "\<lparr>ev_readable = True, ev_writable = False, ev_hangup = False, ev_error = False\<rparr>"
  obtain r st' where u: "wl_event_source_fd_update table_kev 3 ?s ?m sample_fd_loop = (r, st')" by fastforce
  then have "0 \<le> r" by (auto simp: wl_event_source_fd_update_def fd_changes_def table_kev_def)
  then show ?thesis
    using fd_update_correct [OF table.kqueue_axioms u] u
    by (simp add: sample_fd_loop_def sample_loop_def wl_event_loop_create_def wl_event_loop_add_fd_def
        fd_changes_def table_kev_def add_source_def Let_def)
qed

section \<open>What the signals implement\<close>









end
