(* ===== verification/Gdb_Dfly.thy ===== *)
theory Gdb_Dfly
  imports Prelude
begin

text \<open>
  \<^verbatim>\<open>devel/gdb/dragonfly\<close>: the tables that tell gdb about DragonFly: signal numbers
  (\<^verbatim>\<open>dfly-tdep.c\<close>) and where the registers are in the system's structures
  (\<^verbatim>\<open>amd64-dfly-tdep.c\<close>, \<^verbatim>\<open>i386-dfly-tdep.c\<close>, \<^verbatim>\<open>amd64-dfly-nat.c\<close>).

  gdb's own signals are the datatype \<open>gdb_signal\<close>: the constants that the code uses, and all others.
\<close>

section \<open>Signals\<close>

datatype dragonfly_signal =
  SIGHUP | SIGINT | SIGQUIT | SIGILL | SIGTRAP | SIGABRT | SIGEMT | SIGFPE | SIGKILL | SIGBUS |
    SIGSEGV | SIGSYS | SIGPIPE | SIGALRM | SIGTERM | SIGURG | SIGSTOP | SIGTSTP | SIGCONT |
    SIGCHLD | SIGTTIN | SIGTTOU | SIGIO | SIGXCPU | SIGXFSZ | SIGVTALRM | SIGPROF | SIGWINCH |
    SIGINFO | SIGUSR1 | SIGUSR2 | SIGTHR | SIGCKPT | SIGCKPTEXIT

fun number_of :: "dragonfly_signal \<Rightarrow> int" where
  "number_of SIGHUP = 1"
| "number_of SIGINT = 2"
| "number_of SIGQUIT = 3"
| "number_of SIGILL = 4"
| "number_of SIGTRAP = 5"
| "number_of SIGABRT = 6"
| "number_of SIGEMT = 7"
| "number_of SIGFPE = 8"
| "number_of SIGKILL = 9"
| "number_of SIGBUS = 10"
| "number_of SIGSEGV = 11"
| "number_of SIGSYS = 12"
| "number_of SIGPIPE = 13"
| "number_of SIGALRM = 14"
| "number_of SIGTERM = 15"
| "number_of SIGURG = 16"
| "number_of SIGSTOP = 17"
| "number_of SIGTSTP = 18"
| "number_of SIGCONT = 19"
| "number_of SIGCHLD = 20"
| "number_of SIGTTIN = 21"
| "number_of SIGTTOU = 22"
| "number_of SIGIO = 23"
| "number_of SIGXCPU = 24"
| "number_of SIGXFSZ = 25"
| "number_of SIGVTALRM = 26"
| "number_of SIGPROF = 27"
| "number_of SIGWINCH = 28"
| "number_of SIGINFO = 29"
| "number_of SIGUSR1 = 30"
| "number_of SIGUSR2 = 31"
| "number_of SIGTHR = 32"
| "number_of SIGCKPT = 33"
| "number_of SIGCKPTEXIT = 34"

datatype gdb_signal =
  GDB_SIGNAL_0 | GDB_SIGNAL_HUP | GDB_SIGNAL_INT | GDB_SIGNAL_QUIT | GDB_SIGNAL_ILL |
    GDB_SIGNAL_TRAP | GDB_SIGNAL_ABRT | GDB_SIGNAL_EMT | GDB_SIGNAL_FPE | GDB_SIGNAL_KILL |
    GDB_SIGNAL_BUS | GDB_SIGNAL_SEGV | GDB_SIGNAL_SYS | GDB_SIGNAL_PIPE | GDB_SIGNAL_ALRM |
    GDB_SIGNAL_TERM | GDB_SIGNAL_URG | GDB_SIGNAL_STOP | GDB_SIGNAL_TSTP | GDB_SIGNAL_CONT |
    GDB_SIGNAL_CHLD | GDB_SIGNAL_TTIN | GDB_SIGNAL_TTOU | GDB_SIGNAL_IO | GDB_SIGNAL_XCPU |
    GDB_SIGNAL_XFSZ | GDB_SIGNAL_VTALRM | GDB_SIGNAL_PROF | GDB_SIGNAL_WINCH | GDB_SIGNAL_INFO |
    GDB_SIGNAL_USR1 | GDB_SIGNAL_USR2 | GDB_SIGNAL_UNKNOWN | Other_gdb_signal nat

text \<open>The cases of the switch, in order.\<close>

definition from_target_cases :: "(int \<times> gdb_signal) list" where
  "from_target_cases =
     [(0, GDB_SIGNAL_0), (number_of SIGHUP, GDB_SIGNAL_HUP), (number_of SIGINT, GDB_SIGNAL_INT),
      (number_of SIGQUIT, GDB_SIGNAL_QUIT), (number_of SIGILL, GDB_SIGNAL_ILL),
      (number_of SIGTRAP, GDB_SIGNAL_TRAP), (number_of SIGABRT, GDB_SIGNAL_ABRT),
      (number_of SIGEMT, GDB_SIGNAL_EMT), (number_of SIGFPE, GDB_SIGNAL_FPE),
      (number_of SIGKILL, GDB_SIGNAL_KILL), (number_of SIGBUS, GDB_SIGNAL_BUS),
      (number_of SIGSEGV, GDB_SIGNAL_SEGV), (number_of SIGSYS, GDB_SIGNAL_SYS),
      (number_of SIGPIPE, GDB_SIGNAL_PIPE), (number_of SIGALRM, GDB_SIGNAL_ALRM),
      (number_of SIGTERM, GDB_SIGNAL_TERM), (number_of SIGURG, GDB_SIGNAL_URG),
      (number_of SIGSTOP, GDB_SIGNAL_STOP), (number_of SIGTSTP, GDB_SIGNAL_TSTP),
      (number_of SIGCONT, GDB_SIGNAL_CONT), (number_of SIGCHLD, GDB_SIGNAL_CHLD),
      (number_of SIGTTIN, GDB_SIGNAL_TTIN), (number_of SIGTTOU, GDB_SIGNAL_TTOU),
      (number_of SIGIO, GDB_SIGNAL_IO), (number_of SIGXCPU, GDB_SIGNAL_XCPU),
      (number_of SIGXFSZ, GDB_SIGNAL_XFSZ), (number_of SIGVTALRM, GDB_SIGNAL_VTALRM),
      (number_of SIGPROF, GDB_SIGNAL_PROF), (number_of SIGWINCH, GDB_SIGNAL_WINCH),
      (number_of SIGINFO, GDB_SIGNAL_INFO), (number_of SIGUSR1, GDB_SIGNAL_USR1),
      (number_of SIGUSR2, GDB_SIGNAL_USR2)]"

definition dfly_gdb_signal_from_target :: "int \<Rightarrow> gdb_signal" where
  "dfly_gdb_signal_from_target sig =
     (case map_of from_target_cases sig of Some g \<Rightarrow> g | None \<Rightarrow> GDB_SIGNAL_UNKNOWN)"

fun dfly_gdb_signal_to_target :: "gdb_signal \<Rightarrow> int" where
  "dfly_gdb_signal_to_target GDB_SIGNAL_0 = 0"
| "dfly_gdb_signal_to_target GDB_SIGNAL_HUP = number_of SIGHUP"
| "dfly_gdb_signal_to_target GDB_SIGNAL_INT = number_of SIGINT"
| "dfly_gdb_signal_to_target GDB_SIGNAL_QUIT = number_of SIGQUIT"
| "dfly_gdb_signal_to_target GDB_SIGNAL_ILL = number_of SIGILL"
| "dfly_gdb_signal_to_target GDB_SIGNAL_TRAP = number_of SIGTRAP"
| "dfly_gdb_signal_to_target GDB_SIGNAL_ABRT = number_of SIGABRT"
| "dfly_gdb_signal_to_target GDB_SIGNAL_EMT = number_of SIGEMT"
| "dfly_gdb_signal_to_target GDB_SIGNAL_FPE = number_of SIGFPE"
| "dfly_gdb_signal_to_target GDB_SIGNAL_KILL = number_of SIGKILL"
| "dfly_gdb_signal_to_target GDB_SIGNAL_BUS = number_of SIGBUS"
| "dfly_gdb_signal_to_target GDB_SIGNAL_SEGV = number_of SIGSEGV"
| "dfly_gdb_signal_to_target GDB_SIGNAL_SYS = number_of SIGSYS"
| "dfly_gdb_signal_to_target GDB_SIGNAL_PIPE = number_of SIGPIPE"
| "dfly_gdb_signal_to_target GDB_SIGNAL_ALRM = number_of SIGALRM"
| "dfly_gdb_signal_to_target GDB_SIGNAL_TERM = number_of SIGTERM"
| "dfly_gdb_signal_to_target GDB_SIGNAL_URG = number_of SIGURG"
| "dfly_gdb_signal_to_target GDB_SIGNAL_STOP = number_of SIGSTOP"
| "dfly_gdb_signal_to_target GDB_SIGNAL_TSTP = number_of SIGTSTP"
| "dfly_gdb_signal_to_target GDB_SIGNAL_CONT = number_of SIGCONT"
| "dfly_gdb_signal_to_target GDB_SIGNAL_CHLD = number_of SIGCHLD"
| "dfly_gdb_signal_to_target GDB_SIGNAL_TTIN = number_of SIGTTIN"
| "dfly_gdb_signal_to_target GDB_SIGNAL_TTOU = number_of SIGTTOU"
| "dfly_gdb_signal_to_target GDB_SIGNAL_IO = number_of SIGIO"
| "dfly_gdb_signal_to_target GDB_SIGNAL_XCPU = number_of SIGXCPU"
| "dfly_gdb_signal_to_target GDB_SIGNAL_XFSZ = number_of SIGXFSZ"
| "dfly_gdb_signal_to_target GDB_SIGNAL_VTALRM = number_of SIGVTALRM"
| "dfly_gdb_signal_to_target GDB_SIGNAL_PROF = number_of SIGPROF"
| "dfly_gdb_signal_to_target GDB_SIGNAL_WINCH = number_of SIGWINCH"
| "dfly_gdb_signal_to_target GDB_SIGNAL_INFO = number_of SIGINFO"
| "dfly_gdb_signal_to_target GDB_SIGNAL_USR1 = number_of SIGUSR1"
| "dfly_gdb_signal_to_target GDB_SIGNAL_USR2 = number_of SIGUSR2"
| "dfly_gdb_signal_to_target GDB_SIGNAL_UNKNOWN = - 1"
| "dfly_gdb_signal_to_target (Other_gdb_signal n) = - 1"

text \<open>The name of an IP protocol; \<open>DFLY_IPPROTO_ICMP\<close>, \<open>_TCP\<close> and \<open>_UDP\<close> are 1, 6 and 17.\<close>

definition dfly_ipproto :: "int \<Rightarrow> c_string" where
  "dfly_ipproto protocol =
     (if protocol = 1 then ''icmp''
      else if protocol = 6 then ''tcp''
      else if protocol = 17 then ''udp''
      else ''ip<'' @ show_int protocol @ ''>'')"

text \<open>The port of a socket address: two bytes, the higher one first.\<close>

definition sin_port :: "char \<Rightarrow> char \<Rightarrow> int" where
  "sin_port p0 p1 = or (push_bit 8 (uchar p0)) (uchar p1)"

definition dfly_print_sockaddr_in :: "c_string option \<Rightarrow> char \<Rightarrow> char \<Rightarrow> c_string option" where
  "dfly_print_sockaddr_in ntop p0 p1 =
     (case ntop of None \<Rightarrow> None | Some buf \<Rightarrow> Some (buf @ '':'' @ show_int (sin_port p0 p1)))"

definition dfly_print_sockaddr_in6 :: "c_string option \<Rightarrow> char \<Rightarrow> char \<Rightarrow> c_string option" where
  "dfly_print_sockaddr_in6 ntop p0 p1 =
     (case ntop of None \<Rightarrow> None | Some buf \<Rightarrow> Some (buf @ ''.'' @ show_int (sin_port p0 p1)))"

section \<open>Registers\<close>

text \<open>Offsets in \<open>struct reg\<close> by gdb's numbers: rax, rbx, rcx, rdx, rsi, rdi, rbp, rsp, r8 to r15, rip,
  eflags, cs, ss, and four that have none.\<close>

definition amd64dfly_r_reg_offset :: "int list" where
  "amd64dfly_r_reg_offset =
     [6 * 8, 7 * 8, 3 * 8, 2 * 8, 1 * 8, 0 * 8, 8 * 8, 23 * 8, 4 * 8, 5 * 8, 9 * 8, 10 * 8,
      11 * 8, 12 * 8, 13 * 8, 14 * 8, 20 * 8, 22 * 8, 21 * 8, 24 * 8, - 1, - 1, - 1, - 1]"

text \<open>Offsets in \<open>struct sigcontext\<close>.\<close>

definition amd64dfly_sc_reg_offset :: "int list" where
  "amd64dfly_sc_reg_offset =
     [24 + 6 * 8, 24 + 7 * 8, 24 + 3 * 8, 24 + 2 * 8, 24 + 1 * 8, 24 + 0 * 8, 24 + 8 * 8,
      24 + 23 * 8, 24 + 4 * 8, 24 + 5 * 8, 24 + 9 * 8, 24 + 10 * 8, 24 + 11 * 8, 24 + 12 * 8,
      24 + 13 * 8, 24 + 14 * 8, 24 + 20 * 8, 24 + 22 * 8, 24 + 21 * 8, 24 + 24 * 8, - 1, - 1,
      - 1, - 1]"

text \<open>Offsets in a \<open>jmp_buf\<close>.\<close>

definition amd64dfly_jmp_buf_reg_offset :: "int list" where
  "amd64dfly_jmp_buf_reg_offset =
     [- 1, 1 * 8, - 1, - 1, - 1, - 1, 3 * 8, 2 * 8, - 1, - 1, - 1, - 1, 4 * 8, 5 * 8, 6 * 8,
      7 * 8, 0 * 8]"

text \<open>The 32-bit registers: eax, ecx, edx, ebx, esp, ebp, esi, edi, eip, eflags, cs, ss, ds, es, fs, gs.\<close>

definition i386dfly_r_reg_offset :: "int list" where
  "i386dfly_r_reg_offset =
     [44, 40, 36, 32, 72, 24, 20, 16, 60, 68, 64, 76, 12, 8, 4, 0]"

text \<open>Their offsets in the 32-bit \<open>struct sigcontext\<close>.\<close>

definition i386dfly_sc_reg_offset :: "int list" where
  "i386dfly_sc_reg_offset =
     [64, 60, 56, 52, 92, 44, 40, 36, 80, 88, 84, 96, 32, 28, 24, 20]"

text \<open>The 32-bit registers in the 64-bit \<open>struct reg\<close>.\<close>

definition amd64dfly32_r_reg_offset :: "int list" where
  "amd64dfly32_r_reg_offset =
     [14 * 8, 13 * 8, 12 * 8, 11 * 8, 20 * 8, 10 * 8, 9 * 8, 8 * 8, 17 * 8, 19 * 8, 18 * 8,
      21 * 8, - 1, - 1, - 1, - 1]"

definition amd64dfly_sizeof_gregset :: int where
  "amd64dfly_sizeof_gregset = 25 * 8"

definition i386dfly_sizeof_gregset :: int where
  "i386dfly_sizeof_gregset = 80"

text \<open>The signal context of a trampoline's frame.\<close>

definition amd64dfly_sigcontext_addr :: "64 word \<Rightarrow> 64 word" where
  "amd64dfly_sigcontext_addr sp = sp + 16"

section \<open>Lemmas\<close>

lemma from_target_keys: "map fst from_target_cases = [0..31]"
  by code_simp

lemma roundtrip_table: "\<forall>n\<in>set [0..31]. dfly_gdb_signal_to_target (dfly_gdb_signal_from_target n) = n"
  by code_simp

lemma from_target_other: "n \<notin> {0..31} \<Longrightarrow> dfly_gdb_signal_from_target n = GDB_SIGNAL_UNKNOWN"
proof -
  assume "n \<notin> {0..31}"
  then have "n \<notin> fst ` set from_target_cases"
    by (metis set_upto from_target_keys set_map)
  then have "map_of from_target_cases n = None" by (simp add: map_of_eq_None_iff)
  then show ?thesis by (simp add: dfly_gdb_signal_from_target_def)
qed

lemma to_target_back:
  "dfly_gdb_signal_to_target g \<noteq> - 1 \<Longrightarrow>
   dfly_gdb_signal_from_target (dfly_gdb_signal_to_target g) = g"
  by (cases g) (simp_all add: dfly_gdb_signal_from_target_def from_target_cases_def)

text \<open>Offsets of fields of \<open>w\<close> bytes in a structure of \<open>n\<close>: aligned, inside, and none used twice.\<close>

definition offsets_ok :: "int \<Rightarrow> int \<Rightarrow> int list \<Rightarrow> bool" where
  "offsets_ok w n os \<longleftrightarrow>
     distinct (filter (\<lambda>i. i \<noteq> - 1) os) \<and>
     list_all (\<lambda>i. i = - 1 \<or> 0 \<le> i \<and> i + w \<le> n \<and> i mod w = 0) os"

text \<open>A table moved by \<open>k\<close> bytes.\<close>

definition shifted :: "int \<Rightarrow> int list \<Rightarrow> int list" where
  "shifted k os = map (\<lambda>i. if i = - 1 then - 1 else i + k) os"

text \<open>gdb's 64-bit number for each of its first twelve 32-bit numbers: eax is rax, ecx is rcx, and so on.\<close>

definition wide_register :: "nat list" where
  "wide_register = [0, 2, 3, 1, 7, 6, 4, 5, 16, 17, 18, 19]"

section \<open>Properties\<close>

text \<open>The two signal tables are inverse to each other: every DragonFly signal from 0 to 31 comes back
  from gdb's as itself, every other number is unknown (\<open>SIGTHR\<close>, \<open>SIGCKPT\<close> and \<open>SIGCKPTEXIT\<close>
  included), and a gdb signal that has a number comes back from it.\<close>

theorem gdb_signal_roundtrip:
  "(0 \<le> n \<and> n \<le> 31 \<longrightarrow> dfly_gdb_signal_to_target (dfly_gdb_signal_from_target n) = n) \<and>
   (n < 0 \<or> 31 < n \<longrightarrow> dfly_gdb_signal_from_target n = GDB_SIGNAL_UNKNOWN) \<and>
   (dfly_gdb_signal_to_target g \<noteq> - 1 \<longrightarrow>
      dfly_gdb_signal_from_target (dfly_gdb_signal_to_target g) = g)"
  using roundtrip_table from_target_other [of n] to_target_back [of g] by auto

lemma gdb_signal_roundtrip_witness:
  "dfly_gdb_signal_to_target (dfly_gdb_signal_from_target 11) = 11 \<and>
   dfly_gdb_signal_from_target (dfly_gdb_signal_to_target GDB_SIGNAL_SEGV) = GDB_SIGNAL_SEGV \<and>
   dfly_gdb_signal_from_target (number_of SIGCKPT) = GDB_SIGNAL_UNKNOWN"
  using gdb_signal_roundtrip [of 11 GDB_SIGNAL_SEGV] gdb_signal_roundtrip [of 33 GDB_SIGNAL_SEGV]
  by simp

text \<open>The register tables fit the structures: in the 64-bit and in the 32-bit \<open>struct reg\<close> every offset
  is aligned, inside the size that gdb is told and used once, and the signal contexts hold the same
  registers 24 and 20 bytes further.  But the table for 32-bit registers in the 64-bit \<open>struct reg\<close>
  gives each of its twelve registers another place than the 64-bit table gives the register it is the
  lower half of.\<close>

theorem register_tables:
  "offsets_ok 8 amd64dfly_sizeof_gregset amd64dfly_r_reg_offset \<and>
   offsets_ok 4 i386dfly_sizeof_gregset i386dfly_r_reg_offset \<and>
   amd64dfly_sc_reg_offset = shifted 24 amd64dfly_r_reg_offset \<and>
   i386dfly_sc_reg_offset = shifted 20 i386dfly_r_reg_offset \<and>
   list_all2 (\<lambda>r o32. amd64dfly_r_reg_offset ! r \<noteq> o32) wide_register (take 12 amd64dfly32_r_reg_offset)"
  by code_simp

end
