(* ===== verification/Weston_Kbdev.thy ===== *)
theory Weston_Kbdev
  imports Prelude
begin

text \<open>
  The keyboard of weston on DragonFly, \<^verbatim>\<open>weston/newport/files/patch-src_kbdev.c\<close>: it reads the scan
  codes of the console keyboard, translates them to evdev key codes, and keeps the keys that are down,
  so that they can be released when the console is switched away.

  The state is the structure of the code with its array of 256 bytes; an access outside the array or
  outside the caller's buffer of events is the fault \<open>Out_of_bounds\<close>.  What the keyboard delivers is a
  script of the results of \<open>read\<close> on the non-blocking descriptor.  The code removes a key from the
  array with a \<open>memcpy\<close> whose regions overlap as soon as two keys follow; C leaves that undefined, so the
  routine that copies is an argument, and the locale \<open>downward_copy\<close> states what the code needs of it.
  The lemmas show the type of the state, that the array is the set of keys that are down, and that
  popping releases every one of them.
\<close>

unbundle bit_operations_syntax

type_synonym atcode = "8 word"

record kbdev_event =
  keycode :: int
  ev_pressed :: int

record kbdev_state =
  kbdfd :: int
  lastread_code :: atcode
  pressed :: "atcode list"
  npressed :: nat

datatype kb_fault = Out_of_bounds

section \<open>Scan codes\<close>

text \<open>\<open>int code_to_key[128]\<close>: the entries that the initialiser names; all others are 0.\<close>

definition code_to_key_entries :: "(nat \<times> int) list" where
  "code_to_key_entries =
    [(0x54, 99), (0x59, 96), (0x5a, 97), (0x5b, 98), (0x5c, 210), (0x5d, 100), (0x5e, 102),
     (0x5f, 103), (0x60, 104), (0x61, 105), (0x62, 106), (0x63, 107), (0x64, 108), (0x65, 109),
     (0x66, 110), (0x67, 111), (0x68, 119), (0x69, 125), (0x6a, 126), (0x6b, 139), (0x6c, 0x19b)]"

definition code_to_key :: "nat \<Rightarrow> int" where
  "code_to_key c = (case map_of code_to_key_entries c of Some k \<Rightarrow> k | None \<Rightarrow> 0)"

definition atcode_to_event :: "atcode \<Rightarrow> kbdev_event" where
  "atcode_to_event atcode =
     (let c = unat (atcode AND 0x7f);
          code = (if c \<le> 0x58 then int c else code_to_key c);
          code = (if code = 0 then int c else code)
      in \<lparr>keycode = code, ev_pressed = (if atcode AND 0x80 \<noteq> 0 then 0 else 1)\<rparr>)"

section \<open>The keys that are down\<close>

text \<open>\<open>for (i = 0; i < npressed; i++) if (pressed[i] == code) return 1; return 0;\<close>\<close>

definition ispressed :: "kbdev_state \<Rightarrow> atcode \<Rightarrow> bool" where
  "ispressed st code = list_ex (\<lambda>i. pressed st ! i = code) [0..<npressed st]"

definition press :: "kbdev_state \<Rightarrow> atcode \<Rightarrow> kb_fault + kbdev_state" where
  "press st code =
     (if \<not> ispressed st code then
        (if npressed st < length (pressed st) then
           Inr (st\<lparr>pressed := (pressed st)[npressed st := code], npressed := npressed st + 1\<rparr>)
         else Inl Out_of_bounds)
      else Inr st)"

text \<open>\<open>memcpy(&a[d], &a[s], n)\<close> on one array is \<open>cp a d s n\<close>.\<close>

type_synonym copier = "atcode list \<Rightarrow> nat \<Rightarrow> nat \<Rightarrow> nat \<Rightarrow> atcode list"

text \<open>The loop of \<open>release\<close>, from index \<open>i\<close> on; it goes on behind the index at which it removed.\<close>

function release_from :: "copier \<Rightarrow> atcode \<Rightarrow> nat \<Rightarrow> kbdev_state \<Rightarrow> kb_fault + kbdev_state" where
  "release_from cp code i st =
     (if i < npressed st then
        (if pressed st ! i = code then
           (let n = npressed st - 1 in
            if i + 1 + (n - i) \<le> length (pressed st) then
              release_from cp code (i + 1)
                (st\<lparr>npressed := n, pressed := cp (pressed st) i (i + 1) (n - i)\<rparr>)
            else Inl Out_of_bounds)
         else release_from cp code (i + 1) st)
      else Inr st)"
  by pat_completeness auto
termination
  by (relation "measure (\<lambda>(cp, code, i, st). npressed st - i)") auto

declare release_from.simps [simp del]

definition release :: "copier \<Rightarrow> kbdev_state \<Rightarrow> atcode \<Rightarrow> kb_fault + kbdev_state" where
  "release cp st code = release_from cp code 0 st"

section \<open>Operations on the device\<close>

text \<open>The result of an \<open>ioctl\<close> is an argument.  \<open>kbdev_new_state\<close> also takes whether \<open>calloc\<close> succeeds.\<close>

definition kbdev_new_state :: "bool \<Rightarrow> int \<Rightarrow> int \<Rightarrow> kbdev_state option" where
  "kbdev_new_state alloc kdskbmode fd =
     (if \<not> alloc then None
      else if kdskbmode \<noteq> 0 then None
      else Some \<lparr>kbdfd = fd, lastread_code = 0, pressed = replicate 256 0, npressed = 0\<rparr>)"

definition kbdev_reset_state :: "kbdev_state \<Rightarrow> kbdev_state" where
  "kbdev_reset_state st = st\<lparr>lastread_code := 0, npressed := 0\<rparr>"

text \<open>What a \<open>read\<close> of at most \<open>r\<close> bytes returns.  A read that asks for less than is there leaves the
  rest; a script that has ended is a keyboard with nothing to deliver.\<close>

datatype kb_input = Bytes "atcode list" | Read_error

fun kb_read :: "nat \<Rightarrow> kb_input list \<Rightarrow> atcode list option \<times> bool \<times> kb_input list" where
  "kb_read r [] = (None, True, [])"
| "kb_read r (Read_error # ks) = (None, False, ks)"
| "kb_read r (Bytes bs # ks) =
     (Some (take r bs), False, if length bs \<le> r then ks else Bytes (drop r bs) # ks)"

text \<open>The body of the loop over the bytes of one read.  The events are those stored in \<open>out\<close> so far.\<close>

definition kb_byte ::
  "copier \<Rightarrow> nat \<Rightarrow> kbdev_state \<times> kbdev_event list \<Rightarrow> atcode \<Rightarrow> kb_fault + kbdev_state \<times> kbdev_event list"
where
  "kb_byte cp cnt = (\<lambda>(st, out) b.
     if lastread_code st = b \<and> b AND 0x80 = 0 then Inr (st, out)
     else
       let ev = atcode_to_event b in
       if keycode ev = 0 then Inr (st, out)
       else
         let st = st\<lparr>lastread_code := b\<rparr> in
         (case (if ev_pressed ev \<noteq> 0 then press st (b AND 0x7f) else release cp st (b AND 0x7f)) of
            Inl e \<Rightarrow> Inl e
          | Inr st \<Rightarrow>
              if length out < cnt then Inr (st, out @ [ev]) else Inl Out_of_bounds))"

fun kb_bytes ::
  "copier \<Rightarrow> nat \<Rightarrow> kbdev_state \<times> kbdev_event list \<Rightarrow> atcode list \<Rightarrow> kb_fault + kbdev_state \<times> kbdev_event list"
where
  "kb_bytes cp cnt s [] = Inr s"
| "kb_bytes cp cnt s (b # bs) =
     (case kb_byte cp cnt s b of Inl e \<Rightarrow> Inl e | Inr s \<Rightarrow> kb_bytes cp cnt s bs)"

fun kb_weight :: "kb_input list \<Rightarrow> nat" where
  "kb_weight [] = 0"
| "kb_weight (Read_error # ks) = Suc (kb_weight ks)"
| "kb_weight (Bytes bs # ks) = Suc (length bs + kb_weight ks)"

lemma kb_read_weight:
  "kb_read r ks = (Some bs, e, ks') \<Longrightarrow> 0 < r \<Longrightarrow> kb_weight ks' < kb_weight ks"
  by (induction r ks rule: kb_read.induct) (auto split: if_splits)

text \<open>\<open>kbdev_read_events\<close>: the state, what is left of the script, the events in \<open>out\<close> and the value.
  \<open>n\<close> of the code is the number of events in \<open>out\<close>.\<close>

function kb_read_loop ::
  "copier \<Rightarrow> nat \<Rightarrow> kbdev_state \<Rightarrow> kbdev_event list \<Rightarrow> kb_input list \<Rightarrow>
   kb_fault + kbdev_state \<times> kb_input list \<times> kbdev_event list \<times> int"
where
  "kb_read_loop cp cnt st out ks =
     (if length out < cnt then
        (case kb_read (min (cnt - length out) 128) ks of
           (Some bs, _, ks') \<Rightarrow>
             if bs = [] then Inr (st, ks', out, int (length out))
             else (case kb_bytes cp cnt (st, out) bs of
                Inl e \<Rightarrow> Inl e
              | Inr (st, out') \<Rightarrow> kb_read_loop cp cnt st out' ks')
         | (None, eagain, ks') \<Rightarrow>
             if eagain then Inr (st, ks', out, int (length out)) else Inr (st, ks', out, - 1))
      else Inr (st, ks, out, int (length out)))"
  by pat_completeness auto
termination
  by (relation "measure (\<lambda>(cp, cnt, st, out, ks). kb_weight ks)") (auto dest: kb_read_weight [OF sym])

declare kb_read_loop.simps [simp del]

definition kbdev_read_events ::
  "copier \<Rightarrow> kbdev_state \<Rightarrow> kb_input list \<Rightarrow> nat \<Rightarrow>
   kb_fault + kbdev_state \<times> kb_input list \<times> kbdev_event list \<times> int"
where
  "kbdev_read_events cp st ks cnt = kb_read_loop cp cnt st [] ks"

text \<open>\<open>kbdev_pop_pressed\<close>: the event in \<open>out\<close>, or \<open>None\<close> where it returns 0.\<close>

function kbdev_pop_pressed :: "kbdev_state \<Rightarrow> kbdev_state \<times> kbdev_event option" where
  "kbdev_pop_pressed st =
     (if 0 < npressed st then
        (let st = st\<lparr>npressed := npressed st - 1\<rparr>;
             ev = atcode_to_event (pressed st ! npressed st)
         in if keycode ev = 0 then kbdev_pop_pressed st
            else (st, Some (ev\<lparr>ev_pressed := 0\<rparr>)))
      else (st, None))"
  by pat_completeness auto
termination
  by (relation "measure npressed") auto

declare kbdev_pop_pressed.simps [simp del]

section \<open>The copy that the code relies on\<close>

locale downward_copy =
  fixes cp :: copier
  assumes copies: "d \<le> s \<Longrightarrow> s + n \<le> length a \<Longrightarrow>
    cp a d s n = take d a @ take n (drop s a) @ drop (d + n) a"
begin

lemma remove_at:
  "i < n \<Longrightarrow> n \<le> length a \<Longrightarrow>
   take (n - 1) (cp a i (i + 1) (n - 1 - i)) = take i a @ drop (i + 1) (take n a)"
  by (simp add: copies drop_take)

lemma length_copies:
  "i < n \<Longrightarrow> n \<le> length a \<Longrightarrow> length (cp a i (i + 1) (n - 1 - i)) = length a"
  by (simp add: copies)

end

text \<open>Copying byte by byte upwards has this property, although the regions overlap.\<close>

fun copy_bytes_up :: copier where
  "copy_bytes_up a d s 0 = a"
| "copy_bytes_up a d s (Suc n) = copy_bytes_up (a[d := a ! s]) (Suc d) (Suc s) n"

lemma copy_bytes_up_eq:
  "d \<le> s \<Longrightarrow> s + n \<le> length a \<Longrightarrow>
   copy_bytes_up a d s n = take d a @ take n (drop s a) @ drop (d + n) a"
proof (induction n arbitrary: a d s)
  case (Suc n)
  let ?a = "a[d := a ! s]"
  have tl: "drop (Suc s) ?a = drop (Suc s) a" "drop (Suc d + n) ?a = drop (Suc d + n) a"
    and hd: "take (Suc d) ?a = take d a @ [a ! s]"
    and mid: "take (Suc n) (drop s a) = a ! s # take n (drop (Suc s) a)"
    using Suc.prems
    by (simp_all add: take_Suc_conv_app_nth Cons_nth_drop_Suc [symmetric] del: drop_Suc)
  have "copy_bytes_up a d s (Suc n) = take (Suc d) ?a @ take n (drop (Suc s) ?a) @ drop (Suc d + n) ?a"
    using Suc by simp
  then show ?case unfolding tl hd mid by simp
qed simp

interpretation bytes_up: downward_copy copy_bytes_up
  by unfold_locales (rule copy_bytes_up_eq)

section \<open>The array is the list of the keys that are down\<close>

definition held :: "kbdev_state \<Rightarrow> atcode list" where
  "held st = take (npressed st) (pressed st)"

definition make_code :: "atcode \<Rightarrow> bool" where
  "make_code c \<longleftrightarrow> c \<noteq> 0 \<and> c AND 0x80 = 0"

definition kb_ok :: "kbdev_state \<Rightarrow> bool" where
  "kb_ok st \<longleftrightarrow> length (pressed st) = 256 \<and> npressed st \<le> 256 \<and> distinct (held st) \<and>
     (\<forall>c \<in> set (held st). make_code c)"

lemma length_held [simp]: "kb_ok st \<Longrightarrow> length (held st) = npressed st"
  by (simp add: kb_ok_def held_def)

lemma kb_okI:
  "length (pressed st) = 256 \<Longrightarrow> npressed st \<le> 256 \<Longrightarrow> held st = cs \<Longrightarrow> distinct cs \<Longrightarrow>
   \<forall>c\<in>set cs. make_code c \<Longrightarrow> kb_ok st"
  by (simp add: kb_ok_def)

lemma ispressed_iff: "npressed st \<le> length (pressed st) \<Longrightarrow> ispressed st c \<longleftrightarrow> c \<in> set (held st)"
  by (auto simp: ispressed_def held_def list_ex_iff in_set_conv_nth)

lemma make_code_less: "make_code c \<Longrightarrow> unat c \<in> {1..127}"
proof -
  assume c: "make_code c"
  have "\<not> bit c 7"
  proof
    assume "bit c 7"
    then have "bit (c AND 0x80) 7" by (simp add: bit_and_iff bit_numeral_rec)
    then show False using c by (simp add: make_code_def)
  qed
  then have "c = take_bit 7 c"
    by (intro bit_word_eqI) (auto simp: bit_take_bit_iff less_Suc_eq numeral_eq_Suc)
  then have "unat c = take_bit 7 (unat c)" by (metis unsigned_take_bit_eq)
  then have "unat c < 128" using take_bit_nat_less_exp [of 7 "unat c"] by simp
  moreover have "unat c \<noteq> 0" using c by (simp add: make_code_def unat_eq_0)
  ultimately show ?thesis by simp
qed

lemma kb_ok_npressed: "kb_ok st \<Longrightarrow> npressed st \<le> 127"
proof -
  assume ok: "kb_ok st"
  have "unat ` set (held st) \<subseteq> {1..127}"
    using ok make_code_less by (auto simp: kb_ok_def)
  then have "card (unat ` set (held st)) \<le> card {1..127::nat}" by (intro card_mono) auto
  moreover have "card (unat ` set (held st)) = card (set (held st))"
    by (intro card_image inj_onI) (simp add: word_unat_eq_iff)
  moreover have "card (set (held st)) = npressed st"
    using ok by (simp add: kb_ok_def distinct_card held_def)
  ultimately show ?thesis by simp
qed

lemma press_ok:
  assumes "kb_ok st" "make_code c"
  shows "\<exists>st'. press st c = Inr st' \<and> kb_ok st' \<and>
    held st' = (if c \<in> set (held st) then held st else held st @ [c]) \<and>
    lastread_code st' = lastread_code st \<and> kbdfd st' = kbdfd st"
proof (cases "c \<in> set (held st)")
  case True
  then show ?thesis using assms by (simp add: press_def ispressed_iff kb_ok_def)
next
  case False
  let ?st = "st\<lparr>pressed := (pressed st)[npressed st := c], npressed := npressed st + 1\<rparr>"
  have n: "npressed st < 256" "length (pressed st) = 256"
    using kb_ok_npressed assms by (force simp: kb_ok_def)+
  then have h: "held ?st = held st @ [c]" by (simp add: held_def take_Suc_conv_app_nth)
  moreover have "kb_ok ?st" using assms n False by (auto simp: kb_ok_def h [simplified])
  ultimately show ?thesis using False n assms by (simp add: press_def ispressed_iff kb_ok_def)
qed

lemma release_from_none:
  "code \<notin> set (drop i (held st)) \<Longrightarrow> npressed st \<le> length (pressed st) \<Longrightarrow>
   release_from cp code i st = Inr st"
proof (induction cp code i st rule: release_from.induct)
  case (1 cp code i st)
  show ?case
  proof (cases "i < npressed st")
    case True
    then have "drop i (held st) = pressed st ! i # drop (Suc i) (held st)"
      using 1 by (simp add: held_def Cons_nth_drop_Suc [symmetric])
    then show ?thesis using 1 True by (auto simp: release_from.simps)
  qed (simp add: release_from.simps)
qed

lemma release_from_skip:
  "code \<notin> set (take j (held st)) \<Longrightarrow> npressed st \<le> length (pressed st) \<Longrightarrow> i \<le> j \<Longrightarrow> j \<le> npressed st \<Longrightarrow>
   release_from cp code i st = release_from cp code j st"
proof (induction cp code i st rule: release_from.induct)
  case (1 cp code i st)
  show ?case
  proof (cases "i < j")
    case True
    have "pressed st ! i \<in> set (take j (held st))"
      using True 1 by (auto simp: held_def in_set_conv_nth min_def intro!: exI [of _ i])
    then show ?thesis using 1 True by (subst release_from.simps) auto
  next
    case False
    then have "i = j" using 1 by simp
    then show ?thesis by simp
  qed
qed

context downward_copy
begin

lemma release_held:
  assumes "kb_ok st"
  shows "\<exists>st'. release cp st code = Inr st' \<and> kb_ok st' \<and> held st' = remove1 code (held st) \<and>
    lastread_code st' = lastread_code st \<and> kbdfd st' = kbdfd st"
proof (cases "code \<in> set (held st)")
  case False
  then show ?thesis
    using assms by (auto simp: release_def release_from_none kb_ok_def remove1_idem)
next
  case True
  have ok: "length (pressed st) = 256" "npressed st \<le> 256" using assms by (auto simp: kb_ok_def)
  obtain xs ys where xy: "held st = xs @ code # ys" "code \<notin> set xs" using split_list_first [OF True] by blast
  let ?i = "length xs" and ?n = "npressed st - 1"
  let ?st = "st\<lparr>npressed := ?n, pressed := cp (pressed st) ?i (?i + 1) (?n - ?i)\<rparr>"
  have n: "npressed st = length xs + length ys + 1"
    using length_held [OF assms] xy(1) by simp
  then have i: "?i < npressed st" by simp
  have "take ?i (pressed st) @ drop (?i + 1) (take (npressed st) (pressed st)) = xs @ ys"
  proof -
    have "take ?i (pressed st) = take ?i (held st)" using n by (simp add: held_def)
    also have "\<dots> = xs" using xy(1) by simp
    finally have "take ?i (pressed st) = xs" .
    moreover have "drop (?i + 1) (held st) = ys" using xy(1) by simp
    ultimately show ?thesis by (simp add: held_def)
  qed
  then have h: "held ?st = xs @ ys"
    using remove_at [OF i] ok by (simp add: held_def)
  have nth: "pressed st ! ?i = code"
  proof -
    have "held st ! ?i = code" using xy by simp
    then show ?thesis using i by (simp add: held_def)
  qed
  have len: "length (pressed ?st) = 256" using length_copies [OF i] ok by simp
  have d: "code \<notin> set ys" using assms xy by (auto simp: kb_ok_def)
  have "release cp st code = release_from cp code ?i st"
    unfolding release_def using xy n ok by (intro release_from_skip) auto
  also have "\<dots> = release_from cp code (?i + 1) ?st"
    using i nth ok n by (subst release_from.simps) (simp add: Let_def)
  also have "\<dots> = Inr ?st"
  proof (rule release_from_none)
    show "code \<notin> set (drop (?i + 1) (held ?st))"
      unfolding h using d by (auto dest: in_set_dropD)
    show "npressed ?st \<le> length (pressed ?st)" unfolding len using ok by simp
  qed
  finally have r: "release cp st code = Inr ?st" .
  have "kb_ok ?st"
  proof (rule kb_okI [OF len _ h])
    show "npressed ?st \<le> 256" using ok by simp
  qed (use assms xy in \<open>auto simp: kb_ok_def\<close>)
  moreover have "remove1 code (held st) = xs @ ys" using xy by (simp add: remove1_append)
  ultimately show ?thesis using r h by auto
qed

end

section \<open>What reading promises\<close>

text \<open>The contract: a keyboard is the list of the keys that are down, in the order in which they went
  down, and the last code that counted.  A byte is a key going down (bit 7 clear) or up; a code that
  repeats the last one, and the code 0, do not count.\<close>

type_synonym keyboard = "atcode list \<times> atcode"

definition keyboard_byte :: "keyboard \<Rightarrow> atcode \<Rightarrow> keyboard \<times> kbdev_event list" where
  "keyboard_byte = (\<lambda>(ks, l) b.
     let c = b AND 0x7f in
     if c = 0 \<or> l = b \<and> b AND 0x80 = 0 then ((ks, l), [])
     else ((if b AND 0x80 \<noteq> 0 then remove1 c ks else if c \<in> set ks then ks else ks @ [c], b),
           [atcode_to_event b]))"

fun keyboard_bytes :: "keyboard \<Rightarrow> atcode list \<Rightarrow> keyboard \<times> kbdev_event list" where
  "keyboard_bytes k [] = (k, [])"
| "keyboard_bytes k (b # bs) =
     (case keyboard_byte k b of (k, es) \<Rightarrow> case keyboard_bytes k bs of (k, es') \<Rightarrow> (k, es @ es'))"

definition keyboard_of :: "kbdev_state \<Rightarrow> keyboard" where
  "keyboard_of st = (held st, lastread_code st)"

fun kb_content :: "kb_input list \<Rightarrow> atcode list" where
  "kb_content [] = []"
| "kb_content (Read_error # ks) = kb_content ks"
| "kb_content (Bytes bs # ks) = bs @ kb_content ks"

lemma keyboard_bytes_append:
  "keyboard_bytes k (as @ bs) =
     (case keyboard_bytes k as of (k, es) \<Rightarrow> case keyboard_bytes k bs of (k, es') \<Rightarrow> (k, es @ es'))"
  by (induction as arbitrary: k) (auto split: prod.splits)

lemma keyboard_byte_events: "length (snd (keyboard_byte k b)) \<le> 1"
  by (auto simp: keyboard_byte_def Let_def split: prod.splits)

lemma code_to_key_pos: "code_to_key c = 0 \<or> 0 < code_to_key c"
proof (cases "map_of code_to_key_entries c")
  case (Some k)
  then have "(c, k) \<in> set code_to_key_entries" by (rule map_of_SomeD)
  then show ?thesis using Some by (auto simp: code_to_key_def code_to_key_entries_def)
qed (simp add: code_to_key_def)

lemma keycode_0_iff: "keycode (atcode_to_event b) = 0 \<longleftrightarrow> b AND 0x7f = 0"
  by (auto simp: atcode_to_event_def Let_def unat_eq_0 uint_0_iff)

lemma make_code_masked: "b AND 0x7f \<noteq> 0 \<Longrightarrow> make_code (b AND 0x7f)"
  by (simp add: make_code_def and.assoc)

lemma ev_pressed_iff: "ev_pressed (atcode_to_event b) = (if b AND 0x80 \<noteq> 0 then 0 else 1)"
  by (simp add: atcode_to_event_def Let_def)

lemma kb_read_content: "kb_read r ks = (Some bs, e, ks') \<Longrightarrow> kb_content ks = bs @ kb_content ks' \<and> length bs \<le> r"
  by (cases "(r, ks)" rule: kb_read.cases) (auto split: if_splits)

lemma kb_read_none: "kb_read r ks = (None, e, ks') \<Longrightarrow> kb_content ks' = kb_content ks"
  by (cases "(r, ks)" rule: kb_read.cases) (auto split: if_splits)

context downward_copy
begin

lemma kb_byte_refines:
  assumes "kb_ok st" "length out < cnt"
  shows "\<exists>st'. kb_byte cp cnt (st, out) b = Inr (st', out @ snd (keyboard_byte (keyboard_of st) b)) \<and>
    kb_ok st' \<and> keyboard_of st' = fst (keyboard_byte (keyboard_of st) b)"
proof (cases "b AND 0x7f = 0 \<or> lastread_code st = b \<and> b AND 0x80 = 0")
  case True
  then show ?thesis
    using assms keycode_0_iff [of b]
    by (auto simp: kb_byte_def keyboard_byte_def keyboard_of_def Let_def)
next
  case False
  let ?st = "st\<lparr>lastread_code := b\<rparr>"
  have st: "kb_ok ?st" "held ?st = held st" using assms by (auto simp: kb_ok_def held_def)
  have code: "make_code (b AND 0x7f)" using False make_code_masked by blast
  have "\<exists>st'. (if ev_pressed (atcode_to_event b) \<noteq> 0 then press ?st (b AND 0x7f)
      else release cp ?st (b AND 0x7f)) = Inr st' \<and> kb_ok st' \<and>
      keyboard_of st' = fst (keyboard_byte (keyboard_of st) b)"
    using press_ok [OF st(1) code] release_held [OF st(1), of "b AND 0x7f"] False st(2)
    by (auto simp: ev_pressed_iff keyboard_byte_def keyboard_of_def Let_def)
  moreover have "snd (keyboard_byte (keyboard_of st) b) = [atcode_to_event b]"
    using False by (auto simp: keyboard_byte_def keyboard_of_def Let_def)
  ultimately show ?thesis
    using False assms keycode_0_iff [of b] by (auto simp: kb_byte_def Let_def)
qed

lemma kb_bytes_refines:
  "kb_ok st \<Longrightarrow> length out + length bs \<le> cnt \<Longrightarrow>
   \<exists>st'. kb_bytes cp cnt (st, out) bs = Inr (st', out @ snd (keyboard_bytes (keyboard_of st) bs)) \<and>
    kb_ok st' \<and> keyboard_of st' = fst (keyboard_bytes (keyboard_of st) bs) \<and>
    length (snd (keyboard_bytes (keyboard_of st) bs)) \<le> length bs"
proof (induction bs arbitrary: st out)
  case (Cons b bs)
  let ?e = "snd (keyboard_byte (keyboard_of st) b)"
  have "length out < cnt" using Cons.prems(2) by simp
  then obtain st1 where st1: "kb_byte cp cnt (st, out) b = Inr (st1, out @ ?e)" "kb_ok st1"
    "keyboard_of st1 = fst (keyboard_byte (keyboard_of st) b)"
    using kb_byte_refines [OF Cons.prems(1)] by blast
  have "length ?e \<le> 1" by (rule keyboard_byte_events)
  then have l: "length (out @ ?e) + length bs \<le> cnt" using Cons.prems(2) by simp
  have "keyboard_bytes (keyboard_of st) (b # bs) =
      (fst (keyboard_bytes (keyboard_of st1) bs), ?e @ snd (keyboard_bytes (keyboard_of st1) bs))"
    by (simp add: st1(3) case_prod_unfold)
  moreover obtain st2 where "kb_bytes cp cnt (st1, out @ ?e) bs =
      Inr (st2, (out @ ?e) @ snd (keyboard_bytes (keyboard_of st1) bs))"
    "kb_ok st2" "keyboard_of st2 = fst (keyboard_bytes (keyboard_of st1) bs)"
    "length (snd (keyboard_bytes (keyboard_of st1) bs)) \<le> length bs"
    using Cons.IH [OF st1(2) l] by blast
  ultimately show ?case
    using st1(1) \<open>length ?e \<le> 1\<close> by (intro exI [of _ st2]) simp
qed simp

lemma kb_read_loop_refines:
  "kb_ok st \<Longrightarrow> length out \<le> cnt \<Longrightarrow>
   \<exists>st' ks' bs r. kb_read_loop cp cnt st out ks =
       Inr (st', ks', out @ snd (keyboard_bytes (keyboard_of st) bs), r) \<and>
     kb_ok st' \<and> kb_content ks = bs @ kb_content ks' \<and>
     keyboard_of st' = fst (keyboard_bytes (keyboard_of st) bs) \<and>
     length out + length (snd (keyboard_bytes (keyboard_of st) bs)) \<le> cnt \<and>
     (r = - 1 \<or> r = int (length out + length (snd (keyboard_bytes (keyboard_of st) bs))))"
proof (induction "kb_weight ks" arbitrary: st out ks rule: less_induct)
  case less
  let ?r = "min (cnt - length out) 128"
  show ?case
  proof (cases "length out < cnt")
    case False
    then show ?thesis
      using less.prems by (subst kb_read_loop.simps) (auto intro!: exI [of _ "[]"])
  next
    case True
    obtain res e ks' where rd: "kb_read ?r ks = (res, e, ks')" by (cases "kb_read ?r ks") auto
    show ?thesis
    proof (cases res)
      case None
      then show ?thesis
        using less.prems True rd kb_read_none [of ?r ks e ks']
        by (subst kb_read_loop.simps) (auto intro!: exI [of _ "[]"])
    next
      case (Some bs)
      have bs: "kb_content ks = bs @ kb_content ks'" "length bs \<le> ?r"
        using kb_read_content rd Some by blast+
      let ?k = "keyboard_bytes (keyboard_of st) bs"
      show ?thesis
      proof (cases "bs = []")
        case True
        then show ?thesis
          using less.prems \<open>length out < cnt\<close> rd Some bs
          by (subst kb_read_loop.simps) (auto intro!: exI [of _ "[]"])
      next
        case False
        obtain st1 where st1: "kb_bytes cp cnt (st, out) bs = Inr (st1, out @ snd ?k)" "kb_ok st1"
          "keyboard_of st1 = fst ?k" "length (snd ?k) \<le> length bs"
          using kb_bytes_refines [OF less.prems(1), of out bs cnt] bs(2) True by fastforce
        have w: "kb_weight ks' < kb_weight ks" using kb_read_weight rd Some True by auto
        have "length bs \<le> cnt - length out" using bs(2) by simp
        then have l: "length (out @ snd ?k) \<le> cnt" using st1(4) True by simp
        obtain st2 ks2 bs2 r where ih: "kb_read_loop cp cnt st1 (out @ snd ?k) ks' =
            Inr (st2, ks2, (out @ snd ?k) @ snd (keyboard_bytes (fst ?k) bs2), r)"
          "kb_ok st2" "kb_content ks' = bs2 @ kb_content ks2"
          "keyboard_of st2 = fst (keyboard_bytes (fst ?k) bs2)"
          "length (out @ snd ?k) + length (snd (keyboard_bytes (fst ?k) bs2)) \<le> cnt"
          "r = - 1 \<or> r = int (length (out @ snd ?k) + length (snd (keyboard_bytes (fst ?k) bs2)))"
          using less.hyps [OF w st1(2) l] st1(3) by auto
        have "kb_read_loop cp cnt st out ks = kb_read_loop cp cnt st1 (out @ snd ?k) ks'"
          using True rd Some False st1(1) by (subst kb_read_loop.simps) simp
        then show ?thesis
          using ih bs(1) by (intro exI [of _ st2] exI [of _ ks2] exI [of _ "bs @ bs2"] exI [of _ r])
            (auto simp: keyboard_bytes_append split: prod.splits)
      qed
    qed
  qed
qed

end

section \<open>Popping the keys that are down\<close>

definition up_event :: "atcode \<Rightarrow> kbdev_event" where
  "up_event c = (atcode_to_event c)\<lparr>ev_pressed := 0\<rparr>"

lemma make_code_masked_id: "make_code c \<Longrightarrow> c AND 0x7f = c"
proof -
  assume c: "make_code c"
  have "c AND 0x7f = take_bit 7 c" by (simp add: take_bit_eq_mask mask_eq_exp_minus_1 and.commute)
  moreover have "take_bit 7 c = c"
    using make_code_less [OF c] by (simp add: take_bit_word_eq_self word_unat_eq_iff unsigned_take_bit_eq take_bit_nat_eq_self)
  ultimately show ?thesis by simp
qed

lemma keycode_make_code: "make_code c \<Longrightarrow> keycode (atcode_to_event c) \<noteq> 0"
  by (simp add: keycode_0_iff make_code_masked_id) (simp add: make_code_def)

lemma pop_pressed_none: "npressed st = 0 \<Longrightarrow> kbdev_pop_pressed st = (st, None)"
  by (simp add: kbdev_pop_pressed.simps)

lemma pop_pressed_some:
  assumes ok: "kb_ok st" and n: "npressed st = Suc n"
  shows "kbdev_pop_pressed st = (st\<lparr>npressed := n\<rparr>, Some (up_event (last (held st)))) \<and>
    kb_ok (st\<lparr>npressed := n\<rparr>) \<and> held st = held (st\<lparr>npressed := n\<rparr>) @ [last (held st)]"
proof -
  let ?st = "st\<lparr>npressed := n\<rparr>"
  have len: "n < length (pressed st)" using ok n by (simp add: kb_ok_def)
  then have h: "held st = held ?st @ [pressed st ! n]"
    using n by (simp add: held_def take_Suc_conv_app_nth)
  then have "make_code (pressed st ! n)" using ok by (simp add: kb_ok_def)
  then have "kbdev_pop_pressed st = (?st, Some (up_event (pressed st ! n)))"
    using n by (simp add: kbdev_pop_pressed.simps Let_def keycode_make_code up_event_def)
  moreover have "kb_ok ?st" using ok n h by (auto simp: kb_ok_def)
  ultimately show ?thesis using h by simp
qed

text \<open>Calling it until it returns 0, at most \<open>n\<close> times.\<close>

fun pop_keys :: "nat \<Rightarrow> kbdev_state \<Rightarrow> kbdev_state \<times> kbdev_event list" where
  "pop_keys 0 st = (st, [])"
| "pop_keys (Suc n) st =
     (case kbdev_pop_pressed st of
        (st, None) \<Rightarrow> (st, [])
      | (st, Some ev) \<Rightarrow> (case pop_keys n st of (st, evs) \<Rightarrow> (st, ev # evs)))"

lemma pop_keys_all:
  "kb_ok st \<Longrightarrow> npressed st = n \<Longrightarrow>
   pop_keys n st = (st\<lparr>npressed := 0\<rparr>, map up_event (rev (held st)))"
proof (induction n arbitrary: st)
  case 0
  then show ?case by (simp add: held_def)
next
  case (Suc n)
  let ?st = "st\<lparr>npressed := n\<rparr>"
  have *: "kbdev_pop_pressed st = (?st, Some (up_event (last (held st))))" "kb_ok ?st"
    "held st = held ?st @ [last (held st)]"
    using pop_pressed_some [OF Suc.prems] by auto
  have "pop_keys n ?st = (st\<lparr>npressed := 0\<rparr>, map up_event (rev (held ?st)))"
    using Suc.IH [OF *(2)] by simp
  moreover have "map up_event (rev (held st)) = up_event (last (held st)) # map up_event (rev (held ?st))"
    by (subst *(3)) simp
  ultimately show ?case using *(1) by simp
qed

section \<open>Sessions with the keyboard\<close>

text \<open>What a client does with a keyboard: the state, the events that it was given, and whether it was
  given all: a failed read throws away the events that were read before it, and resetting forgets the
  keys that are down.\<close>

inductive kbdev_run :: "copier \<Rightarrow> kbdev_state \<Rightarrow> kbdev_event list \<Rightarrow> bool \<Rightarrow> bool" for cp where
  new: "kbdev_new_state True 0 fd = Some st \<Longrightarrow> kbdev_run cp st [] True"
| read: "kbdev_run cp st evs complete \<Longrightarrow> kbdev_read_events cp st ks cnt = Inr (st', ks', out, r) \<Longrightarrow>
    kbdev_run cp st' (if 0 \<le> r then evs @ out else evs) (complete \<and> 0 \<le> r)"
| pop: "kbdev_run cp st evs complete \<Longrightarrow> kbdev_pop_pressed st = (st', ev) \<Longrightarrow>
    kbdev_run cp st' (case ev of None \<Rightarrow> evs | Some ev \<Rightarrow> evs @ [ev]) complete"
| reset: "kbdev_run cp st evs complete \<Longrightarrow>
    kbdev_run cp (kbdev_reset_state st) evs (complete \<and> npressed st = 0)"

lemma kbdev_new_ok: "kbdev_new_state True 0 fd = Some st \<Longrightarrow> kb_ok st \<and> held st = []"
  by (auto simp: kbdev_new_state_def kb_ok_def held_def)

lemma kbdev_reset_ok: "kb_ok st \<Longrightarrow> kb_ok (kbdev_reset_state st) \<and> held (kbdev_reset_state st) = []"
  by (simp add: kbdev_reset_state_def kb_ok_def held_def)

lemma pop_pressed_ok: "kb_ok st \<Longrightarrow> kbdev_pop_pressed st = (st', ev) \<Longrightarrow> kb_ok st'"
  using pop_pressed_some [of st "npressed st - 1"] pop_pressed_none [of st]
  by (cases "npressed st") auto

text \<open>A key code is down in a sequence of events when its last event is a press.\<close>

definition key_down :: "kbdev_event list \<Rightarrow> int \<Rightarrow> bool" where
  "key_down evs k = fold (\<lambda>e d. if keycode e = k then ev_pressed e \<noteq> 0 else d) evs False"

lemma key_down_Nil [simp]: "\<not> key_down [] k"
  by (simp add: key_down_def)

lemma key_down_snoc [simp]:
  "key_down (evs @ [e]) k = (if keycode e = k then ev_pressed e \<noteq> 0 else key_down evs k)"
  by (simp add: key_down_def)

lemma key_down_up_events:
  "key_down (evs @ map up_event cs) k \<longleftrightarrow> key_down evs k \<and> k \<notin> (\<lambda>c. keycode (atcode_to_event c)) ` set cs"
  by (induction cs rule: rev_induct)
    (auto simp: up_event_def key_down_snoc append_assoc [symmetric] simp del: append_assoc)

lemma keycode_masked: "keycode (atcode_to_event (b AND 0x7f)) = keycode (atcode_to_event b)"
  by (simp add: atcode_to_event_def Let_def and.assoc)

text \<open>Each key code that is down in the events is the code of a key that is down.\<close>

definition covers :: "atcode list \<Rightarrow> kbdev_event list \<Rightarrow> bool" where
  "covers cs evs \<longleftrightarrow> (\<forall>k. key_down evs k \<longrightarrow> (\<exists>c\<in>set cs. keycode (atcode_to_event c) = k))"

lemma covers_byte:
  assumes "covers cs evs" "keyboard_byte (cs, l) b = ((cs', l'), es)"
  shows "covers cs' (evs @ es)"
proof (cases "b AND 0x7f = 0 \<or> l = b \<and> b AND 0x80 = 0")
  case True
  then show ?thesis using assms by (auto simp: keyboard_byte_def Let_def)
next
  case False
  then have es: "es = [atcode_to_event b]"
    and cs: "cs' = (if b AND 0x80 \<noteq> 0 then remove1 (b AND 0x7f) cs
      else if b AND 0x7f \<in> set cs then cs else cs @ [b AND 0x7f])"
    using assms by (auto simp: keyboard_byte_def Let_def)
  have other: "c \<noteq> b AND 0x7f \<Longrightarrow> c \<in> set cs \<Longrightarrow> c \<in> set cs'" for c
    unfolding cs by auto
  have down: "b AND 0x80 = 0 \<Longrightarrow> b AND 0x7f \<in> set cs'" unfolding cs by auto
  show ?thesis
    unfolding covers_def
  proof (intro allI impI)
    fix k
    assume k: "key_down (evs @ es) k"
    show "\<exists>c\<in>set cs'. keycode (atcode_to_event c) = k"
    proof (cases "keycode (atcode_to_event b) = k")
      case True
      then have "b AND 0x80 = 0" using k by (auto simp: es ev_pressed_iff split: if_splits)
      then show ?thesis using down True keycode_masked by metis
    next
      case False
      then have "key_down evs k" using k by (simp add: es)
      then obtain c where "c \<in> set cs" "keycode (atcode_to_event c) = k"
        using assms(1) by (auto simp: covers_def)
      moreover have "c \<noteq> b AND 0x7f" using False calculation(2) keycode_masked by metis
      ultimately show ?thesis using other by blast
    qed
  qed
qed

lemma covers_bytes:
  "covers cs evs \<Longrightarrow> keyboard_bytes (cs, l) bs = ((cs', l'), es) \<Longrightarrow> covers cs' (evs @ es)"
proof (induction bs arbitrary: cs l evs es)
  case (Cons b bs)
  obtain cs1 l1 es1 where 1: "keyboard_byte (cs, l) b = ((cs1, l1), es1)" by (metis prod.collapse)
  obtain es2 where 2: "keyboard_bytes (cs1, l1) bs = ((cs', l'), es2)" "es = es1 @ es2"
    using Cons.prems(2) 1 by (auto split: prod.splits)
  show ?case using Cons.IH [OF covers_byte [OF Cons.prems(1) 1] 2(1)] 2(2) by simp
qed simp

context downward_copy
begin

lemma read_events_refines:
  assumes "kb_ok st"
  shows "\<exists>st' ks' bs r. kbdev_read_events cp st ks cnt =
       Inr (st', ks', snd (keyboard_bytes (keyboard_of st) bs), r) \<and> kb_ok st' \<and>
     kb_content ks = bs @ kb_content ks' \<and>
     keyboard_of st' = fst (keyboard_bytes (keyboard_of st) bs) \<and>
     length (snd (keyboard_bytes (keyboard_of st) bs)) \<le> cnt \<and>
     (r = - 1 \<or> r = int (length (snd (keyboard_bytes (keyboard_of st) bs))))"
  using kb_read_loop_refines [OF assms, of "[]" cnt ks] by (simp add: kbdev_read_events_def)

lemma read_events_covers:
  assumes "kb_ok st" "covers (held st) evs" "kbdev_read_events cp st ks cnt = Inr (st', ks', out, r)"
  shows "kb_ok st' \<and> covers (held st') (evs @ out)"
proof -
  obtain bs where bs: "kb_ok st'" "out = snd (keyboard_bytes (keyboard_of st) bs)"
    "keyboard_of st' = fst (keyboard_bytes (keyboard_of st) bs)"
    using read_events_refines [OF assms(1), of ks cnt] assms(3) by auto
  then have "keyboard_bytes (held st, lastread_code st) bs = ((held st', lastread_code st'), out)"
    by (simp add: keyboard_of_def prod_eq_iff)
  then show ?thesis using covers_bytes [OF assms(2)] bs(1) by blast
qed

lemma kbdev_run_ok: "kbdev_run cp st evs complete \<Longrightarrow> kb_ok st \<and> (complete \<longrightarrow> covers (held st) evs)"
proof (induction rule: kbdev_run.induct)
  case (new fd st)
  then show ?case using kbdev_new_ok by (simp add: covers_def)
next
  case (read st evs complete ks cnt st' ks' out r)
  have "kb_ok st'" using read_events_refines [of st ks cnt] read by auto
  moreover have "complete \<Longrightarrow> covers (held st') (evs @ out)"
    using read_events_covers read by blast
  ultimately show ?case by simp
next
  case (pop st evs complete st' ev)
  show ?case
  proof (cases "npressed st")
    case 0
    then show ?thesis using pop pop_pressed_none [of st] by auto
  next
    case (Suc n)
    have p: "st' = st\<lparr>npressed := n\<rparr>" "ev = Some (up_event (last (held st)))" "kb_ok st'"
      "held st = held st' @ [last (held st)]"
      using pop_pressed_some [of st n] pop Suc by auto
    have "set (held st) = insert (last (held st)) (set (held st'))" by (subst p(4)) simp
    then show ?thesis using pop.IH p(2,3) by (auto simp: covers_def up_event_def)
  qed
next
  case (reset st evs complete)
  then show ?case using kbdev_reset_ok [of st] by (auto simp: held_def)
qed

end

section \<open>Properties\<close>

text \<open>C21: the type of the keyboard's state: whatever the client does after opening the keyboard, with
  any bytes and any failures of reading, the array keeps its 256 bytes, its first \<open>npressed\<close> entries are
  at most 127 different scan codes from 1 to 127, and the next read, into a buffer of any size, never
  writes outside the array or the buffer and returns -1 or the number of events in the buffer.\<close>

theorem kbdev_state_type:
  assumes "downward_copy cp" "kbdev_run cp st evs complete"
  shows "length (pressed st) = 256 \<and> npressed st \<le> 127 \<and> distinct (take (npressed st) (pressed st)) \<and>
    (\<forall>c \<in> set (take (npressed st) (pressed st)). unat c \<in> {1..127}) \<and>
    (\<exists>st' ks' out r. kbdev_read_events cp st ks cnt = Inr (st', ks', out, r) \<and>
       length out \<le> cnt \<and> (r = - 1 \<or> r = int (length out)))"
proof -
  have ok: "kb_ok st" using downward_copy.kbdev_run_ok assms by blast
  moreover have "\<forall>c \<in> set (take (npressed st) (pressed st)). unat c \<in> {1..127}"
    using ok make_code_less by (auto simp: kb_ok_def held_def)
  ultimately show ?thesis
    using kb_ok_npressed [OF ok] downward_copy.read_events_refines [OF assms(1) ok, of ks cnt]
    by (fastforce simp: kb_ok_def held_def)
qed

definition kb_sample :: kbdev_state where
  "kb_sample = \<lparr>kbdfd = 3, lastread_code = 0, pressed = replicate 256 0, npressed = 0\<rparr>"

lemma kb_sample_run: "kbdev_run copy_bytes_up kb_sample [] True"
  by (rule kbdev_run.new [of 3]) (simp add: kbdev_new_state_def kb_sample_def)

lemma kbdev_state_type_witness:
  "npressed kb_sample \<le> 127 \<and> (\<exists>st' ks' out r. kbdev_read_events copy_bytes_up kb_sample [Bytes [0x1e, 0x1e, 0x9e]] 64 =
     Inr (st', ks', out, r) \<and> length out \<le> 64 \<and> (r = - 1 \<or> r = int (length out)))"
  using kbdev_state_type [OF bytes_up.downward_copy_axioms kb_sample_run,
      of "[Bytes [0x1e, 0x1e, 0x9e]]" 64] by blast

text \<open>C6: \<open>kbdev_read_events\<close> refines the keyboard of the contract: the bytes that it takes from the
  device are the next ones, none lost and none twice, the events that it stores are those of these bytes
  in their order, at most as many as the buffer holds, and the keys that are then down in the array are
  those of the contract, in the order in which they went down.\<close>

theorem kbdev_read_refines:
  assumes "downward_copy cp" "kb_ok st"
  shows "\<exists>st' ks' bs out r. kbdev_read_events cp st ks cnt = Inr (st', ks', out, r) \<and>
    kb_content ks = bs @ kb_content ks' \<and>
    keyboard_bytes (keyboard_of st) bs = (keyboard_of st', out) \<and> length out \<le> cnt \<and> kb_ok st'"
proof -
  obtain st' ks' bs r where *: "kbdev_read_events cp st ks cnt =
       Inr (st', ks', snd (keyboard_bytes (keyboard_of st) bs), r)" "kb_ok st'"
    "kb_content ks = bs @ kb_content ks'" "keyboard_of st' = fst (keyboard_bytes (keyboard_of st) bs)"
    "length (snd (keyboard_bytes (keyboard_of st) bs)) \<le> cnt"
    using downward_copy.read_events_refines [OF assms] by blast
  then show ?thesis
    by (intro exI [of _ st'] exI [of _ ks'] exI [of _ bs]
        exI [of _ "snd (keyboard_bytes (keyboard_of st) bs)"]) (simp add: prod_eq_iff)
qed

lemma kb_sample_ok: "kb_ok kb_sample"
  by (simp add: kb_ok_def kb_sample_def held_def)

lemma kbdev_read_refines_witness:
  "\<exists>st' ks' bs out r. kbdev_read_events copy_bytes_up kb_sample [Bytes [0x1e], Bytes [0x1f]] 1 =
     Inr (st', ks', out, r) \<and> [0x1e, 0x1f] = bs @ kb_content ks' \<and> length out \<le> 1"
  using kbdev_read_refines [OF bytes_up.downward_copy_axioms kb_sample_ok,
      of "[Bytes [0x1e], Bytes [0x1f]]" 1] by (simp add: append_assoc [symmetric]) blast

text \<open>C9: no key stays down: when the client was given all events of its reads, then calling
  \<open>kbdev_pop_pressed\<close> as often as keys are down empties the array, the next call returns 0, the events
  are releases, one for each key in the array, the last pressed key first, and in the whole sequence of
  events that the client was given no key code is left pressed.\<close>

theorem kbdev_no_stuck_key:
  assumes "downward_copy cp" "kbdev_run cp st evs True"
  shows "\<exists>st' ups. pop_keys (npressed st) st = (st', ups) \<and> kbdev_pop_pressed st' = (st', None) \<and>
    ups = map up_event (rev (take (npressed st) (pressed st))) \<and> (\<forall>k. \<not> key_down (evs @ ups) k)"
proof -
  have ok: "kb_ok st" "covers (held st) evs"
    using downward_copy.kbdev_run_ok assms by blast+
  have "\<not> key_down (evs @ map up_event (rev (held st))) k" for k
    using ok(2) by (auto simp: key_down_up_events covers_def)
  then show ?thesis
    using pop_keys_all [OF ok(1) refl] pop_pressed_none [of "st\<lparr>npressed := 0\<rparr>"] by (simp add: held_def)
qed

definition kb_two_keys :: kbdev_state where
  "kb_two_keys = kb_sample\<lparr>lastread_code := 0x2a, pressed := [0x1e, 0x2a] @ replicate 254 0, npressed := 2\<rparr>"

lemma kb_two_keys_read:
  "kbdev_read_events copy_bytes_up kb_sample [Bytes [0x1e, 0x2a]] 64 =
     Inr (kb_two_keys, [], [\<lparr>keycode = 30, ev_pressed = 1\<rparr>, \<lparr>keycode = 42, ev_pressed = 1\<rparr>], 2)"
  by code_simp

lemma kb_two_keys_run:
  "kbdev_run copy_bytes_up kb_two_keys
     [\<lparr>keycode = 30, ev_pressed = 1\<rparr>, \<lparr>keycode = 42, ev_pressed = 1\<rparr>] True"
  using kbdev_run.read [OF kb_sample_run kb_two_keys_read] by simp

lemma kbdev_no_stuck_key_witness:
  "\<exists>st' ups. pop_keys 2 kb_two_keys = (st', ups) \<and> ups = map up_event [0x2a, 0x1e] \<and>
     (\<forall>k. \<not> key_down ([\<lparr>keycode = 30, ev_pressed = 1\<rparr>, \<lparr>keycode = 42, ev_pressed = 1\<rparr>] @ ups) k)"
  using kbdev_no_stuck_key [OF bytes_up.downward_copy_axioms kb_two_keys_run]
  by (auto simp: kb_two_keys_def)

end
