(* ===== verification/Weston_Input.thy ===== *)
theory Weston_Input
  imports Weston_Kbdev
begin

text \<open>
  The input of weston's DRM backend on DragonFly, from
  \<^verbatim>\<open>weston/newport/files/patch-src_compositor-drm.c\<close>: the handlers of the keyboard and of
  \<^verbatim>\<open>/dev/sysmouse\<close>, and the opening and closing of both as the session comes and goes.

  What the compositor is told is a list of notifications; an argument of \<open>wl_fixed_from_int\<close> stands for
  its result.  What the launcher and the event loop return is an argument of the operations.  The lemmas
  show what a read of mouse packets leads to, that the buttons alternate between pressed and released,
  and in which states of the session the backend can be destroyed.
\<close>

unbundle bit_operations_syntax

datatype button = BTN_LEFT | BTN_MIDDLE | BTN_RIGHT

datatype notification =
    Notify_key int bool
  | Notify_axis int
  | Notify_motion int int
  | Notify_button button bool
  | Notify_focus_in
  | Notify_focus_out

section \<open>The keyboard\<close>

text \<open>\<open>drm_kbd_handler\<close>: the new state, what is left to read, the notifications and the value.\<close>

definition drm_kbd_handler ::
  "copier \<Rightarrow> kbdev_state \<Rightarrow> kb_input list \<Rightarrow>
   kb_fault + kbdev_state \<times> kb_input list \<times> notification list \<times> int"
where
  "drm_kbd_handler cp st ks =
     (case kbdev_read_events cp st ks 64 of
        Inl e \<Rightarrow> Inl e
      | Inr (st, ks, evs, n) \<Rightarrow>
          if n \<le> 0 then Inr (st, ks, [], 0)
          else Inr (st, ks, map (\<lambda>ev. Notify_key (keycode ev) (ev_pressed ev \<noteq> 0)) evs, 1))"

section \<open>The mouse\<close>

type_synonym mouse_byte = "8 word"

text \<open>The conversion of an \<open>int\<close> to \<open>char\<close>, which is signed.\<close>

definition to_char :: "int \<Rightarrow> int" where
  "to_char i = sint (word_of_int i :: 8 word)"

definition button_events :: "int \<Rightarrow> int \<Rightarrow> notification list" where
  "button_events nm oldmask =
     (if nm AND 4 \<noteq> oldmask AND 4 then [Notify_button BTN_LEFT (nm AND 4 = 0)] else []) @
     (if nm AND 2 \<noteq> oldmask AND 2 then [Notify_button BTN_MIDDLE (nm AND 2 = 0)] else []) @
     (if nm AND 1 \<noteq> oldmask AND 1 then [Notify_button BTN_RIGHT (nm AND 1 = 0)] else [])"

text \<open>One packet, the eight bytes from \<open>k\<close> on, and the mask of the buttons before it.\<close>

definition mouse_packet :: "mouse_byte list \<Rightarrow> nat \<Rightarrow> int \<Rightarrow> notification list \<times> int" where
  "mouse_packet buf k oldmask =
     (let xdelta = sint (buf ! (k + 1)) + sint (buf ! (k + 3));
          ydelta = - (sint (buf ! (k + 2)) + sint (buf ! (k + 4)));
          zdelta = (if 0 < sint (buf ! (k + 5)) \<and> buf ! (k + 6) = 0 then sint (buf ! (k + 5)) OR 0x80
                    else sint (buf ! (k + 5)) + sint (buf ! (k + 6)));
          nm = sint (buf ! k) AND 7
      in (Notify_axis (to_char zdelta * 10) #
          (if xdelta \<noteq> 0 \<or> ydelta \<noteq> 0 then [Notify_motion xdelta ydelta] else []) @
          (if nm \<noteq> oldmask then button_events nm oldmask else []),
          if nm \<noteq> oldmask then nm else oldmask))"

text \<open>The loop \<open>for (k = 0; k < n; k += 8)\<close>.  It tests the first and the last byte of the buffer's first
  packet each time.\<close>

function mouse_loop :: "mouse_byte list \<Rightarrow> nat \<Rightarrow> int \<Rightarrow> notification list \<times> int" where
  "mouse_loop buf k oldmask =
     (if k < length buf then
        (if length buf - k < 8 \<or> buf ! 0 AND 0x80 = 0 \<or> buf ! 7 AND 0x80 \<noteq> 0 then
           mouse_loop buf (k + 8) oldmask
         else
           (case mouse_packet buf k oldmask of (ns, oldmask) \<Rightarrow>
              case mouse_loop buf (k + 8) oldmask of (ns', oldmask) \<Rightarrow> (ns @ ns', oldmask)))
      else ([], oldmask))"
  by pat_completeness auto
termination
  by (relation "measure (\<lambda>(buf, k, oldmask). length buf - k)") auto

declare mouse_loop.simps [simp del]

text \<open>\<open>drm_sysmouse_handler\<close>: \<open>None\<close> is a failed read, otherwise the bytes of \<open>read(.., 128)\<close>.\<close>

definition drm_sysmouse_handler :: "mouse_byte list option \<Rightarrow> int \<Rightarrow> notification list \<times> int \<times> int" where
  "drm_sysmouse_handler res oldmask =
     (case res of
        None \<Rightarrow> ([], oldmask, 0)
      | Some buf \<Rightarrow>
          if buf = [] then ([], oldmask, 0)
          else (case mouse_loop (take 128 buf) 0 oldmask of (ns, oldmask) \<Rightarrow> (ns, oldmask, 1)))"

section \<open>Opening and closing\<close>

record drm_input =
  sysmouse_fd :: int
  sysmouse_source :: "nat option"
  kbd_fd :: int
  kbdst :: "kbdev_state option"
  kbd_source :: "nat option"

text \<open>What the calls return: \<open>weston_launcher_open\<close>, \<open>weston_launcher_ttyfd\<close>, the allocation and the
  \<open>ioctl\<close> of \<open>kbdev_new_state\<close>, and \<open>wl_event_loop_add_fd\<close> for the mouse and the keyboard.\<close>

record input_env =
  launcher_open :: int
  launcher_ttyfd :: int
  kbd_alloc :: bool
  kbd_ioctl :: int
  add_mouse :: "nat option"
  add_kbd :: "nat option"

text \<open>\<open>drm_backend_create\<close> sets the descriptors to -1 in zeroed memory.\<close>

definition input_init :: drm_input where
  "input_init = \<lparr>sysmouse_fd = - 1, sysmouse_source = None, kbd_fd = - 1, kbdst = None, kbd_source = None\<rparr>"

definition drm_input_sysmouse_open :: "input_env \<Rightarrow> drm_input \<Rightarrow> drm_input \<times> int" where
  "drm_input_sysmouse_open env b =
     (if sysmouse_fd b = - 1 then
        (let b = b\<lparr>sysmouse_fd := launcher_open env\<rparr> in (b, if sysmouse_fd b < 0 then - 1 else 0))
      else (b, 0))"

definition drm_input_create :: "input_env \<Rightarrow> drm_input \<Rightarrow> drm_input \<times> int" where
  "drm_input_create env b =
     (case drm_input_sysmouse_open env b of (b, r) \<Rightarrow>
        if r \<noteq> 0 then (b, - 1)
        else
          (let b' = (if kbd_fd b = - 1 then b\<lparr>kbd_fd := launcher_ttyfd env\<rparr> else b) in
           if kbd_fd b = - 1 \<and> kbd_fd b' < 0 then (b', - 1)
           else
             (let b = b'\<lparr>kbdst := kbdev_new_state (kbd_alloc env) (kbd_ioctl env) (kbd_fd b')\<rparr> in
              if kbdst b = None then (b, - 1)
              else (b\<lparr>sysmouse_source := add_mouse env, kbd_source := add_kbd env\<rparr>, 0))))"

datatype input_fault = Null_pointer

definition drm_input_enable :: "input_env \<Rightarrow> drm_input \<Rightarrow> input_fault + drm_input \<times> notification list" where
  "drm_input_enable env b =
     (let b = b\<lparr>kbd_source := add_kbd env\<rparr> in
      case kbdst b of
        None \<Rightarrow> Inl Null_pointer
      | Some st \<Rightarrow>
          (let b = b\<lparr>kbdst := Some (kbdev_reset_state st)\<rparr> in
           case drm_input_sysmouse_open env b of (b, r) \<Rightarrow>
             Inr (if r = 0 then b\<lparr>sysmouse_source := add_mouse env\<rparr> else b, [Notify_focus_in])))"

definition drm_input_disable :: "drm_input \<Rightarrow> drm_input \<times> notification list" where
  "drm_input_disable b =
     (let b = (if sysmouse_source b \<noteq> None then b\<lparr>sysmouse_source := None\<rparr> else b);
          b = (if kbd_source b \<noteq> None then b\<lparr>kbd_source := None\<rparr> else b)
      in (b\<lparr>sysmouse_fd := - 1\<rparr>, [Notify_focus_out]))"

text \<open>The part of \<open>drm_destroy\<close> for the input: \<open>wl_event_source_remove\<close> reads its argument, so a null
  pointer is a fault.\<close>

definition drm_destroy_input :: "drm_input \<Rightarrow> input_fault + drm_input" where
  "drm_destroy_input b =
     (case sysmouse_source b of
        None \<Rightarrow> Inl Null_pointer
      | Some _ \<Rightarrow> (case kbd_source b of None \<Rightarrow> Inl Null_pointer | Some _ \<Rightarrow> Inr b))"

section \<open>What a read of the mouse leads to\<close>

text \<open>The complete packets of a read, handled one after the other.\<close>

function packets :: "mouse_byte list \<Rightarrow> mouse_byte list list" where
  "packets buf = (if length buf < 8 then [] else take 8 buf # packets (drop 8 buf))"
  by pat_completeness auto
termination
  by (relation "measure length") auto

declare packets.simps [simp del]

fun run_packets :: "mouse_byte list list \<Rightarrow> int \<Rightarrow> notification list \<times> int" where
  "run_packets [] oldmask = ([], oldmask)"
| "run_packets (p # ps) oldmask =
     (case mouse_packet p 0 oldmask of (ns, oldmask) \<Rightarrow>
        case run_packets ps oldmask of (ns', oldmask) \<Rightarrow> (ns @ ns', oldmask))"

definition synchronised :: "mouse_byte list \<Rightarrow> bool" where
  "synchronised buf \<longleftrightarrow> buf ! 0 AND 0x80 \<noteq> 0 \<and> buf ! 7 AND 0x80 = 0"

lemma mouse_packet_shift:
  "k + 8 \<le> length buf \<Longrightarrow> mouse_packet buf k oldmask = mouse_packet (take 8 (drop k buf)) 0 oldmask"
  by (simp add: mouse_packet_def)

lemma mouse_loop_eq:
  "mouse_loop buf k oldmask =
     (if synchronised buf then run_packets (packets (drop k buf)) oldmask else ([], oldmask))"
proof (induction buf k oldmask rule: mouse_loop.induct)
  case (1 buf k oldmask)
  show ?case
  proof (cases "k < length buf")
    case False
    then show ?thesis by (simp add: mouse_loop.simps [of buf k] packets.simps)
  next
    case k: True
    show ?thesis
    proof (cases "length buf - k < 8 \<or> \<not> synchronised buf")
      case True
      then have "mouse_loop buf k oldmask = mouse_loop buf (k + 8) oldmask"
        using k by (subst mouse_loop.simps) (auto simp: synchronised_def)
      moreover have "length buf - k < 8 \<Longrightarrow> packets (drop k buf) = []" "length buf - k < 8 \<Longrightarrow> packets (drop (k + 8) buf) = []"
        by (simp_all add: packets.simps [of "drop _ buf"] packets.simps [of "[]"])
      ultimately show ?thesis using 1(1) [OF k] True by (auto simp: synchronised_def)
    next
      case False
      then have "mouse_loop buf k oldmask =
          (case mouse_packet buf k oldmask of (ns, oldmask) \<Rightarrow>
             case mouse_loop buf (k + 8) oldmask of (ns', oldmask) \<Rightarrow> (ns @ ns', oldmask))"
        using k by (subst mouse_loop.simps) (auto simp: synchronised_def)
      moreover have "mouse_loop buf (k + 8) m = run_packets (packets (drop (k + 8) buf)) m"
        if "mouse_packet buf k oldmask = (ns, m)" for ns m
        using 1(2) [OF k _ that [symmetric]] False by (auto simp: synchronised_def)
      moreover have "packets (drop k buf) = take 8 (drop k buf) # packets (drop (k + 8) buf)"
        using False by (simp add: packets.simps [of "drop k buf"] add.commute)
      moreover have "mouse_packet buf k oldmask = mouse_packet (take 8 (drop k buf)) 0 oldmask"
        using False k by (intro mouse_packet_shift) linarith
      ultimately show ?thesis using False by (auto split: prod.splits)
    qed
  qed
qed

section \<open>The buttons alternate\<close>

text \<open>What a compositor sees: a button that is pressed while it is down, or released while it is up, is
  an error.\<close>

fun buttons_after :: "notification list \<Rightarrow> button set \<Rightarrow> button set option" where
  "buttons_after [] S = Some S"
| "buttons_after (Notify_button b True # ns) S = (if b \<in> S then None else buttons_after ns (insert b S))"
| "buttons_after (Notify_button b False # ns) S = (if b \<in> S then buttons_after ns (S - {b}) else None)"
| "buttons_after (_ # ns) S = buttons_after ns S"

fun button_bit :: "button \<Rightarrow> int" where
  "button_bit BTN_LEFT = 4"
| "button_bit BTN_MIDDLE = 2"
| "button_bit BTN_RIGHT = 1"

definition down_buttons :: "int \<Rightarrow> button set" where
  "down_buttons m = {b. m AND button_bit b = 0}"

lemma buttons_after_append:
  "buttons_after (ns @ ns') S = (case buttons_after ns S of None \<Rightarrow> None | Some S \<Rightarrow> buttons_after ns' S)"
  by (induction ns S rule: buttons_after.induct) auto

lemma down_buttons_iff:
  "BTN_LEFT \<in> down_buttons m \<longleftrightarrow> m AND 4 = 0" "BTN_MIDDLE \<in> down_buttons m \<longleftrightarrow> m AND 2 = 0"
  "BTN_RIGHT \<in> down_buttons m \<longleftrightarrow> m AND 1 = 0"
  by (simp_all add: down_buttons_def)

lemma single_bit: "(m::int) AND 4 \<in> {0, 4}" "(m::int) AND 2 \<in> {0, 2}" "(m::int) AND 1 \<in> {0, 1}"
proof -
  have "m AND 2 ^ n \<in> {0, 2 ^ n}" for n :: nat
    by (cases "bit m n") (auto intro!: bit_eqI simp: bit_and_iff bit_exp_iff)
  from this [of 2] this [of 1] this [of 0] show
    "m AND 4 \<in> {0, 4}" "m AND 2 \<in> {0, 2}" "m AND 1 \<in> {0, 1}" by simp_all
qed

lemma button_part:
  "x \<in> {0, v} \<Longrightarrow> y \<in> {0, v} \<Longrightarrow> (b \<in> S \<longleftrightarrow> y = 0) \<Longrightarrow>
   buttons_after (if x \<noteq> y then [Notify_button b (x = (0::int))] else []) S =
     Some (if x = 0 then insert b S else S - {b})"
  by auto

lemma button_events_after: "buttons_after (button_events nm m) (down_buttons m) = Some (down_buttons nm)"
proof -
  let ?up = "\<lambda>b S. if nm AND button_bit b = 0 then insert b S else S - {b}"
  let ?S1 = "?up BTN_LEFT (down_buttons m)"
  let ?S2 = "?up BTN_MIDDLE ?S1"
  let ?S3 = "?up BTN_RIGHT ?S2"
  have 1: "buttons_after (if nm AND 4 \<noteq> m AND 4 then [Notify_button BTN_LEFT (nm AND 4 = 0)] else [])
      (down_buttons m) = Some ?S1"
    using button_part [OF single_bit(1) [of nm] single_bit(1) [of m]] down_buttons_iff(1) by simp
  have 2: "buttons_after (if nm AND 2 \<noteq> m AND 2 then [Notify_button BTN_MIDDLE (nm AND 2 = 0)] else [])
      ?S1 = Some ?S2"
    using button_part [OF single_bit(2) [of nm] single_bit(2) [of m], of BTN_MIDDLE ?S1] down_buttons_iff(2) by simp
  have 3: "buttons_after (if nm AND 1 \<noteq> m AND 1 then [Notify_button BTN_RIGHT (nm AND 1 = 0)] else [])
      ?S2 = Some ?S3"
    using button_part [OF single_bit(3) [of nm] single_bit(3) [of m], of BTN_RIGHT ?S2] down_buttons_iff(3) by simp
  have "buttons_after (button_events nm m) (down_buttons m) = Some ?S3"
    unfolding button_events_def buttons_after_append 1 option.case 2 3 ..
  also have "?S3 = down_buttons nm"
  proof (rule set_eqI)
    show "b \<in> ?S3 \<longleftrightarrow> b \<in> down_buttons nm" for b
      by (cases b) (simp_all add: down_buttons_iff)
  qed
  finally show ?thesis .
qed

lemma mouse_packet_shape:
  "\<exists>z c xd yd nm. mouse_packet p k m =
     (Notify_axis z # (if c then [Notify_motion xd yd] else []) @ (if nm \<noteq> m then button_events nm m else []),
      if nm \<noteq> m then nm else m)"
  unfolding mouse_packet_def Let_def by blast

lemma mouse_packet_after:
  assumes "mouse_packet p k m = (ns, m')"
  shows "buttons_after ns (down_buttons m) = Some (down_buttons m')"
proof -
  obtain z c xd yd nm where "ns = Notify_axis z # (if c then [Notify_motion xd yd] else []) @
      (if nm \<noteq> m then button_events nm m else [])" "m' = (if nm \<noteq> m then nm else m)"
    using mouse_packet_shape [of p k m] assms by auto
  then show ?thesis using button_events_after [of nm m] by (simp add: buttons_after_append)
qed

lemma run_packets_after:
  "run_packets ps m = (ns, m') \<Longrightarrow> buttons_after ns (down_buttons m) = Some (down_buttons m')"
proof (induction ps arbitrary: m ns)
  case (Cons p ps)
  obtain ns1 m1 where 1: "mouse_packet p 0 m = (ns1, m1)" by fastforce
  obtain ns2 where 2: "run_packets ps m1 = (ns2, m')" "ns = ns1 @ ns2"
    using Cons.prems 1 by (auto split: prod.splits)
  show ?case using mouse_packet_after [OF 1] Cons.IH [OF 2(1)] 2(2) by (simp add: buttons_after_append)
qed simp

lemma handler_after:
  "drm_sysmouse_handler res m = (ns, m', r) \<Longrightarrow> buttons_after ns (down_buttons m) = Some (down_buttons m')"
  using run_packets_after [of _ m]
  by (fastforce simp: drm_sysmouse_handler_def mouse_loop_eq split: option.splits if_splits prod.splits)

text \<open>Any number of calls of the handler, with the static variable \<open>oldmask\<close> kept between them.\<close>

fun sysmouse_calls :: "mouse_byte list option list \<Rightarrow> int \<Rightarrow> notification list \<times> int" where
  "sysmouse_calls [] oldmask = ([], oldmask)"
| "sysmouse_calls (res # rs) oldmask =
     (case drm_sysmouse_handler res oldmask of (ns, oldmask, _) \<Rightarrow>
        case sysmouse_calls rs oldmask of (ns', oldmask) \<Rightarrow> (ns @ ns', oldmask))"

lemma calls_after:
  "sysmouse_calls rs m = (ns, m') \<Longrightarrow> buttons_after ns (down_buttons m) = Some (down_buttons m')"
proof (induction rs arbitrary: m ns)
  case (Cons res rs)
  obtain ns1 m1 r where 1: "drm_sysmouse_handler res m = (ns1, m1, r)" by (metis prod_cases3)
  obtain ns2 where 2: "sysmouse_calls rs m1 = (ns2, m')" "ns = ns1 @ ns2"
    using Cons.prems 1 by (auto split: prod.splits)
  show ?case using handler_after [OF 1] Cons.IH [OF 2(1)] 2(2) by (simp add: buttons_after_append)
qed simp

section \<open>The session\<close>

text \<open>The backend from its creation on: \<open>session_notify\<close> disables the input when the session goes and
  enables it when it comes back.  The flag tells whether the session is active.\<close>

inductive input_session :: "drm_input \<Rightarrow> bool \<Rightarrow> notification list \<Rightarrow> bool" where
  create: "drm_input_create env input_init = (b, 0) \<Longrightarrow> input_session b True []"
| leave: "input_session b True ns \<Longrightarrow> drm_input_disable b = (b', ns') \<Longrightarrow> input_session b' False (ns @ ns')"
| enter: "input_session b False ns \<Longrightarrow> drm_input_enable env b = Inr (b', ns') \<Longrightarrow>
    input_session b' True (ns @ ns')"

lemma create_ok: "drm_input_create env input_init = (b, 0) \<Longrightarrow> kbdst b \<noteq> None"
  by (auto simp: drm_input_create_def Let_def split: prod.splits if_splits)

lemma disable_eq:
  "drm_input_disable b = (b\<lparr>sysmouse_fd := - 1, sysmouse_source := None, kbd_source := None\<rparr>, [Notify_focus_out])"
  by (cases "sysmouse_source b"; cases "kbd_source b") (simp_all add: drm_input_disable_def Let_def)

lemma enable_eq:
  "kbdst b = Some st \<Longrightarrow> sysmouse_fd b = - 1 \<Longrightarrow> sysmouse_source b = None \<Longrightarrow>
   drm_input_enable env b =
     Inr (b\<lparr>sysmouse_fd := launcher_open env,
        sysmouse_source := (if launcher_open env < 0 then None else add_mouse env),
        kbdst := Some (kbdev_reset_state st), kbd_source := add_kbd env\<rparr>, [Notify_focus_in])"
  by (simp add: drm_input_enable_def drm_input_sysmouse_open_def Let_def)

lemma session_ok:
  "input_session b active ns \<Longrightarrow>
   kbdst b \<noteq> None \<and> (\<not> active \<longrightarrow> sysmouse_fd b = - 1 \<and> sysmouse_source b = None \<and> kbd_source b = None)"
proof (induction rule: input_session.induct)
  case (create env b)
  then show ?case using create_ok by simp
next
  case (leave b ns b' ns')
  then show ?case by (auto simp: disable_eq)
next
  case (enter b ns env b' ns')
  then show ?case by (auto simp: enable_eq)
qed

section \<open>Properties\<close>

text \<open>A read of the mouse: when the first packet of the read has the synchronisation bit in its
  first byte and not in its last, all complete packets of the read are handled in their order, whatever
  their own bytes are, and bytes behind the last complete packet are dropped; otherwise none of them is
  handled.  Only the first packet of a read is ever checked, since the loop looks at bytes 0 and 7 of the
  buffer instead of those of the packet.\<close>

theorem sysmouse_read_correct:
  assumes "buf \<noteq> []"
  shows "drm_sysmouse_handler (Some buf) oldmask =
    (let ps = (if synchronised (take 128 buf) then packets (take 128 buf) else []) in
     (fst (run_packets ps oldmask), snd (run_packets ps oldmask), 1))"
  using assms by (simp add: drm_sysmouse_handler_def mouse_loop_eq Let_def split: prod.splits)

lemma sysmouse_read_correct_witness:
  "fst (drm_sysmouse_handler (Some ([0x83, 5, 0, 0, 0, 0, 0, 0] @ [0x07, 1, 0, 0, 0, 0, 0, 0x80])) 7) =
     [Notify_axis 0, Notify_motion 5 0, Notify_button BTN_LEFT True,
      Notify_axis 0, Notify_motion 1 0, Notify_button BTN_LEFT False]"
  by (subst sysmouse_read_correct) (simp, code_simp)

text \<open>C34: the buttons are consistent over any sequence of reads, failed and malformed ones included: from
  the start, with no button down, no button is ever reported as pressed while it is down or as released
  while it is up, and the buttons that are then down are those whose bit is clear in \<open>oldmask\<close>.\<close>

theorem sysmouse_buttons_consistent:
  "buttons_after (fst (sysmouse_calls rs 7)) {} = Some (down_buttons (snd (sysmouse_calls rs 7)))"
proof -
  have "b \<notin> down_buttons 7" for b
    by (cases b) (simp_all add: down_buttons_def)
  then have "down_buttons 7 = {}" by blast
  then show ?thesis using calls_after [of rs 7] by (metis prod.collapse)
qed

text \<open>The backend can be destroyed only while its session is active: in every state that creating it
  and any leaving and entering of the session lead to, leaving and entering never fault, entering starts
  with no key down, but destroying it while the session is away passes a null pointer to the event loop,
  and so it does in an active session when the mouse could not be opened again.\<close>

theorem input_destroy_inactive:
  assumes "input_session b active ns"
  shows "(\<not> active \<longrightarrow> drm_destroy_input b = Inl Null_pointer) \<and>
    (\<not> active \<longrightarrow> (\<exists>b' st. drm_input_enable env b = Inr (b', [Notify_focus_in]) \<and> kbdst b' = Some st \<and>
       held st = [] \<and> input_session b' True (ns @ [Notify_focus_in]) \<and>
       (launcher_open env < 0 \<longrightarrow> drm_destroy_input b' = Inl Null_pointer) \<and>
       (0 \<le> launcher_open env \<and> add_mouse env \<noteq> None \<and> add_kbd env \<noteq> None \<longrightarrow> drm_destroy_input b' = Inr b')))"
proof (cases active)
  case False
  obtain st where st: "kbdst b = Some st" "sysmouse_fd b = - 1" "sysmouse_source b = None" "kbd_source b = None"
    using session_ok [OF assms] False by blast
  note e = enable_eq [OF st(1-3), of env]
  have "input_session (b\<lparr>sysmouse_fd := launcher_open env,
        sysmouse_source := (if launcher_open env < 0 then None else add_mouse env),
        kbdst := Some (kbdev_reset_state st), kbd_source := add_kbd env\<rparr>) True (ns @ [Notify_focus_in])"
    using input_session.enter [OF _ e] assms False by simp
  then show ?thesis
    using st e by (auto simp: drm_destroy_input_def held_def kbdev_reset_state_def split: option.splits)
qed simp

definition input_sample :: input_env where
  "input_sample = \<lparr>launcher_open = 11, launcher_ttyfd = 4, kbd_alloc = True, kbd_ioctl = 0,
     add_mouse = Some 1, add_kbd = Some 2\<rparr>"

lemma input_sample_left:
  "input_session (fst (drm_input_disable (fst (drm_input_create input_sample input_init)))) False [Notify_focus_out]"
proof -
  have "drm_input_create input_sample input_init = (fst (drm_input_create input_sample input_init), 0)"
    by (simp add: drm_input_create_def drm_input_sysmouse_open_def input_sample_def input_init_def
        kbdev_new_state_def)
  from input_session.leave [OF input_session.create [OF this]] show ?thesis
    by (simp add: disable_eq)
qed

lemma input_destroy_inactive_witness:
  "drm_destroy_input (fst (drm_input_disable (fst (drm_input_create input_sample input_init)))) =
     Inl Null_pointer"
  using input_destroy_inactive [OF input_sample_left] by blast

end
