(* ===== verification/Weston_Launch.thy ===== *)
theory Weston_Launch
  imports Prelude
begin

text \<open>
  The privileged launcher of weston on DragonFly, from
  \<^verbatim>\<open>weston/newport/files/patch-src_weston-launch.c\<close>: it opens devices for the compositor, remembers the
  mice that it opened, and revokes them when the virtual terminal is left.

  The patch shows \<open>handle_open\<close>, \<open>close_input_fds\<close>, \<open>get_maj_min_driver\<close> and the DragonFly branch of
  \<open>setup_tty\<close> almost completely; what lies between its hunks (the text of the reply, the exit after the
  child's death, the start of \<open>main\<close>) is not modelled, so the state in which the loop starts is a
  hypothesis.  The results of system calls and of libdevattr are arguments.  A pointer to a string can
  dangle; reading or freeing it then is a fault.  The lemmas show which descriptors are handed out, that
  leaving the terminal revokes every mouse, and which descriptor is taken for the graphics card.
\<close>

section \<open>The driver of a device\<close>

datatype launch_fault = Use_after_free | Null_pointer | Bad_index

text \<open>A pointer to a string on the heap.\<close>

datatype heap_string = Null | Str c_string | Freed

text \<open>\<open>strcmp(a, p) == 0\<close>, and \<open>free(p)\<close>.\<close>

fun heap_strcmp :: "c_string \<Rightarrow> heap_string \<Rightarrow> launch_fault + int" where
  "heap_strcmp a (Str s) = Inr (strcmp a s)"
| "heap_strcmp a Null = Inl Null_pointer"
| "heap_strcmp a Freed = Inl Use_after_free"

fun heap_free :: "heap_string \<Rightarrow> launch_fault + unit" where
  "heap_free Freed = Inl Use_after_free"
| "heap_free _ = Inr ()"

text \<open>An entry of the list of devices: there may be no device behind it, no dictionary for the device and
  no driver in the dictionary.\<close>

datatype dev_entry = No_device | No_dictionary | Driver "c_string option"

record dev_scan =
  enum_ok :: bool
  scan_ret :: int
  entries :: "dev_entry list"

fun driver_loop :: "heap_string \<Rightarrow> dev_entry list \<Rightarrow> heap_string" where
  "driver_loop str [] = str"
| "driver_loop str (No_device # es) = driver_loop str es"
| "driver_loop str (No_dictionary # es) = driver_loop str es"
| "driver_loop str (Driver d # es) =
     (if str \<noteq> Null then Freed
      else (case d of None \<Rightarrow> Null | Some s \<Rightarrow> driver_loop (Str s) es))"

definition get_maj_min_driver :: "dev_scan \<Rightarrow> heap_string" where
  "get_maj_min_driver sc =
     (if \<not> enum_ok sc then Null
      else if scan_ret sc \<noteq> 0 then Null
      else driver_loop Null (entries sc))"

section \<open>Opening a device for the compositor\<close>

record weston_launch =
  drm_fd :: int
  last_input_fd :: int
  input_path :: "c_string option list"
  tty :: int
  ttynr :: int
  kb_mode :: int
  child :: int

text \<open>A request: the path, and what the calls return.  \<open>open_fd\<close> is the result of \<open>open\<close>, \<open>stat_scan\<close> what
  libdevattr finds for the device number that \<open>fstat\<close> gives, \<open>None\<close> if \<open>fstat\<close> fails.  Both lookups of
  the driver use it; where \<open>open\<close> or \<open>fstat\<close> failed, the second one reads the uninitialised \<open>struct
  stat\<close>, and \<open>stale_scan\<close> is what it finds for whatever is in it.\<close>

record open_request =
  req_path :: c_string
  open_fd :: int
  stat_scan :: "dev_scan option"
  stale_scan :: dev_scan
  send_ret :: int

text \<open>What is done to descriptors, to the terminal and to the child.  The text of the reply to a request is
  not shown; \<open>Reply_open fd\<close> is the sending of it while \<open>fd\<close> is the descriptor, -1 for a refusal.\<close>

datatype launch_action =
    Reply_open int
  | Reply_activate
  | Reply_deactivate
  | Revoke c_string
  | Close int
  | Drop_master int
  | Set_master int
  | Vt_release
  | Vt_acquire
  | Vt_wait_active int
  | Kill int int

text \<open>The checks of the device, up to the label \<open>err0\<close>: the descriptor to send, and those closed.\<close>

definition check_device :: "open_request \<Rightarrow> launch_fault + int \<times> launch_action list" where
  "check_device rq =
     (let fd = open_fd rq in
      if fd < 0 then Inr (fd, [])
      else
        (case stat_scan rq of
           None \<Rightarrow> Inr (- 1, [Close fd])
         | Some sc \<Rightarrow>
             (let devdrv = get_maj_min_driver sc in
              if devdrv = Null then Inr (- 1, [Close fd])
              else
                (case heap_strcmp ''sysmouse'' devdrv of
                   Inl e \<Rightarrow> Inl e
                 | Inr m \<Rightarrow>
                     (case (if m \<noteq> 0 then heap_strcmp ''drm'' devdrv else Inr 0) of
                        Inl e \<Rightarrow> Inl e
                      | Inr d \<Rightarrow>
                          if d \<noteq> 0 then Inr (- 1, [Close fd])
                          else if m = 0 \<and> 16 \<le> fd - 3 then Inr (- 1, [Close fd])
                          else (case heap_free devdrv of Inl e \<Rightarrow> Inl e | Inr _ \<Rightarrow> Inr (fd, [])))))))"

definition record_device ::
  "weston_launch \<Rightarrow> c_string \<Rightarrow> int \<Rightarrow> heap_string \<Rightarrow> launch_fault + weston_launch"
where
  "record_device wl path fd devdrv =
     (if fd = - 1 \<or> devdrv = Null then Inr wl
      else
        (case heap_strcmp ''drm'' devdrv of
           Inl e \<Rightarrow> Inl e
         | Inr d \<Rightarrow>
             (let wl = (if d \<noteq> 0 then wl\<lparr>drm_fd := fd\<rparr> else wl) in
              case heap_strcmp ''sysmouse'' devdrv of
                Inl e \<Rightarrow> Inl e
              | Inr m \<Rightarrow>
                  if m = 0 then
                    (let wl = (if last_input_fd wl < fd then wl\<lparr>last_input_fd := fd\<rparr> else wl) in
                     if 0 \<le> fd - 3 \<and> fd - 3 < int (length (input_path wl)) then
                       Inr (wl\<lparr>input_path := (input_path wl)[nat (fd - 3) := Some path]\<rparr>)
                     else Inl Bad_index)
                  else Inr wl)))"

definition handle_open ::
  "weston_launch \<Rightarrow> open_request \<Rightarrow> launch_fault + weston_launch \<times> launch_action list \<times> int"
where
  "handle_open wl rq =
     (case check_device rq of
        Inl e \<Rightarrow> Inl e
      | Inr (fd, as) \<Rightarrow>
          if send_ret rq < 0 then Inr (wl, as, - 1)
          else
            (let devdrv = get_maj_min_driver
                   (case stat_scan rq of Some sc \<Rightarrow> if 0 \<le> open_fd rq then sc else stale_scan rq
                    | None \<Rightarrow> stale_scan rq)
             in case record_device wl (req_path rq) fd devdrv of
                  Inl e \<Rightarrow> Inl e
                | Inr wl \<Rightarrow>
                    (case heap_free devdrv of
                       Inl e \<Rightarrow> Inl e
                     | Inr _ \<Rightarrow> Inr (wl, as @ [Reply_open fd], 0))))"

section \<open>Leaving and entering the terminal\<close>

text \<open>The loop \<open>for (fd = 3; fd <= wl->last_input_fd; fd++)\<close>; \<open>fstat_ok\<close> tells which descriptors
  \<open>fstat\<close> accepts.\<close>

function close_loop ::
  "(int \<Rightarrow> bool) \<Rightarrow> int \<Rightarrow> weston_launch \<Rightarrow> weston_launch \<times> launch_action list"
where
  "close_loop fstat_ok fd wl =
     (if fd \<le> last_input_fd wl then
        (case (if fstat_ok fd \<and> fd - 3 < int (length (input_path wl)) then input_path wl ! nat (fd - 3) else None) of
           None \<Rightarrow> close_loop fstat_ok (fd + 1) wl
         | Some path \<Rightarrow>
             (case close_loop fstat_ok (fd + 1) (wl\<lparr>input_path := (input_path wl)[nat (fd - 3) := None]\<rparr>) of
                (wl, as) \<Rightarrow> (wl, [Revoke path, Close fd] @ as)))
      else (wl, []))"
  by pat_completeness auto
termination
  by (relation "measure (\<lambda>(fstat_ok, fd, wl). nat (last_input_fd wl + 1 - fd))") auto

declare close_loop.simps [simp del]

definition close_input_fds :: "(int \<Rightarrow> bool) \<Rightarrow> weston_launch \<Rightarrow> weston_launch \<times> launch_action list" where
  "close_input_fds fstat_ok wl = close_loop fstat_ok 3 wl"

text \<open>\<open>handle_signal\<close>.  A child that is not the compositor is reaped without more; what happens when the
  compositor ends is not shown, so this case is its own outcome.\<close>

datatype launch_signal = SIGCHLD int | SIGTERM | SIGINT | SIGUSR1 | SIGUSR2 | Other_signal

fun signal_number :: "launch_signal \<Rightarrow> int" where
  "signal_number SIGTERM = 15"
| "signal_number SIGINT = 2"
| "signal_number (SIGCHLD pid) = 20"
| "signal_number SIGUSR1 = 30"
| "signal_number SIGUSR2 = 31"
| "signal_number Other_signal = 0"

datatype signal_outcome = Handled weston_launch "launch_action list" | Compositor_ended

fun handle_signal :: "(int \<Rightarrow> bool) \<Rightarrow> launch_signal \<Rightarrow> weston_launch \<Rightarrow> signal_outcome" where
  "handle_signal fstat_ok (SIGCHLD pid) wl = (if pid = child wl then Compositor_ended else Handled wl [])"
| "handle_signal fstat_ok SIGTERM wl =
     Handled wl (if child wl \<noteq> 0 then [Kill (child wl) (signal_number SIGTERM)] else [])"
| "handle_signal fstat_ok SIGINT wl =
     Handled wl (if child wl \<noteq> 0 then [Kill (child wl) (signal_number SIGINT)] else [])"
| "handle_signal fstat_ok SIGUSR1 wl =
     (case close_input_fds fstat_ok wl of (wl', as) \<Rightarrow>
        Handled wl' ([Reply_deactivate] @ as @ [Drop_master (drm_fd wl'), Vt_release]))"
| "handle_signal fstat_ok SIGUSR2 wl =
     Handled wl [Vt_acquire, Vt_wait_active (ttynr wl), Set_master (drm_fd wl), Reply_activate]"
| "handle_signal fstat_ok Other_signal wl = Handled wl []"

section \<open>Who may start the launcher\<close>

text \<open>\<open>read_groups\<close>: the results of the two calls of \<open>getgroups\<close> and of \<open>malloc\<close>.  The array has as many cells as
  the first call said, and the count is that number; a cell that the second call did not fill is \<open>None\<close>.\<close>

definition read_groups :: "int \<Rightarrow> bool \<Rightarrow> int list option \<Rightarrow> int option list option" where
  "read_groups n alloc second =
     (if n < 0 then None
      else if \<not> alloc then None
      else
        (case second of
           None \<Rightarrow> None
         | Some gids \<Rightarrow> Some (map Some gids @ replicate (nat n - length gids) None)))"

text \<open>The loop over the groups: \<open>None\<close> when an unset cell is read.\<close>

fun group_loop :: "int \<Rightarrow> int option list \<Rightarrow> bool option" where
  "group_loop gid [] = Some False"
| "group_loop gid (g # groups) =
     (case g of None \<Rightarrow> None | Some x \<Rightarrow> if x = gid then Some True else group_loop gid groups)"

text \<open>\<open>rest\<close> is what the lines behind the patch decide.\<close>

definition launch_allowed ::
  "int \<Rightarrow> int option \<Rightarrow> int option list option \<Rightarrow> bool \<Rightarrow> bool option"
where
  "launch_allowed uid weston_gid groups rest =
     (if uid = 0 then Some True
      else
        (case (weston_gid, groups) of
           (Some gid, Some gs) \<Rightarrow>
             (case group_loop gid gs of
                None \<Rightarrow> None
              | Some b \<Rightarrow> Some (b \<or> rest))
         | _ \<Rightarrow> Some rest))"

lemma group_loop_member: "group_loop gid (map Some gs) = Some (gid \<in> set gs)"
  by (induction gs) auto

text \<open>Groups are looked at up to their number, so a user who is in the group of number 0, or behind it in the list, is
  treated like any other: without further rights the launcher starts exactly for root and for members.\<close>

lemma launch_allowed_iff:
  "n = int (length gids) \<Longrightarrow>
   launch_allowed uid (Some gid) (read_groups n True (Some gids)) False = Some (uid = 0 \<or> gid \<in> set gids)"
  by (simp add: launch_allowed_def read_groups_def group_loop_member)

section \<open>The terminal\<close>

text \<open>What the calls of \<open>setup_tty\<close> return: \<open>None\<close> or a nonzero value is a failure.\<close>

record tty_env =
  open_tty0 :: int
  openqry :: "int option"
  open_tty :: "c_string \<Rightarrow> int"
  tty_scan :: "dev_scan option"
  vt_activate :: int
  vt_waitactive :: int
  kdgkbmode :: "int option"
  kdskbmode :: int
  kdsetmode :: int
  vt_setmode :: int

datatype tty_failure =
    Tty_not_supported | No_tty0 | No_free_console | No_tty | Not_a_terminal | Vt_activate_failed
  | No_keyboard_mode | Keyboard_mode_failed | Graphics_mode_failed | Vt_control_failed
  | Tty_fault launch_fault

datatype tty_action =
    Open_tty c_string
  | Close_tty0 int
  | Activate int
  | Wait_active int
  | Keyboard_code
  | Graphics_mode
  | Raw_mode
  | Vt_process

definition tty_name :: "int \<Rightarrow> c_string" where
  "tty_name n = take 15 (''/dev/ttyv'' @ show_int (n - 1))"

text \<open>The driver of the terminal must be \<open>sc\<close>; a terminal that \<open>fstat\<close> rejects is not checked.\<close>

definition check_tty :: "dev_scan option \<Rightarrow> tty_failure + unit" where
  "check_tty sc =
     (case sc of
        None \<Rightarrow> Inr ()
      | Some sc \<Rightarrow>
          (let ttydrv = get_maj_min_driver sc in
           if ttydrv = Null then Inl Not_a_terminal
           else
             (case heap_strcmp ''sc'' ttydrv of
                Inl e \<Rightarrow> Inl (Tty_fault e)
              | Inr d \<Rightarrow>
                  if d \<noteq> 0 then Inl Not_a_terminal
                  else (case heap_free ttydrv of Inl e \<Rightarrow> Inl (Tty_fault e) | Inr _ \<Rightarrow> Inr ()))))"

definition activate_tty :: "tty_env \<Rightarrow> int \<Rightarrow> tty_failure + tty_action list" where
  "activate_tty env n =
     (if 0 < n then
        (if vt_activate env \<noteq> 0 then Inl Vt_activate_failed
         else if vt_waitactive env \<noteq> 0 then Inl Vt_activate_failed
         else Inr [Activate n, Wait_active n])
      else Inr [])"

definition take_tty :: "tty_env \<Rightarrow> weston_launch \<Rightarrow> tty_failure + weston_launch \<times> tty_action list" where
  "take_tty env wl =
     (case kdgkbmode env of
        None \<Rightarrow> Inl No_keyboard_mode
      | Some m \<Rightarrow>
          (let wl = wl\<lparr>kb_mode := m\<rparr> in
           if kdskbmode env \<noteq> 0 then Inl Keyboard_mode_failed
           else if kdsetmode env \<noteq> 0 then Inl Graphics_mode_failed
           else if vt_setmode env < 0 then Inl Vt_control_failed
           else Inr (wl, [Keyboard_code, Graphics_mode, Raw_mode, Vt_process])))"

definition setup_tty ::
  "tty_env \<Rightarrow> bool \<Rightarrow> weston_launch \<Rightarrow> tty_failure + weston_launch \<times> tty_action list"
where
  "setup_tty env tty_option wl =
     (let wl = wl\<lparr>ttynr := - 1\<rparr> in
      if tty_option then Inl Tty_not_supported
      else if open_tty0 env < 0 then Inl No_tty0
      else
        (case openqry env of
           None \<Rightarrow> Inl No_free_console
         | Some n \<Rightarrow>
             if n = - 1 then Inl No_free_console
             else
               (let name = tty_name n;
                    wl = wl\<lparr>ttynr := n, tty := open_tty env name\<rparr>
                in if tty wl < 0 then Inl No_tty
                   else
                     (case check_tty (tty_scan env) of
                        Inl e \<Rightarrow> Inl e
                      | Inr _ \<Rightarrow>
                          (case activate_tty env (ttynr wl) of
                             Inl e \<Rightarrow> Inl e
                           | Inr as \<Rightarrow>
                               (case take_tty env wl of
                                  Inl e \<Rightarrow> Inl e
                                | Inr (wl, as') \<Rightarrow>
                                    Inr (wl, [Open_tty name, Close_tty0 (open_tty0 env)] @ as @ as')))))))"

section \<open>The outcomes of a request\<close>

text \<open>The entries that have a dictionary decide: with a second one the string of the first is freed and
  its pointer returned.\<close>

fun driver_names :: "dev_entry list \<Rightarrow> c_string option list" where
  "driver_names [] = []"
| "driver_names (Driver d # es) = d # driver_names es"
| "driver_names (_ # es) = driver_names es"

definition named_driver :: "c_string option list \<Rightarrow> heap_string" where
  "named_driver ds =
     (case ds of
        [] \<Rightarrow> Null
      | None # _ \<Rightarrow> Null
      | [Some s] \<Rightarrow> Str s
      | Some s # _ # _ \<Rightarrow> Freed)"

lemma driver_loop_Str:
  "driver_loop (Str s) es = (if driver_names es = [] then Str s else Freed)"
  by (induction "Str s" es rule: driver_loop.induct) (auto split: option.splits)

lemma driver_loop_eq: "driver_loop Null es = named_driver (driver_names es)"
proof (induction es rule: driver_names.induct)
  case (2 d es)
  then show ?case by (cases d) (auto simp: named_driver_def driver_loop_Str split: list.splits)
qed (auto simp: named_driver_def)

text \<open>The driver of a request whose device could be opened and examined.\<close>

definition request_driver :: "open_request \<Rightarrow> heap_string" where
  "request_driver rq = (case stat_scan rq of None \<Rightarrow> Null | Some sc \<Rightarrow> get_maj_min_driver sc)"

definition is_mouse :: "open_request \<Rightarrow> bool" where
  "is_mouse rq \<longleftrightarrow> 0 \<le> open_fd rq \<and> open_fd rq < 19 \<and> request_driver rq = Str ''sysmouse''"

definition is_card :: "open_request \<Rightarrow> bool" where
  "is_card rq \<longleftrightarrow> 0 \<le> open_fd rq \<and> request_driver rq = Str ''drm''"

lemma strcmp_self [simp]: "strcmp s s = 0"
  by (simp add: strcmp_eq_0_iff)

lemma check_device_eq:
  "check_device rq =
     (if open_fd rq < 0 then Inr (open_fd rq, [])
      else if request_driver rq = Freed then Inl Use_after_free
      else if is_mouse rq \<or> is_card rq then Inr (open_fd rq, [])
      else Inr (- 1, [Close (open_fd rq)]))"
proof (cases "stat_scan rq")
  case None
  then show ?thesis by (auto simp: check_device_def request_driver_def is_mouse_def is_card_def)
next
  case (Some sc)
  then show ?thesis
    by (cases "get_maj_min_driver sc")
      (auto simp: check_device_def request_driver_def is_mouse_def is_card_def Let_def strcmp_eq_0_iff)
qed

definition add_mouse_path :: "weston_launch \<Rightarrow> open_request \<Rightarrow> weston_launch" where
  "add_mouse_path wl rq =
     wl\<lparr>drm_fd := open_fd rq, last_input_fd := max (last_input_fd wl) (open_fd rq),
        input_path := (input_path wl)[nat (open_fd rq - 3) := Some (req_path rq)]\<rparr>"

lemma record_mouse:
  "length (input_path wl) = 16 \<Longrightarrow> 0 \<le> fd \<Longrightarrow> fd < 19 \<Longrightarrow>
   record_device wl p fd (Str ''sysmouse'') =
     (if fd < 3 then Inl Bad_index
      else Inr (wl\<lparr>drm_fd := fd, last_input_fd := max (last_input_fd wl) fd,
        input_path := (input_path wl)[nat (fd - 3) := Some p]\<rparr>))"
  by (auto simp: record_device_def Let_def max_def)

lemma record_card: "record_device wl p fd (Str ''drm'') = Inr wl"
  by (simp add: record_device_def)

lemma record_none: "record_device wl p (- 1) d = Inr wl"
  by (simp add: record_device_def)

section \<open>The mice that are remembered\<close>

definition launch_ok :: "weston_launch \<Rightarrow> bool" where
  "launch_ok wl \<longleftrightarrow> length (input_path wl) = 16 \<and>
     (\<forall>i < 16. input_path wl ! i \<noteq> None \<longrightarrow> int i + 3 \<le> last_input_fd wl)"

lemma handle_open_cases:
  assumes "handle_open wl rq = Inr (wl', as, r)" "length (input_path wl) = 16" "- 1 \<le> open_fd rq"
  shows "wl' = (if 0 \<le> send_ret rq \<and> is_mouse rq then add_mouse_path wl rq else wl) \<and>
    (0 \<le> send_ret rq \<and> is_mouse rq \<longrightarrow> 3 \<le> open_fd rq)"
proof -
  obtain fd as1 where c: "check_device rq = Inr (fd, as1)"
    using assms by (auto simp: handle_open_def split: sum.splits)
  show ?thesis
  proof (cases "send_ret rq < 0")
    case True
    then show ?thesis using assms c by (auto simp: handle_open_def)
  next
    case False
    let ?d = "get_maj_min_driver (case stat_scan rq of Some sc \<Rightarrow> if 0 \<le> open_fd rq then sc else stale_scan rq
                    | None \<Rightarrow> stale_scan rq)"
    have r: "record_device wl (req_path rq) fd ?d = Inr wl'"
      using assms c False by (auto simp: handle_open_def Let_def split: sum.splits)
    consider (mouse) "is_mouse rq" | (card) "is_card rq" "\<not> is_mouse rq" | (none) "\<not> is_mouse rq" "\<not> is_card rq"
      by blast
    then show ?thesis
    proof cases
      case mouse
      then have "?d = Str ''sysmouse''" "fd = open_fd rq"
        using c by (auto simp: is_mouse_def request_driver_def check_device_eq split: option.splits)
      then show ?thesis
        using r False mouse record_mouse [OF assms(2), of "open_fd rq" "req_path rq"]
        by (auto simp: is_mouse_def add_mouse_path_def split: if_splits)
    next
      case card
      then have "?d = Str ''drm''"
        by (auto simp: is_card_def request_driver_def split: option.splits)
      then show ?thesis using r card record_card by simp
    next
      case none
      then have "fd = - 1" using c assms(3) by (auto simp: check_device_eq split: if_splits)
      then show ?thesis using r none record_none by simp
    qed
  qed
qed

lemma add_mouse_ok:
  "launch_ok wl \<Longrightarrow> 3 \<le> open_fd rq \<Longrightarrow> open_fd rq < 19 \<Longrightarrow> launch_ok (add_mouse_path wl rq)"
  by (force simp: launch_ok_def add_mouse_path_def nth_list_update)

text \<open>What the loop over the descriptors does: every remembered path whose descriptor \<open>fstat\<close> accepts is
  revoked, its descriptor closed and its slot cleared.\<close>

definition revoked :: "(int \<Rightarrow> bool) \<Rightarrow> weston_launch \<Rightarrow> nat \<Rightarrow> launch_action list" where
  "revoked fstat_ok wl i =
     (case input_path wl ! i of
        None \<Rightarrow> []
      | Some p \<Rightarrow> if fstat_ok (int i + 3) then [Revoke p, Close (int i + 3)] else [])"

definition kept :: "(int \<Rightarrow> bool) \<Rightarrow> weston_launch \<Rightarrow> nat \<Rightarrow> c_string option" where
  "kept fstat_ok wl i = (if fstat_ok (int i + 3) then None else input_path wl ! i)"

lemma revoked_other:
  "i \<noteq> j \<Longrightarrow> revoked f (wl\<lparr>input_path := (input_path wl)[j := x]\<rparr>) i = revoked f wl i"
  by (simp add: revoked_def)

lemma kept_other:
  "i \<noteq> j \<Longrightarrow> kept f (wl\<lparr>input_path := (input_path wl)[j := x]\<rparr>) i = kept f wl i"
  by (simp add: kept_def)

lemma close_loop_eq:
  "launch_ok wl \<Longrightarrow> n \<le> 16 \<Longrightarrow>
   close_loop f (int n + 3) wl =
     (wl\<lparr>input_path := take n (input_path wl) @ map (kept f wl) [n..<16]\<rparr>,
      concat (map (revoked f wl) [n..<16]))"
proof (induction "16 - n" arbitrary: n wl)
  case 0
  have "close_loop f fd wl = (wl, [])" if "19 \<le> fd" for fd
    using that 0(2)
  proof (induction "nat (last_input_fd wl + 1 - fd)" arbitrary: fd)
    case 0
    then show ?case by (simp add: close_loop.simps)
  next
    case (Suc k)
    then show ?case by (subst close_loop.simps) (auto simp: launch_ok_def)
  qed
  then show ?case using 0 by (simp add: launch_ok_def)
next
  case (Suc k)
  then have n: "n < 16" "length (input_path wl) = 16" by (auto simp: launch_ok_def)
  then have up: "[n..<16] = n # [Suc n..<16]" by (simp add: upt_rec)
  have tk: "take (Suc n) (input_path wl) = take n (input_path wl) @ [input_path wl ! n]"
    using n by (simp add: take_Suc_conv_app_nth)
  have nxt: "int n + 3 + 1 = int (Suc n) + 3" by simp
  have k: "k = 16 - Suc n" using Suc.hyps(2) by simp
  show ?case
  proof (cases "last_input_fd wl < int n + 3")
    case True
    then have none: "\<forall>i\<in>set [n..<16]. input_path wl ! i = None" using Suc.prems(1) by (fastforce simp: launch_ok_def)
    then have "concat (map (revoked f wl) [n..<16]) = []" by (auto simp: revoked_def)
    moreover have "map (kept f wl) [n..<16] = drop n (input_path wl)"
      using none n by (intro nth_equalityI) (auto simp: kept_def)
    ultimately show ?thesis using True by (subst close_loop.simps) simp
  next
    case False
    show ?thesis
    proof (cases "f (int n + 3) \<and> input_path wl ! n \<noteq> None")
      case True
      then obtain p where p: "input_path wl ! n = Some p" "f (int n + 3)" by auto
      let ?wl = "wl\<lparr>input_path := (input_path wl)[n := None]\<rparr>"
      have ok: "launch_ok ?wl"
        using Suc.prems(1) n by (auto simp: launch_ok_def nth_list_update split: if_splits)
      have ih: "close_loop f (int (Suc n) + 3) ?wl =
          (?wl\<lparr>input_path := take (Suc n) (input_path ?wl) @ map (kept f ?wl) [Suc n..<16]\<rparr>,
           concat (map (revoked f ?wl) [Suc n..<16]))"
        by (rule Suc.hyps(1) [OF k ok]) (use n in simp)
      have m: "map (kept f ?wl) [Suc n..<16] = map (kept f wl) [Suc n..<16]"
        "map (revoked f ?wl) [Suc n..<16] = map (revoked f wl) [Suc n..<16]"
        by (auto simp: kept_other revoked_other)
      have cl: "close_loop f (int n + 3) wl =
          (case close_loop f (int (Suc n) + 3) ?wl of (wl', as) \<Rightarrow> (wl', [Revoke p, Close (int n + 3)] @ as))"
        using False p n by (subst close_loop.simps) (simp add: nxt)
      have t: "take (Suc n) (input_path ?wl) = take n (input_path wl) @ [None]"
        using n by (simp add: take_Suc_conv_app_nth)
      have "revoked f wl n = [Revoke p, Close (int n + 3)]" "kept f wl n = None"
        using p by (simp_all add: revoked_def kept_def)
      then show ?thesis unfolding cl ih t m up by simp
    next
      case none: False
      have "close_loop f (int n + 3) wl = close_loop f (int (Suc n) + 3) wl"
        using False none n by (subst close_loop.simps) (auto simp: nxt split: option.splits)
      moreover have "revoked f wl n = []" "kept f wl n = input_path wl ! n"
        using none by (auto simp: revoked_def kept_def split: option.splits)
      ultimately show ?thesis using Suc.hyps(1) [OF k Suc.prems(1)] n by (simp add: up tk)
    qed
  qed
qed

lemma close_input_fds_eq:
  "launch_ok wl \<Longrightarrow>
   close_input_fds f wl =
     (wl\<lparr>input_path := map (kept f wl) [0..<16]\<rparr>, concat (map (revoked f wl) [0..<16]))"
  using close_loop_eq [of wl 0 f] by (simp add: close_input_fds_def)

lemma close_input_fds_ok: "launch_ok wl \<Longrightarrow> launch_ok (fst (close_input_fds f wl))"
  by (auto simp: close_input_fds_eq launch_ok_def kept_def)

section \<open>Runs of the launcher\<close>

text \<open>The loop of the launcher: requests of the compositor and signals, in any order, from the state
  \<open>wl0\<close>.  The list holds the descriptors of the mice that were handed out, oldest first.\<close>

inductive launch_run :: "weston_launch \<Rightarrow> weston_launch \<Rightarrow> int list \<Rightarrow> bool" for wl0 where
  start: "launch_run wl0 wl0 []"
| request: "launch_run wl0 wl mice \<Longrightarrow> - 1 \<le> open_fd rq \<Longrightarrow> handle_open wl rq = Inr (wl', as, r) \<Longrightarrow>
    launch_run wl0 wl' (if 0 \<le> send_ret rq \<and> is_mouse rq then mice @ [open_fd rq] else mice)"
| signal: "launch_run wl0 wl mice \<Longrightarrow> handle_signal fstat_ok sg wl = Handled wl' as \<Longrightarrow> launch_run wl0 wl' mice"

lemma signal_state:
  "handle_signal f sg wl = Handled wl' as \<Longrightarrow> launch_ok wl \<Longrightarrow> launch_ok wl' \<and> drm_fd wl' = drm_fd wl"
proof (cases sg)
  case SIGUSR1
  moreover assume "handle_signal f sg wl = Handled wl' as" "launch_ok wl"
  ultimately show ?thesis
    using close_input_fds_ok [of wl f] by (auto simp: close_input_fds_eq)
qed (auto split: if_splits)

lemma launch_run_ok:
  "launch_run wl0 wl mice \<Longrightarrow> launch_ok wl0 \<Longrightarrow>
   launch_ok wl \<and> drm_fd wl = (if mice = [] then drm_fd wl0 else last mice)"
proof (induction rule: launch_run.induct)
  case (request wl mice rq wl' as r)
  then have ih: "launch_ok wl" "length (input_path wl) = 16"
    "drm_fd wl = (if mice = [] then drm_fd wl0 else last mice)"
    by (auto simp: launch_ok_def)
  have w: "wl' = (if 0 \<le> send_ret rq \<and> is_mouse rq then add_mouse_path wl rq else wl)"
    "0 \<le> send_ret rq \<and> is_mouse rq \<longrightarrow> 3 \<le> open_fd rq"
    using handle_open_cases [OF request.hyps(3) ih(2) request.hyps(2)] by auto
  have "0 \<le> send_ret rq \<and> is_mouse rq \<Longrightarrow> launch_ok (add_mouse_path wl rq)"
    using add_mouse_ok [OF ih(1)] w(2) by (auto simp: is_mouse_def)
  then show ?case using ih w(1) by (auto simp: add_mouse_path_def)
next
  case (signal wl mice f sg wl' as)
  then show ?case using signal_state by metis
qed auto

section \<open>Taking the terminal\<close>

text \<open>Taking the terminal succeeds exactly when every call does and the driver of a terminal that can be
  examined is \<open>sc\<close>; it then has opened the console before the number that \<open>VT_OPENQRY\<close> gave.\<close>

lemma check_tty_ok:
  "check_tty sc = Inr () \<longleftrightarrow> (case sc of None \<Rightarrow> True | Some sc \<Rightarrow> get_maj_min_driver sc = Str ''sc'')"
proof (cases sc)
  case (Some s)
  then show ?thesis
    by (cases "get_maj_min_driver s") (auto simp: check_tty_def Let_def strcmp_eq_0_iff)
qed (simp add: check_tty_def)

lemma setup_tty_success:
  assumes "setup_tty env tty_option wl = Inr (wl', as)"
  shows "\<not> tty_option \<and> openqry env = Some (ttynr wl') \<and> tty wl' = open_tty env (tty_name (ttynr wl')) \<and>
    0 \<le> tty wl' \<and> kdgkbmode env = Some (kb_mode wl') \<and> check_tty (tty_scan env) = Inr () \<and>
    as = [Open_tty (tty_name (ttynr wl')), Close_tty0 (open_tty0 env)] @
      (if 0 < ttynr wl' then [Activate (ttynr wl'), Wait_active (ttynr wl')] else []) @
      [Keyboard_code, Graphics_mode, Raw_mode, Vt_process]"
  using assms
  by (auto simp: setup_tty_def take_tty_def activate_tty_def Let_def split: if_splits option.splits sum.splits)

section \<open>Properties\<close>

text \<open>C8: leaving the terminal revokes the mice: after any requests and signals, from a state in which no
  path is remembered, the signal to leave tells the compositor first, then revokes and closes each
  remembered device whose descriptor is open, in the order of the descriptors and each once; of the
  remembered paths none is left whose descriptor was open.  Only then a descriptor is told to give up its
  mastership, and the terminal let go.  That descriptor is not the graphics card's, which the launcher
  never records: it is that of the mouse handed out last, or what was recorded at the start where no
  mouse was handed out.\<close>

theorem leaving_revokes_mice:
  assumes "launch_run wl0 wl mice" "input_path wl0 = replicate 16 None"
  shows "handle_signal fstat_ok SIGUSR1 wl =
    Handled (wl\<lparr>input_path := map (kept fstat_ok wl) [0..<16]\<rparr>)
      ([Reply_deactivate] @ concat (map (revoked fstat_ok wl) [0..<16]) @
       [Drop_master (if mice = [] then drm_fd wl0 else last mice), Vt_release])"
proof -
  have "launch_ok wl0" using assms(2) by (simp add: launch_ok_def)
  then show ?thesis using launch_run_ok assms(1) by (simp add: close_input_fds_eq)
qed

text \<open>The launcher never remembers the graphics card: whatever is requested and signalled, \<open>drm_fd\<close> is
  the descriptor of the mouse that was opened last, or what it was at the start, so the signals give up
  and take the mastership of a mouse.  The test of the driver's name is the wrong way round.\<close>

theorem drm_fd_is_last_mouse:
  assumes "launch_run wl0 wl mice" "input_path wl0 = replicate 16 None"
  shows "drm_fd wl = (if mice = [] then drm_fd wl0 else last mice)"
proof -
  have "launch_ok wl0" using assms(2) by (simp add: launch_ok_def)
  then show ?thesis using launch_run_ok assms(1) by blast
qed

text \<open>Every outcome of a request that is answered: a device that cannot be opened or examined, or
  whose driver is neither \<open>drm\<close> nor \<open>sysmouse\<close>, or a mouse whose descriptor is 19 or more, is refused,
  its descriptor closed; a card is handed out and nothing is remembered; a mouse is handed out and its
  path remembered, but below descriptor 3 at an index outside the array; and where two entries of the
  device database match, the driver's name is read after it was freed.\<close>

theorem handle_open_outcomes:
  assumes "- 1 \<le> open_fd rq" "0 \<le> send_ret rq" "length (input_path wl) = 16"
    "get_maj_min_driver (stale_scan rq) \<noteq> Freed"
  shows "handle_open wl rq =
    (if 0 \<le> open_fd rq \<and> request_driver rq = Freed then Inl Use_after_free
     else if is_mouse rq then
       (if open_fd rq < 3 then Inl Bad_index
        else Inr (add_mouse_path wl rq, [Reply_open (open_fd rq)], 0))
     else if is_card rq then Inr (wl, [Reply_open (open_fd rq)], 0)
     else Inr (wl, (if 0 \<le> open_fd rq then [Close (open_fd rq)] else []) @ [Reply_open (- 1)], 0))"
proof -
  let ?d = "get_maj_min_driver (case stat_scan rq of Some sc \<Rightarrow> if 0 \<le> open_fd rq then sc else stale_scan rq
                  | None \<Rightarrow> stale_scan rq)"
  have d: "?d = request_driver rq" if "0 \<le> open_fd rq" "request_driver rq \<noteq> Null"
    using that by (auto simp: request_driver_def split: option.splits)
  have nf: "?d \<noteq> Freed" if "open_fd rq < 0 \<or> request_driver rq \<noteq> Freed"
    using that assms(4) by (auto simp: request_driver_def split: option.splits)
  then have free: "open_fd rq < 0 \<or> request_driver rq \<noteq> Freed \<Longrightarrow> heap_free ?d = Inr ()"
    by (cases ?d) auto
  consider (freed) "0 \<le> open_fd rq" "request_driver rq = Freed"
    | (mouse) "is_mouse rq" | (card) "is_card rq"
    | (none) "\<not> is_mouse rq" "\<not> is_card rq" "open_fd rq < 0 \<or> request_driver rq \<noteq> Freed"
    by (metis linorder_not_le)
  then show ?thesis
  proof cases
    case freed
    then show ?thesis by (simp add: handle_open_def check_device_eq)
  next
    case mouse
    then have f: "0 \<le> open_fd rq" "open_fd rq < 19" "request_driver rq = Str ''sysmouse''" "?d = Str ''sysmouse''"
      using d by (auto simp: is_mouse_def)
    show ?thesis
      using mouse assms(2) f record_mouse [OF assms(3) f(1,2), of "req_path rq"]
      by (simp add: handle_open_def check_device_eq add_mouse_path_def Let_def)
  next
    case card
    then have f: "0 \<le> open_fd rq" "request_driver rq = Str ''drm''" "?d = Str ''drm''" "\<not> is_mouse rq"
      using d by (auto simp: is_card_def is_mouse_def)
    show ?thesis
      using card assms(2) f record_card by (simp add: handle_open_def check_device_eq Let_def)
  next
    case none
    then have "check_device rq = Inr (- 1, if 0 \<le> open_fd rq then [Close (open_fd rq)] else [])"
      using assms(1) by (auto simp: check_device_eq)
    then show ?thesis
      using none assms(2) free record_none by (auto simp: handle_open_def Let_def)
  qed
qed

section \<open>A sample run\<close>

definition launch_start :: weston_launch where
  "launch_start = \<lparr>drm_fd = 0, last_input_fd = 0, input_path = replicate 16 None, tty = 4, ttynr = 2,
     kb_mode = 1, child = 100\<rparr>"

definition device_scan :: "c_string \<Rightarrow> dev_scan" where
  "device_scan d = \<lparr>enum_ok = True, scan_ret = 0, entries = [No_device, Driver (Some d)]\<rparr>"

definition mouse_request :: open_request where
  "mouse_request = \<lparr>req_path = ''/dev/sysmouse'', open_fd = 6, stat_scan = Some (device_scan ''sysmouse''),
     stale_scan = device_scan ''sc'', send_ret = 8\<rparr>"

definition mouse_opened :: weston_launch where
  "mouse_opened = launch_start\<lparr>drm_fd := 6, last_input_fd := 6,
     input_path := (replicate 16 None)[3 := Some ''/dev/sysmouse'']\<rparr>"

lemma device_scan_driver [simp]: "get_maj_min_driver (device_scan d) = Str d"
  by (simp add: get_maj_min_driver_def device_scan_def)

lemma mouse_request_simps:
  "request_driver mouse_request = Str ''sysmouse''" "is_mouse mouse_request" "open_fd mouse_request = 6"
  "send_ret mouse_request = 8" "get_maj_min_driver (stale_scan mouse_request) = Str ''sc''"
  by (simp_all add: mouse_request_def request_driver_def is_mouse_def)

lemma mouse_request_opened: "handle_open launch_start mouse_request = Inr (mouse_opened, [Reply_open 6], 0)"
  by code_simp

lemma mouse_opened_run: "launch_run launch_start mouse_opened [6]"
  using launch_run.request [OF launch_run.start _ mouse_request_opened]
  by (simp add: mouse_request_simps)

lemma leaving_revokes_mice_witness:
  "\<exists>wl'. handle_signal (\<lambda>_. True) SIGUSR1 mouse_opened =
     Handled wl' [Reply_deactivate, Revoke ''/dev/sysmouse'', Close 6, Drop_master 6, Vt_release]"
proof -
  have "concat (map (revoked (\<lambda>_. True) mouse_opened) [0..<16]) = [Revoke ''/dev/sysmouse'', Close 6]"
    by code_simp
  then show ?thesis
    using leaving_revokes_mice [OF mouse_opened_run, of "\<lambda>_. True"]
    by (simp add: launch_start_def mouse_opened_def)
qed

lemma drm_fd_is_last_mouse_witness: "drm_fd mouse_opened = 6"
  using drm_fd_is_last_mouse [OF mouse_opened_run] by (simp add: launch_start_def)

lemma handle_open_outcomes_witness:
  "handle_open launch_start mouse_request = Inr (add_mouse_path launch_start mouse_request, [Reply_open 6], 0)"
  using handle_open_outcomes [of mouse_request launch_start]
  by (simp add: mouse_request_simps launch_start_def)

end
