(* ===== verification/Forkfd.thy ===== *)
theory Forkfd
  imports Prelude
begin

text \<open>
  Starting a child process whose end is an event on a descriptor, and waiting for it:
  \<^verbatim>\<open>qt6-base/dragonfly/patch-src_3rdparty_forkfd_forkfd__dragonfly.c\<close>.

  After the \<open>fork\<close> the parent and the child run at the same time, so the rest of \<open>system_forkfd\<close> is a
  step relation: one step is one system call of the parent or of the child, or the death of the child
  by a signal from outside.  The kernel's queue is a parameter; the locale \<open>exit_queue\<close> states what
  \<open>kevent(2)\<close> promises about exits and about user events, and a list of pending events interprets it.
  The lemmas show that the exit of the child cannot be missed, that parent and child do not wait for
  each other for ever, and that waiting refines a process with three states.
\<close>

section \<open>The kernel's queue\<close>

record 'q exit_ops =
  kq_watch :: "'q \<Rightarrow> int \<Rightarrow> bool \<Rightarrow> 'q"
  kq_exit :: "'q \<Rightarrow> int \<Rightarrow> 'q"
  kq_trigger :: "'q \<Rightarrow> int \<Rightarrow> 'q"
  kq_next :: "'q \<Rightarrow> (int \<times> 'q) option"

text \<open>\<open>kq_watch q pid alive\<close> registers for the exit of a process, which is an event at once when the
  process is already dead; \<open>kq_exit\<close> is a process's exit, \<open>kq_trigger\<close> a triggered one-shot user event,
  and \<open>kq_next\<close> takes an event off the queue.\<close>

locale exit_queue =
  fixes ops :: "'q exit_ops"
    and pending :: "'q \<Rightarrow> int list"
    and watched :: "'q \<Rightarrow> int set"
  assumes watch_pending: "pending (kq_watch ops q p alive) = pending q @ (if alive then [] else [p])"
    and watch_watched: "watched (kq_watch ops q p alive) = (if alive then insert p (watched q) else watched q)"
    and exit_pending: "pending (kq_exit ops q p) = pending q @ (if p \<in> watched q then [p] else [])"
    and exit_watched: "watched (kq_exit ops q p) = watched q - {p}"
    and trigger_pending: "pending (kq_trigger ops q p) = pending q @ [p]"
    and trigger_watched: "watched (kq_trigger ops q p) = watched q"
    and next_none: "kq_next ops q = None \<longleftrightarrow> pending q = []"
    and next_some: "kq_next ops q = Some (p, q') \<Longrightarrow> pending q = p # pending q' \<and> watched q' = watched q"
begin

lemmas queue_simps = watch_pending watch_watched exit_pending exit_watched trigger_pending trigger_watched

lemma next_Cons: "pending q = p # ps \<Longrightarrow> \<exists>q'. kq_next ops q = Some (p, q') \<and> pending q' = ps \<and> watched q' = watched q"
  using next_none [of q] next_some [of q] by (cases "kq_next ops q") auto

end

text \<open>A set of watched processes and a list of events.\<close>

type_synonym event_list = "int set \<times> int list"

definition list_ops :: "event_list exit_ops" where
  "list_ops =
    \<lparr>kq_watch = (\<lambda>(w, es) p alive. if alive then (insert p w, es) else (w, es @ [p])),
     kq_exit = (\<lambda>(w, es) p. if p \<in> w then (w - {p}, es @ [p]) else (w, es)),
     kq_trigger = (\<lambda>(w, es) p. (w, es @ [p])),
     kq_next = (\<lambda>(w, es). case es of [] \<Rightarrow> None | p # es \<Rightarrow> Some (p, (w, es)))\<rparr>"

interpretation event_list: exit_queue list_ops snd fst
  by unfold_locales (auto simp: list_ops_def split: prod.splits list.splits)

section \<open>Starting\<close>

text \<open>Up to the \<open>fork\<close>: \<open>*system\<close>, and either the descriptors that are closed before -1 is returned or the
  process that goes on.\<close>

datatype started = Failed "int list" | Parent int | Child

definition forkfd_start :: "int \<Rightarrow> (int \<times> int) option \<Rightarrow> int \<Rightarrow> int \<times> started" where
  "forkfd_start kq sync pid =
     (if kq = - 1 then (0, Failed [])
      else (case sync of
              None \<Rightarrow> (0, Failed [kq])
            | Some (r, w) \<Rightarrow>
                (1, if pid = - 1 then Failed [r, w, kq] else if pid = 0 then Child else Parent pid)))"

text \<open>The next call of the parent, and of the child.\<close>

datatype parent_pc =
    P_close_read | P_kevent | P_close_write bool | P_kill | P_waitpid | P_returned | P_failed

datatype child_pc = C_close_write | C_read | C_close_read | C_running | C_zombie | C_reaped

record 'q forked =
  par :: parent_pc
  chi :: child_pc
  par_w :: bool
  chi_w :: bool
  kq :: 'q

abbreviation child_alive :: "'q forked \<Rightarrow> bool" where
  "child_alive s \<equiv> chi s \<noteq> C_zombie \<and> chi s \<noteq> C_reaped"

definition forked_init :: "'q \<Rightarrow> 'q forked" where
  "forked_init q = \<lparr>par = P_close_read, chi = C_close_write, par_w = True, chi_w = True, kq = q\<rparr>"

text \<open>The death of the child: its descriptors are closed and the queue is told.\<close>

definition child_dies :: "'q exit_ops \<Rightarrow> int \<Rightarrow> 'q forked \<Rightarrow> 'q forked" where
  "child_dies ops pid s = s\<lparr>chi := C_zombie, chi_w := False, kq := kq_exit ops (kq s) pid\<rparr>"

text \<open>The steps.  The child's \<open>read\<close> returns when no process can write any more, the parent's \<open>waitpid\<close> when
  the child is dead; an interruption of either repeats the call, and is no step.  \<open>kevent\<close> may fail at
  any time.\<close>

inductive fork_step :: "'q exit_ops \<Rightarrow> int \<Rightarrow> 'q forked \<Rightarrow> 'q forked \<Rightarrow> bool" for ops pid where
  par_close_read: "par s = P_close_read \<Longrightarrow> fork_step ops pid s (s\<lparr>par := P_kevent\<rparr>)"
| par_kevent: "par s = P_kevent \<Longrightarrow>
    fork_step ops pid s (s\<lparr>par := P_close_write True, kq := kq_watch ops (kq s) pid (child_alive s)\<rparr>)"
| par_kevent_fails: "par s = P_kevent \<Longrightarrow> fork_step ops pid s (s\<lparr>par := P_close_write False\<rparr>)"
| par_close_write: "par s = P_close_write ok \<Longrightarrow>
    fork_step ops pid s (s\<lparr>par := (if ok then P_returned else P_kill), par_w := False\<rparr>)"
| par_kill: "par s = P_kill \<Longrightarrow>
    fork_step ops pid s ((if child_alive s then child_dies ops pid s else s)\<lparr>par := P_waitpid\<rparr>)"
| par_waitpid: "par s = P_waitpid \<Longrightarrow> chi s = C_zombie \<Longrightarrow>
    fork_step ops pid s (s\<lparr>par := P_failed, chi := C_reaped\<rparr>)"
| chi_close_write: "chi s = C_close_write \<Longrightarrow> fork_step ops pid s (s\<lparr>chi := C_read, chi_w := False\<rparr>)"
| chi_read: "chi s = C_read \<Longrightarrow> \<not> par_w s \<Longrightarrow> \<not> chi_w s \<Longrightarrow> fork_step ops pid s (s\<lparr>chi := C_close_read\<rparr>)"
| chi_close_read: "chi s = C_close_read \<Longrightarrow> fork_step ops pid s (s\<lparr>chi := C_running\<rparr>)"
| chi_exits: "chi s = C_running \<Longrightarrow> fork_step ops pid s (child_dies ops pid s)"
| chi_killed: "child_alive s \<Longrightarrow> fork_step ops pid s (child_dies ops pid s)"

inductive fork_reachable :: "'q exit_ops \<Rightarrow> int \<Rightarrow> 'q \<Rightarrow> 'q forked \<Rightarrow> bool" for ops pid q where
  init: "fork_reachable ops pid q (forked_init q)"
| step: "fork_reachable ops pid q s \<Longrightarrow> fork_step ops pid s s' \<Longrightarrow> fork_reachable ops pid q s'"

section \<open>Waiting\<close>

text \<open>\<open>system_forkfd_wait\<close>.  \<open>getfl\<close> is the result of \<open>fcntl(F_GETFL)\<close> and whether it has \<open>O_NONBLOCK\<close>;
  \<open>kev_ok\<close> is whether the first \<open>kevent\<close> works;
  \<open>si\<close> is what \<open>waitid\<close> tells of a status and \<open>conv\<close> is \<open>convertStatusToForkfdInfo\<close>.  Where a call would
  sleep the outcome is \<open>Blocks\<close>.\<close>

datatype process = Running | Zombie int | Gone

record 'q handle =
  queue :: 'q
  process :: "int \<Rightarrow> process"

datatype wait_result = Blocks | Would_block | Wait_error | Waited "int \<times> int"

definition system_forkfd_wait ::
  "'q exit_ops \<Rightarrow> (int \<Rightarrow> int \<times> int) \<Rightarrow> (int \<Rightarrow> int \<times> int) \<Rightarrow> int \<times> bool \<Rightarrow> bool \<Rightarrow> bool \<Rightarrow> bool \<Rightarrow>
   'q handle \<Rightarrow> 'q handle \<times> wait_result"
where
  "system_forkfd_wait ops si conv getfl kev_ok nohang nowait h =
     (if \<not> nohang \<and> fst getfl = - 1 then (h, Wait_error)
      else if \<not> kev_ok then (h, Wait_error)
      else
        (let wnohang = nohang \<or> snd getfl in
         case kq_next ops (queue h) of
           None \<Rightarrow> (h, if wnohang then Would_block else Blocks)
         | Some (pid, q) \<Rightarrow>
             if nowait then
               (case process h pid of
                  Running \<Rightarrow> (h\<lparr>queue := q\<rparr>, Blocks)
                | Gone \<Rightarrow> (h\<lparr>queue := kq_trigger ops q pid\<rparr>, Wait_error)
                | Zombie st \<Rightarrow> (h\<lparr>queue := kq_trigger ops q pid\<rparr>, Waited (si st)))
             else
               (case process h pid of
                  Running \<Rightarrow> (h\<lparr>queue := q\<rparr>, Blocks)
                | Gone \<Rightarrow> (h\<lparr>queue := q\<rparr>, Wait_error)
                | Zombie st \<Rightarrow> (h\<lparr>queue := q, process := (process h)(pid := Gone)\<rparr>, Waited (conv st)))))"

section \<open>The exit of the child is not missed\<close>

inductive_cases fork_stepE: "fork_step ops pid s s'"

context exit_queue
begin

text \<open>The invariant: what the queue knows of the child, and how far the child can be.\<close>

definition fork_ok :: "int \<Rightarrow> 'q forked \<Rightarrow> bool" where
  "fork_ok pid s \<longleftrightarrow>
     (par_w s \<longleftrightarrow> par s \<in> {P_close_read, P_kevent, P_close_write True, P_close_write False}) \<and>
     (chi_w s \<longleftrightarrow> chi s = C_close_write) \<and>
     (chi s \<in> {C_close_read, C_running} \<longrightarrow> \<not> par_w s) \<and>
     (par s \<in> {P_close_read, P_kevent, P_close_write False, P_kill} \<longrightarrow> pending (kq s) = [] \<and> watched (kq s) = {}) \<and>
     (par s \<in> {P_close_write True, P_returned} \<longrightarrow> chi s \<noteq> C_reaped \<and>
        (if chi s = C_zombie then pending (kq s) = [pid] \<and> watched (kq s) = {}
         else pending (kq s) = [] \<and> watched (kq s) = {pid})) \<and>
     (chi s = C_reaped \<longleftrightarrow> par s = P_failed) \<and> (par s = P_waitpid \<longrightarrow> chi s = C_zombie)"

lemma fork_init_ok: "pending q = [] \<Longrightarrow> watched q = {} \<Longrightarrow> fork_ok pid (forked_init q)"
  by (simp add: fork_ok_def forked_init_def)

lemma child_dies_ok: "fork_ok pid s \<Longrightarrow> child_alive s \<Longrightarrow> fork_ok pid (child_dies ops pid s)"
  by (cases "par s") (auto simp: fork_ok_def child_dies_def queue_simps)

lemma fork_step_ok:
  assumes "fork_ok pid s" "fork_step ops pid s s'"
  shows "fork_ok pid s'"
  using assms(2)
proof cases
  case par_kill
  then show ?thesis
    using assms(1) child_dies_ok [OF assms(1)]
    by (auto simp: fork_ok_def child_dies_def queue_simps)
next
  case chi_exits
  then show ?thesis using child_dies_ok [OF assms(1)] by simp
next
  case chi_killed
  then show ?thesis using child_dies_ok [OF assms(1)] by simp
qed (use assms(1) in \<open>auto simp: fork_ok_def queue_simps split: if_splits\<close>)

lemma fork_reachable_ok:
  "fork_reachable ops pid q s \<Longrightarrow> pending q = [] \<Longrightarrow> watched q = {} \<Longrightarrow> fork_ok pid s"
  by (induction rule: fork_reachable.induct) (auto intro: fork_init_ok fork_step_ok)

end

section \<open>Parent and child do not wait for ever\<close>

fun par_rank :: "parent_pc \<Rightarrow> nat" where
  "par_rank P_close_read = 5"
| "par_rank P_kevent = 4"
| "par_rank (P_close_write ok) = 3"
| "par_rank P_kill = 2"
| "par_rank P_waitpid = 1"
| "par_rank P_returned = 0"
| "par_rank P_failed = 0"

fun chi_rank :: "child_pc \<Rightarrow> nat" where
  "chi_rank C_close_write = 5"
| "chi_rank C_read = 4"
| "chi_rank C_close_read = 3"
| "chi_rank C_running = 2"
| "chi_rank C_zombie = 1"
| "chi_rank C_reaped = 0"

definition fork_rank :: "'q forked \<Rightarrow> nat" where
  "fork_rank s = par_rank (par s) + chi_rank (chi s)"

lemma fork_step_rank: "fork_step ops pid s s' \<Longrightarrow> fork_rank s' < fork_rank s"
  by (induction rule: fork_step.induct)
    (auto simp: fork_rank_def child_dies_def split: if_splits, (case_tac "chi s"; simp)+)

lemma fork_run_rank: "(fork_step ops pid ^^ n) s1 s2 \<Longrightarrow> n + fork_rank s2 \<le> fork_rank s1"
proof (induction n arbitrary: s2)
  case (Suc n)
  then obtain s where "(fork_step ops pid ^^ n) s1 s" "fork_step ops pid s s2" by auto
  then show ?case using Suc.IH [of s] fork_step_rank [of ops pid s s2] by simp
qed simp

text \<open>A state in which the parent has returned and the child is past its waiting.\<close>

definition settled :: "'q forked \<Rightarrow> bool" where
  "settled s \<longleftrightarrow> par s \<in> {P_returned, P_failed} \<and> chi s \<in> {C_running, C_zombie, C_reaped}"

context exit_queue
begin

lemma fork_progress:
  assumes "fork_ok pid s" "\<not> settled s"
  shows "\<exists>s'. fork_step ops pid s s' \<and> (chi s' = C_zombie \<longrightarrow> chi s = C_zombie \<or> par s = P_kill)"
proof (cases "par s")
  case P_close_read
  then show ?thesis using fork_step.par_close_read [of s] by fastforce
next
  case P_kevent
  then show ?thesis using fork_step.par_kevent_fails [of s] by fastforce
next
  case (P_close_write ok)
  then show ?thesis using fork_step.par_close_write [of s] by fastforce
next
  case P_kill
  then show ?thesis using fork_step.par_kill [of s] by fastforce
next
  case P_waitpid
  then show ?thesis using assms(1) fork_step.par_waitpid [of s] by (fastforce simp: fork_ok_def)
next
  case P_failed
  then show ?thesis using assms by (auto simp: fork_ok_def settled_def)
next
  case P_returned
  then have w: "\<not> par_w s" using assms(1) by (simp add: fork_ok_def)
  have c: "chi s \<in> {C_close_write, C_read, C_close_read}"
    using assms P_returned by (cases "chi s") (auto simp: fork_ok_def settled_def)
  have "chi s = C_read \<Longrightarrow> \<not> chi_w s" using assms(1) by (simp add: fork_ok_def)
  then show ?thesis
    using c w fork_step.chi_close_write [of s ops pid] fork_step.chi_read [of s ops pid]
      fork_step.chi_close_read [of s ops pid] by fastforce
qed

end

section \<open>Waiting refines a process with three states\<close>

fun process_wait ::
  "(int \<Rightarrow> int \<times> int) \<Rightarrow> (int \<Rightarrow> int \<times> int) \<Rightarrow> bool \<Rightarrow> bool \<Rightarrow> process \<Rightarrow> process \<times> wait_result"
where
  "process_wait si conv nonblock nowait (Zombie st) =
     (if nowait then (Zombie st, Waited (si st)) else (Gone, Waited (conv st)))"
| "process_wait si conv nonblock nowait p = (p, if nonblock then Would_block else Blocks)"

text \<open>The descriptor and the process with number \<open>pid\<close>.\<close>

definition handle_ok :: "('q \<Rightarrow> int list) \<Rightarrow> ('q \<Rightarrow> int set) \<Rightarrow> int \<Rightarrow> 'q handle \<Rightarrow> bool" where
  "handle_ok pending watched pid h \<longleftrightarrow>
     pending (queue h) = (case process h pid of Zombie _ \<Rightarrow> [pid] | _ \<Rightarrow> []) \<and>
     watched (queue h) = (if process h pid = Running then {pid} else {})"

definition process_exits :: "'q exit_ops \<Rightarrow> int \<Rightarrow> int \<Rightarrow> 'q handle \<Rightarrow> 'q handle" where
  "process_exits ops pid st h = h\<lparr>queue := kq_exit ops (queue h) pid, process := (process h)(pid := Zombie st)\<rparr>"

context exit_queue
begin

lemma process_exits_ok:
  "handle_ok pending watched pid h \<Longrightarrow> process h pid = Running \<Longrightarrow>
   handle_ok pending watched pid (process_exits ops pid st h) \<and> process (process_exits ops pid st h) pid = Zombie st"
  by (simp add: handle_ok_def process_exits_def queue_simps)

lemma wait_refines:
  assumes "handle_ok pending watched pid h" "fst getfl \<noteq> - 1"
    "system_forkfd_wait ops si conv getfl True nohang nowait h = (h', r)"
  shows "handle_ok pending watched pid h' \<and>
    process_wait si conv (nohang \<or> snd getfl) nowait (process h pid) = (process h' pid, r)"
proof (cases "process h pid")
  case (Zombie st)
  then obtain q where "kq_next ops (queue h) = Some (pid, q)" "pending q = []" "watched q = {}"
    using assms(1) next_Cons [of "queue h" pid "[]"] by (auto simp: handle_ok_def)
  then show ?thesis
    using assms Zombie
    by (auto simp: system_forkfd_wait_def handle_ok_def Let_def queue_simps split: if_splits)
next
  case Running
  then have "kq_next ops (queue h) = None" using assms(1) next_none by (simp add: handle_ok_def)
  then show ?thesis using assms Running by (auto simp: system_forkfd_wait_def Let_def)
next
  case Gone
  then have "kq_next ops (queue h) = None" using assms(1) next_none by (simp add: handle_ok_def)
  then show ?thesis using assms Gone by (auto simp: system_forkfd_wait_def Let_def)
qed

end

section \<open>Properties\<close>

text \<open>C5: the exit of the child is not missed: however the steps of the parent, of the child and of the
  child's death interleave, when the parent hands out the descriptor then the child either lives and its
  exit is watched, or is dead and its exit is the one event in the queue; it has not been reaped.  The
  child gets past its waiting only after the parent's attempt to watch it, and where the start fails the
  child has been reaped.\<close>

theorem forkfd_exit_not_missed:
  assumes "exit_queue ops pending watched" "pending q = []" "watched q = {}" "fork_reachable ops pid q s"
  shows "(par s = P_returned \<longrightarrow> chi s \<noteq> C_reaped \<and>
      (if chi s = C_zombie then pending (kq s) = [pid]
       else pending (kq s) = [] \<and> watched (kq s) = {pid})) \<and>
    (chi s \<in> {C_close_read, C_running} \<longrightarrow> par s \<notin> {P_close_read, P_kevent}) \<and>
    (par s = P_failed \<longrightarrow> chi s = C_reaped)"
  using exit_queue.fork_reachable_ok [OF assms(1,4,2,3)]
  by (auto simp: exit_queue.fork_ok_def [OF assms(1)])

lemma forkfd_sample:
  "fork_reachable list_ops 7 ({}, [])
     \<lparr>par = P_returned, chi = C_zombie, par_w = False, chi_w = False, kq = ({}, [7])\<rparr>"
proof -
  let ?s = "\<lambda>p c pw cw q. \<lparr>par = p, chi = c, par_w = pw, chi_w = cw, kq = q\<rparr>"
  note sr = fork_reachable.step [where ops = list_ops and pid = 7 and q = "({}, [])"]
  have 0: "fork_reachable list_ops 7 ({}, []) (?s P_close_read C_close_write True True ({}, []))"
    using fork_reachable.init [of list_ops 7 "({}, [])"] by (simp add: forked_init_def)
  have 1: "fork_reachable list_ops 7 ({}, []) (?s P_kevent C_close_write True True ({}, []))"
    using sr [OF 0 fork_step.par_close_read] by simp
  have 2: "fork_reachable list_ops 7 ({}, []) (?s (P_close_write True) C_close_write True True ({7}, []))"
    using sr [OF 1 fork_step.par_kevent] by (simp add: list_ops_def)
  have 3: "fork_reachable list_ops 7 ({}, []) (?s P_returned C_close_write False True ({7}, []))"
    using sr [OF 2 fork_step.par_close_write] by simp
  show ?thesis using sr [OF 3 fork_step.chi_killed] by (simp add: child_dies_def list_ops_def)
qed

lemma forkfd_exit_not_missed_witness:
  "\<exists>s. fork_reachable list_ops 7 ({}, []) s \<and> par s = P_returned \<and> chi s = C_zombie \<and>
     snd (kq s) = [7]"
proof -
  let ?s = "\<lparr>par = P_returned, chi = C_zombie, par_w = False, chi_w = False, kq = ({}, [7])\<rparr>"
  have "snd (kq ?s) = [7]"
    using forkfd_exit_not_missed [OF event_list.exit_queue_axioms _ _ forkfd_sample] by simp
  with forkfd_sample show ?thesis by (intro exI [of _ ?s] conjI) simp_all
qed

text \<open>C22: parent and child do not wait for each other for ever: no run after the \<open>fork\<close> has more than ten
  steps, interrupted calls aside, and as long as the parent has not returned or the child is not past its
  waiting, the parent or the child has a next step that does not need the child's death from outside.\<close>

theorem forkfd_settles:
  assumes "exit_queue ops pending watched" "pending q = []" "watched q = {}" "fork_reachable ops pid q s"
  shows "((fork_step ops pid ^^ n) (forked_init q) s \<longrightarrow> n \<le> 10) \<and>
    (\<not> settled s \<longrightarrow> (\<exists>s'. fork_step ops pid s s' \<and> fork_rank s' < fork_rank s \<and>
       (chi s' = C_zombie \<longrightarrow> chi s = C_zombie \<or> par s = P_kill)))"
proof -
  have "(fork_step ops pid ^^ n) (forked_init q) s \<Longrightarrow> n \<le> 10"
    using fork_run_rank [of n ops pid "forked_init q" s] by (simp add: fork_rank_def forked_init_def)
  then show ?thesis
    using exit_queue.fork_progress [OF assms(1) exit_queue.fork_reachable_ok [OF assms(1,4,2,3)]]
      fork_step_rank [of ops pid s] by blast
qed

lemma forkfd_settles_witness:
  "\<exists>s'. fork_step list_ops 7 (forked_init ({}, [])) s' \<and> fork_rank s' < 10"
  using forkfd_settles [OF event_list.exit_queue_axioms _ _
      fork_reachable.init [of list_ops 7 "({}, [])"], of 0]
  by (auto simp: settled_def forked_init_def fork_rank_def)

text \<open>C23: waiting refines a process that runs, is dead or is gone: with the descriptor of a process and a
  \<open>fcntl\<close> that works, a wait returns the status of a dead process and makes it gone, a wait that only
  looks returns it and leaves the process and the event as they were, however often it is repeated, and
  with nothing to wait for the call blocks or says so; the exit of the process makes it dead; a \<open>kevent\<close>
  that fails changes nothing.\<close>

theorem forkfd_wait_refines:
  assumes "exit_queue ops pending watched" "handle_ok pending watched pid h" "fst getfl \<noteq> - 1"
  shows "system_forkfd_wait ops si conv getfl False nohang nowait h = (h, Wait_error) \<and>
    (\<exists>h' r. system_forkfd_wait ops si conv getfl True nohang nowait h = (h', r) \<and>
      process_wait si conv (nohang \<or> snd getfl) nowait (process h pid) = (process h' pid, r) \<and>
      handle_ok pending watched pid h') \<and>
    (process h pid = Running \<longrightarrow> process (process_exits ops pid st h) pid = Zombie st \<and>
      handle_ok pending watched pid (process_exits ops pid st h))"
  using exit_queue.wait_refines [OF assms] exit_queue.process_exits_ok [OF assms(1,2)]
  by (cases "system_forkfd_wait ops si conv getfl True nohang nowait h") (auto simp: system_forkfd_wait_def)

definition handle_sample :: "event_list handle" where
  "handle_sample = \<lparr>queue = ({}, [7]), process = (\<lambda>p. if p = 7 then Zombie 256 else Running)\<rparr>"

lemma forkfd_wait_refines_witness:
  "\<exists>h' r. system_forkfd_wait list_ops (\<lambda>st. (1, st)) (\<lambda>st. (1, st div 256)) (2, False) True False False handle_sample = (h', r) \<and>
     r = Waited (1, 1) \<and> process h' 7 = Gone"
proof -
  have "handle_ok snd fst 7 handle_sample" by (simp add: handle_ok_def handle_sample_def)
  from forkfd_wait_refines [OF event_list.exit_queue_axioms this, of "(2, False)"] show ?thesis
    by (fastforce simp: handle_sample_def)
qed

end
