(* ===== verification/Psutil_Refs.thy ===== *)
theory Psutil_Refs
  imports Prelude
begin

text \<open>
  References to Python objects, for the DragonFly part of psutil.

  The C code calls Python's API, which is not in the repository.  What the API documents is who owns a
  reference: a function that builds an object gives its caller one, a list that an object is appended to
  takes one of its own, the format unit \<open>N\<close> of \<open>Py_BuildValue\<close> takes over the caller's, and
  \<open>Py_DECREF\<close> gives one back.  A run of a function is recorded as the sequence of these events; the
  calls that can fail take their outcomes from an oracle, an argument of every function.  The balance of
  an object is the number of references to it that the function still owns: it must be 0 for all but the
  returned object in the end, and never negative.
\<close>

named_theorems ref_simps \<open>balances of a sequence of events\<close>

type_synonym py_id = nat

datatype ref_event = New py_id | Stored py_id | Stolen py_id | Decref py_id

fun event_balance :: "py_id \<Rightarrow> ref_event \<Rightarrow> int" where
  "event_balance i (New j) = (if i = j then 1 else 0)"
| "event_balance i (Stored j) = 0"
| "event_balance i (Stolen j) = (if i = j then - 1 else 0)"
| "event_balance i (Decref j) = (if i = j then - 1 else 0)"

definition balance :: "ref_event list \<Rightarrow> py_id \<Rightarrow> int" where
  "balance es i = (\<Sum>e\<leftarrow>es. event_balance i e)"

text \<open>A reference is given back that the function does not own.\<close>

definition over_released :: "ref_event list \<Rightarrow> py_id \<Rightarrow> bool" where
  "over_released es i \<longleftrightarrow> (\<exists>n \<le> length es. balance (take n es) i < 0)"

lemma balance_simps [ref_simps, simp]:
  "balance [] i = 0" "balance (e # es) i = event_balance i e + balance es i"
  "balance (es @ fs) i = balance es i + balance fs i"
  by (simp_all add: balance_def)

text \<open>A call of the API: the next number of an object, the events so far, and the outcomes to come; an
  oracle that has ended means success.\<close>

record py =
  next_id :: py_id
  events :: "ref_event list"
  outcomes :: "bool list"

definition py_start :: "bool list \<Rightarrow> py" where
  "py_start os = \<lparr>next_id = 0, events = [], outcomes = os\<rparr>"

definition py_try :: "py \<Rightarrow> bool \<times> py" where
  "py_try s = (case outcomes s of [] \<Rightarrow> (True, s) | b # os \<Rightarrow> (b, s\<lparr>outcomes := os\<rparr>))"

text \<open>\<open>PyList_New\<close>, \<open>Py_BuildValue\<close> without \<open>N\<close>, \<open>PyUnicode_DecodeFSDefault\<close>: a new object or \<open>NULL\<close>.\<close>

definition py_new :: "py \<Rightarrow> py_id option \<times> py" where
  "py_new s = (case py_try s of
     (False, s) \<Rightarrow> (None, s)
   | (True, s) \<Rightarrow> (Some (next_id s), s\<lparr>next_id := next_id s + 1, events := events s @ [New (next_id s)]\<rparr>))"

definition py_event :: "ref_event \<Rightarrow> py \<Rightarrow> py" where
  "py_event e s = s\<lparr>events := events s @ [e]\<rparr>"

text \<open>\<open>PyList_Append\<close>: whether it succeeds.\<close>

definition py_append :: "py_id \<Rightarrow> py \<Rightarrow> bool \<times> py" where
  "py_append i s = (case py_try s of
     (False, s) \<Rightarrow> (False, s)
   | (True, s) \<Rightarrow> (True, py_event (Stored i) s))"

definition py_decref :: "py_id \<Rightarrow> py \<Rightarrow> py" where
  "py_decref i = py_event (Decref i)"

definition py_xdecref :: "py_id option \<Rightarrow> py \<Rightarrow> py" where
  "py_xdecref x s = (case x of None \<Rightarrow> s | Some i \<Rightarrow> py_decref i s)"

text \<open>The loop that several functions share: build an object for each item, append it to the list, give
  the reference back.  The result is what was appended, whether a call failed, and the object of the
  variable at that point.\<close>

fun append_items :: "'a list \<Rightarrow> py \<Rightarrow> ('a list \<times> (py_id option) option) \<times> py" where
  "append_items [] s = (([], None), s)"
| "append_items (x # xs) s =
     (case py_new s of
        (None, s) \<Rightarrow> (([], Some None), s)
      | (Some i, s) \<Rightarrow>
          (case py_append i s of
             (False, s) \<Rightarrow> (([], Some (Some i)), s)
           | (True, s) \<Rightarrow>
               (case append_items xs (py_decref i s) of ((ys, r), s) \<Rightarrow> ((x # ys, r), s))))"

text \<open>A whole function of this shape: the list that it returns, or \<open>None\<close> for \<open>NULL\<close>.\<close>

definition build_list :: "'a list \<Rightarrow> py_id \<Rightarrow> py \<Rightarrow> 'a list option \<times> py" where
  "build_list xs l s =
     (case append_items xs s of
        ((ys, None), s) \<Rightarrow> (Some ys, s)
      | ((ys, Some x), s) \<Rightarrow> (None, py_decref l (py_xdecref x s)))"

section \<open>The loop owns nothing in the end\<close>

definition stored :: "ref_event list \<Rightarrow> py_id set" where
  "stored es = {i. Stored i \<in> set es}"

lemma py_new_None: "py_new s = (None, s') \<Longrightarrow> events s' = events s \<and> next_id s' = next_id s"
  by (auto simp: py_new_def py_try_def split: list.splits bool.splits prod.splits)

lemma py_new_Some:
  "py_new s = (Some i, s') \<Longrightarrow>
   i = next_id s \<and> next_id s' = Suc (next_id s) \<and> events s' = events s @ [New (next_id s)]"
  by (auto simp: py_new_def py_try_def split: list.splits bool.splits prod.splits)

lemma py_append_result:
  "py_append i s = (ok, s') \<Longrightarrow> next_id s' = next_id s \<and> events s' = events s @ (if ok then [Stored i] else [])"
  by (auto simp: py_append_def py_try_def py_event_def split: list.splits bool.splits prod.splits)

lemma py_decref_simps [simp]:
  "events (py_decref i s) = events s @ [Decref i]" "next_id (py_decref i s) = next_id s"
  "outcomes (py_decref i s) = outcomes s"
  by (simp_all add: py_decref_def py_event_def)

lemma py_xdecref_simps [simp]:
  "events (py_xdecref None s) = events s" "events (py_xdecref (Some i) s) = events s @ [Decref i]"
  "next_id (py_xdecref x s) = next_id s"
  by (simp_all add: py_xdecref_def split: option.splits)

lemma py_start_simps [simp]: "events (py_start os) = []" "next_id (py_start os) = 0"
  by (simp_all add: py_start_def)

definition alive_events :: "ref_event list \<Rightarrow> bool" where
  "alive_events es \<longleftrightarrow> (\<forall>i. \<not> over_released es i)"

lemma over_released_append:
  "\<not> over_released es i \<Longrightarrow> over_released (es @ [e]) i \<longleftrightarrow> balance es i + event_balance i e < 0"
  by (fastforce simp: over_released_def le_Suc_eq)

lemma alive_append:
  "alive_events es \<Longrightarrow> alive_events (es @ [e]) \<longleftrightarrow> (\<forall>i. 0 \<le> balance es i + event_balance i e)"
  by (simp add: alive_events_def over_released_append not_less)

lemma alive_Nil [simp]: "alive_events []"
  by (simp add: alive_events_def over_released_def)

lemma alive_nonneg: "alive_events es \<Longrightarrow> 0 \<le> balance es i"
  by (force simp: alive_events_def over_released_def not_less)

text \<open>What one call does to the balances; none of them gives back too much when the reference given back is
  owned.\<close>

lemma new_balance:
  "py_new s = (x, s') \<Longrightarrow> alive_events (events s) \<Longrightarrow>
   alive_events (events s') \<and> (\<forall>i. balance (events s') i = balance (events s) i + (if x = Some i then 1 else 0))"
  using py_new_None [of s s'] py_new_Some [of s "the x" s'] alive_nonneg [of "events s"]
  by (cases x) (auto simp: alive_append add_nonneg_nonneg)

lemma append_balance:
  "py_append i s = (ok, s') \<Longrightarrow> alive_events (events s) \<Longrightarrow>
   alive_events (events s') \<and> (\<forall>j. balance (events s') j = balance (events s) j)"
  using py_append_result [of i s ok s'] alive_nonneg [of "events s"] by (auto simp: alive_append)

lemma decref_balance:
  "alive_events (events s) \<Longrightarrow> 1 \<le> balance (events s) i \<Longrightarrow>
   alive_events (events (py_decref i s)) \<and>
   (\<forall>j. balance (events (py_decref i s)) j = balance (events s) j - (if j = i then 1 else 0))"
  using alive_nonneg [of "events s"] by (auto simp: alive_append)

lemma xdecref_balance:
  "alive_events (events s) \<Longrightarrow> (\<And>i. x = Some i \<Longrightarrow> 1 \<le> balance (events s) i) \<Longrightarrow>
   alive_events (events (py_xdecref x s)) \<and>
   (\<forall>j. balance (events (py_xdecref x s)) j = balance (events s) j - (if x = Some j then 1 else 0))"
  using decref_balance [of s "the x"] by (cases x) (auto simp: py_xdecref_def)

text \<open>The loop leaves every balance as it was, but for the object in the variable when it failed, and never
  gives back a reference that it does not own.\<close>

lemma append_items_balance:
  "append_items xs s = ((ys, r), s') \<Longrightarrow> alive_events (events s) \<Longrightarrow>
   next_id s \<le> next_id s' \<and> alive_events (events s') \<and>
   (\<forall>i. balance (events s') i = balance (events s) i + (if r = Some (Some i) then 1 else 0)) \<and>
   (r = None \<longrightarrow> ys = xs)"
proof (induction xs arbitrary: s ys)
  case (Cons x xs)
  obtain x0 s1 where 1: "py_new s = (x0, s1)" by fastforce
  show ?case
  proof (cases x0)
    case None
    then show ?thesis using Cons.prems 1 py_new_None [of s s1] by auto
  next
    case (Some i)
    have e1: "i = next_id s" "next_id s1 = Suc (next_id s)" "events s1 = events s @ [New i]"
      using py_new_Some 1 Some by blast+
    have a1: "alive_events (events s1)"
      using Cons.prems(2) alive_nonneg [OF Cons.prems(2)] by (auto simp: e1 alive_append add_nonneg_nonneg)
    obtain ok s2 where 2: "py_append i s1 = (ok, s2)" by fastforce
    have e2: "next_id s2 = next_id s1" "events s2 = events s1 @ (if ok then [Stored i] else [])"
      using py_append_result [OF 2] by auto
    have a2: "alive_events (events s2)"
      using a1 alive_nonneg [OF a1] by (auto simp: e2 alive_append)
    show ?thesis
    proof (cases ok)
      case False
      then show ?thesis using Cons.prems 1 2 Some e1 e2 a2 by auto
    next
      case True
      have "balance (events s2) j + event_balance j (Decref i) \<ge> 0" for j
        using alive_nonneg [OF Cons.prems(2), of j] by (auto simp: e1(3) e2(2) True)
      then have a3: "alive_events (events (py_decref i s2))" using a2 by (simp add: alive_append)
      obtain zs where zs: "append_items xs (py_decref i s2) = ((zs, r), s')" "ys = x # zs"
        using Cons.prems 1 2 Some True by (auto split: prod.splits)
      show ?thesis using Cons.IH [OF zs(1) a3] zs(2) e1 e2 True by auto
    qed
  qed
qed auto

lemma build_list_refs:
  assumes "build_list xs l s = (res, s')" "alive_events (events s)" "balance (events s) l = 1"
  shows "alive_events (events s') \<and> (\<forall>i. i \<noteq> l \<longrightarrow> balance (events s') i = balance (events s) i) \<and>
    balance (events s') l = (if res = None then 0 else 1) \<and> (res = None \<or> res = Some xs)"
proof -
  obtain ys r s1 where 1: "append_items xs s = ((ys, r), s1)" by (metis prod.collapse)
  note b = append_items_balance [OF 1 assms(2)]
  show ?thesis
  proof (cases r)
    case None
    then show ?thesis using assms 1 b by (auto simp: build_list_def)
  next
    case (Some x)
    show ?thesis
    proof (cases x)
      case None
      then show ?thesis
        using assms 1 b Some alive_nonneg [of "events s1"] by (auto simp: build_list_def alive_append)
    next
      case (Some i)
      have nn: "0 \<le> balance (events s) j" for j using alive_nonneg [OF assms(2)] by simp
      have "alive_events (events s1 @ [Decref i])"
        using b \<open>r = Some x\<close> Some nn by (auto simp: alive_append)
      moreover have "0 \<le> balance (events s1 @ [Decref i]) j + event_balance j (Decref l)" for j
        using b \<open>r = Some x\<close> Some nn [of j] assms(3) by auto
      ultimately have "alive_events ((events s1 @ [Decref i]) @ [Decref l])"
        by (subst alive_append) auto
      then show ?thesis
        using assms 1 b \<open>r = Some x\<close> Some by (auto simp: build_list_def)
    qed
  qed
qed

end
