(* ===== verification/Cpu_Masks.thy ===== *)
theory Cpu_Masks
  imports Prelude
begin

text \<open>
  Sets of CPUs: the interface of DragonFly's masks, and the backend of hwloc that converts between them
  and hwloc's bitmaps, \<^verbatim>\<open>hwloc2/dragonfly/patch-hwloc_topology-dragonfly.c\<close>.

  The macros on \<open>cpumask_t\<close> and \<open>cpu_set_t\<close> are the system's, so they are a parameter; the locale
  \<open>cpu_mask\<close> states that they are a set of bits below a limit, and a 256-bit word interprets it.  An
  hwloc bitmap is a set of numbers that may be infinite, as \<open>hwloc_bitmap_fill\<close> makes it.  The lemmas show
  when binding to a set and asking for the binding gives the set back.
\<close>

unbundle bit_operations_syntax

record 'm mask_ops =
  mask_zero :: 'm
  mask_set :: "nat \<Rightarrow> 'm \<Rightarrow> 'm"
  mask_test :: "'m \<Rightarrow> nat \<Rightarrow> bool"
  mask_bits :: nat

locale cpu_mask =
  fixes ops :: "'m mask_ops"
  assumes test_zero: "\<not> mask_test ops (mask_zero ops) i"
    and test_set: "i < mask_bits ops \<Longrightarrow> mask_test ops (mask_set ops i m) j \<longleftrightarrow> i = j \<or> mask_test ops m j"
begin

lemma test_fold_set:
  "\<forall>i\<in>set cs. i < mask_bits ops \<Longrightarrow> mask_test ops (fold (mask_set ops) cs m) j \<longleftrightarrow> j \<in> set cs \<or> mask_test ops m j"
  by (induction cs arbitrary: m) (auto simp: test_set)

end

definition mask256 :: "256 word mask_ops" where
  "mask256 =
    \<lparr>mask_zero = 0, mask_set = (\<lambda>i m. m OR push_bit i 1), mask_test = (\<lambda>m i. i < 256 \<and> bit m i), mask_bits = 256\<rparr>"

interpretation mask256: cpu_mask mask256
  by unfold_locales (auto simp: mask256_def bit_or_iff bit_push_bit_iff bit_1_iff bit_exp_iff)

section \<open>Bitmaps of hwloc\<close>

datatype bitmap = Finite "nat list" | Full

fun bitmap_isset :: "bitmap \<Rightarrow> nat \<Rightarrow> bool" where
  "bitmap_isset (Finite cs) i = (i \<in> set cs)"
| "bitmap_isset Full i = True"

text \<open>\<open>hwloc_dragonfly_bsd2hwloc\<close>: the loop sets the bits of the mask and counts them; a mask without bits
  becomes the full bitmap.\<close>

definition hwloc_dragonfly_bsd2hwloc :: "'m mask_ops \<Rightarrow> 'm \<Rightarrow> bitmap" where
  "hwloc_dragonfly_bsd2hwloc ops cpumask =
     (case fold (\<lambda>cpu (cs, found). if mask_test ops cpumask cpu then (cs @ [cpu], found + 1) else (cs, found))
        [0..<mask_bits ops] ([], 0 :: nat) of
        (cs, found) \<Rightarrow> if found = 0 then Full else Finite cs)"

definition hwloc_dragonfly_hwloc2bsd :: "'m mask_ops \<Rightarrow> bitmap \<Rightarrow> 'm" where
  "hwloc_dragonfly_hwloc2bsd ops b =
     fold (\<lambda>cpu m. if bitmap_isset b cpu then mask_set ops cpu m else m) [0..<mask_bits ops] (mask_zero ops)"

section \<open>The hooks\<close>

text \<open>\<open>setaffinity\<close> and \<open>getaffinity\<close> of a process or thread; they return a status, and \<open>getaffinity\<close> the
  mask, which is whatever was on the stack when it fails.  A hook returns its value and, for the thread
  hooks, the \<open>errno\<close> that it set.\<close>

definition hwloc_dragonfly_set_proc_cpubind ::
  "'m mask_ops \<Rightarrow> (int \<Rightarrow> 'm \<Rightarrow> 's \<Rightarrow> int \<times> 's) \<Rightarrow> int \<Rightarrow> bitmap \<Rightarrow> 's \<Rightarrow> int \<times> 's"
where
  "hwloc_dragonfly_set_proc_cpubind ops setaffinity pid b s =
     setaffinity pid (hwloc_dragonfly_hwloc2bsd ops b) s"

definition hwloc_dragonfly_get_proc_cpubind ::
  "'m mask_ops \<Rightarrow> (int \<Rightarrow> 's \<Rightarrow> int \<times> 'm) \<Rightarrow> int \<Rightarrow> 's \<Rightarrow> int \<times> bitmap"
where
  "hwloc_dragonfly_get_proc_cpubind ops getaffinity pid s =
     (case getaffinity pid s of (status, m) \<Rightarrow> (status, hwloc_dragonfly_bsd2hwloc ops m))"

definition hwloc_dragonfly_set_thisproc_cpubind ::
  "'m mask_ops \<Rightarrow> (int \<Rightarrow> 'm \<Rightarrow> 's \<Rightarrow> int \<times> 's) \<Rightarrow> bitmap \<Rightarrow> 's \<Rightarrow> int \<times> 's"
where
  "hwloc_dragonfly_set_thisproc_cpubind ops setaffinity b s =
     hwloc_dragonfly_set_proc_cpubind ops setaffinity 0 b s"

definition hwloc_dragonfly_get_thisproc_cpubind ::
  "'m mask_ops \<Rightarrow> (int \<Rightarrow> 's \<Rightarrow> int \<times> 'm) \<Rightarrow> 's \<Rightarrow> int \<times> bitmap"
where
  "hwloc_dragonfly_get_thisproc_cpubind ops getaffinity s =
     hwloc_dragonfly_get_proc_cpubind ops getaffinity 0 s"

definition hwloc_dragonfly_set_thread_cpubind ::
  "'m mask_ops \<Rightarrow> (int \<Rightarrow> 'm \<Rightarrow> 's \<Rightarrow> int \<times> 's) \<Rightarrow> int \<Rightarrow> bitmap \<Rightarrow> 's \<Rightarrow> int \<times> int option \<times> 's"
where
  "hwloc_dragonfly_set_thread_cpubind ops setaffinity tid b s =
     (case setaffinity tid (hwloc_dragonfly_hwloc2bsd ops b) s of (status, s) \<Rightarrow>
        if status \<noteq> 0 then (- 1, Some status, s) else (0, None, s))"

definition hwloc_dragonfly_get_thread_cpubind ::
  "'m mask_ops \<Rightarrow> (int \<Rightarrow> 's \<Rightarrow> int \<times> 'm) \<Rightarrow> int \<Rightarrow> 's \<Rightarrow> int \<times> int option \<times> bitmap"
where
  "hwloc_dragonfly_get_thread_cpubind ops getaffinity tid s =
     (case getaffinity tid s of (status, m) \<Rightarrow>
        if status \<noteq> 0 then (- 1, Some status, hwloc_dragonfly_bsd2hwloc ops m)
        else (0, None, hwloc_dragonfly_bsd2hwloc ops m))"

text \<open>\<open>hwloc_look_dragonfly\<close>: the number of processing units to set up (\<open>None\<close> when objects exist), whether
  support for them is reported, and the memory that is recorded.\<close>

datatype disc_phase = Phase_cpu | Phase_memory | Phase_other

record look_env =
  has_cpuset :: bool
  fallback_nbprocs :: int
  fallback_memsize :: int
  physmem :: int

definition hwloc_look_dragonfly :: "look_env \<Rightarrow> disc_phase \<Rightarrow> (bool \<times> int) option \<times> int option" where
  "hwloc_look_dragonfly env phase =
     (case phase of
        Phase_cpu \<Rightarrow>
          (if has_cpuset env then None
           else if 1 \<le> fallback_nbprocs env then Some (True, fallback_nbprocs env) else Some (False, 1), None)
      | Phase_memory \<Rightarrow>
          (None, let m = (if fallback_memsize env < 1 then physmem env else fallback_memsize env) in
                 if 0 < m then Some m else None)
      | Phase_other \<Rightarrow> (None, None))"

section \<open>Binding and asking for the binding\<close>

lemma bsd2hwloc_eq:
  "hwloc_dragonfly_bsd2hwloc ops m =
     (let cs = filter (mask_test ops m) [0..<mask_bits ops] in if cs = [] then Full else Finite cs)"
proof -
  have "fold (\<lambda>cpu (bs, found). if P cpu then (bs @ [cpu], found + 1) else (bs, found)) cs (bs, n :: nat) =
      (bs @ filter P cs, n + length (filter P cs))" for P and cs bs :: "nat list" and n
    by (induction cs arbitrary: bs n) auto
  then show ?thesis by (simp add: hwloc_dragonfly_bsd2hwloc_def Let_def)
qed

context cpu_mask
begin

lemma hwloc2bsd_test:
  "i < mask_bits ops \<Longrightarrow> mask_test ops (hwloc_dragonfly_hwloc2bsd ops b) i \<longleftrightarrow> bitmap_isset b i"
proof -
  have "mask_test ops (fold (\<lambda>cpu m. if P cpu then mask_set ops cpu m else m) cs m) i \<longleftrightarrow>
      mask_test ops m i \<or> i \<in> set cs \<and> P i" if "\<forall>c\<in>set cs. c < mask_bits ops" for P cs m
    using that by (induction cs arbitrary: m) (auto simp: test_set)
  from this [of "[0..<mask_bits ops]" "bitmap_isset b" "mask_zero ops"]
  show "i < mask_bits ops \<Longrightarrow> ?thesis" by (simp add: hwloc_dragonfly_hwloc2bsd_def test_zero)
qed

lemma conversion:
  "hwloc_dragonfly_bsd2hwloc ops (hwloc_dragonfly_hwloc2bsd ops b) =
     (let cs = filter (bitmap_isset b) [0..<mask_bits ops] in if cs = [] then Full else Finite cs)"
proof -
  have "filter (mask_test ops (hwloc_dragonfly_hwloc2bsd ops b)) [0..<mask_bits ops] =
      filter (bitmap_isset b) [0..<mask_bits ops]"
    by (rule filter_cong) (auto simp: hwloc2bsd_test)
  then show ?thesis by (simp add: bsd2hwloc_eq)
qed

end

section \<open>Properties\<close>

text \<open>C36: binding and asking: with a kernel whose \<open>getaffinity\<close> gives back the mask of the last
  \<open>setaffinity\<close>, a process bound to a bitmap is reported as bound to the CPUs of the bitmap that a mask
  can hold; so a bitmap of such CPUs comes back unchanged, except that the empty one, and one with no CPU
  below the limit, comes back as all CPUs.\<close>

theorem hwloc_cpubind_roundtrip:
  assumes "cpu_mask ops" "\<forall>m s s'. setaffinity pid m s = (0, s') \<longrightarrow> getaffinity pid s' = (0, m)"
    "hwloc_dragonfly_set_proc_cpubind ops setaffinity pid b s = (0, s')"
  shows "\<exists>b'. hwloc_dragonfly_get_proc_cpubind ops getaffinity pid s' = (0, b') \<and>
    (if \<exists>i < mask_bits ops. bitmap_isset b i
     then \<forall>i. bitmap_isset b' i \<longleftrightarrow> i < mask_bits ops \<and> bitmap_isset b i
     else b' = Full)"
proof -
  let ?cs = "filter (bitmap_isset b) [0..<mask_bits ops]"
  have "getaffinity pid s' = (0, hwloc_dragonfly_hwloc2bsd ops b)"
    using assms(2,3) by (simp add: hwloc_dragonfly_set_proc_cpubind_def)
  then have "hwloc_dragonfly_get_proc_cpubind ops getaffinity pid s' =
      (0, if ?cs = [] then Full else Finite ?cs)"
    by (simp add: hwloc_dragonfly_get_proc_cpubind_def cpu_mask.conversion [OF assms(1)] Let_def)
  moreover have "?cs = [] \<longleftrightarrow> \<not> (\<exists>i < mask_bits ops. bitmap_isset b i)"
    by (auto simp: filter_empty_conv)
  ultimately show ?thesis by auto
qed

lemma hwloc_cpubind_roundtrip_witness:
  "\<exists>b'. hwloc_dragonfly_get_proc_cpubind mask256 (\<lambda>pid s. (0, s)) 5 (0x15 :: 256 word) = (0, b') \<and>
     bitmap_isset b' 4 \<and> \<not> bitmap_isset b' 1"
proof -
  have "hwloc_dragonfly_set_proc_cpubind mask256 (\<lambda>pid m s. (0, m)) 5 (Finite [0, 4, 2]) 0 = (0, 0x15 :: 256 word)"
    by code_simp
  from hwloc_cpubind_roundtrip [OF mask256.cpu_mask_axioms _ this, of "\<lambda>pid s. (0, s)"] obtain b' where
    b': "hwloc_dragonfly_get_proc_cpubind mask256 (\<lambda>pid s. (0, s)) 5 (0x15 :: 256 word) = (0, b')"
    "if \<exists>i < mask_bits mask256. bitmap_isset (Finite [0, 4, 2]) i
     then \<forall>i. bitmap_isset b' i \<longleftrightarrow> i < mask_bits mask256 \<and> bitmap_isset (Finite [0, 4, 2]) i
     else b' = Full"
    by auto
  have "\<exists>i < mask_bits mask256. bitmap_isset (Finite [0, 4, 2]) i"
    by (rule exI [of _ 4]) (simp add: mask256_def)
  then show ?thesis using b' by (auto simp: mask256_def)
qed

end
