(* ===== verification/Psutil_Proc.thy ===== *)
theory Psutil_Proc
  imports Psutil_Refs Cpu_Masks
begin

text \<open>
  Information on one process, \<^verbatim>\<open>py-psutil/dragonfly/patch-psutil_arch_dragonfly_proc.c\<close>: its arguments,
  executable, threads, directory and CPU affinity as Python objects.

  What \<open>sysctl\<close>, \<open>malloc\<close> and the parsing of Python's arguments return is an argument; the API's calls take
  their outcomes from the state of \<open>Psutil_Refs\<close>.  A function returns a value, or \<open>NULL\<close> with an
  exception set (\<open>Raised\<close>) or without one (\<open>Silent\<close>, which Python reports as a system error).  The
  lemmas show that the arguments are split correctly and what becomes of the references.
\<close>

datatype 'a py_result = Value 'a | Raised | Silent

datatype proc_fault = Overread | Indeterminate_free | Bad_cpu

section \<open>The arguments\<close>

abbreviation nul :: char where
  "nul \<equiv> CHR 0x00"

text \<open>The C string at a position of a buffer; \<open>None\<close> when no NUL follows in it.\<close>

definition c_string_at :: "char list \<Rightarrow> nat \<Rightarrow> c_string option" where
  "c_string_at buf pos =
     (if nul \<in> set (drop pos buf) then Some (takeWhile (\<lambda>c. c \<noteq> nul) (drop pos buf)) else None)"

text \<open>The loop over the strings of the buffer, of which the first \<open>sz\<close> bytes were filled.\<close>

function cmdline_loop ::
  "char list \<Rightarrow> nat \<Rightarrow> nat \<Rightarrow> py \<Rightarrow> proc_fault + (c_string list \<times> (py_id option) option) \<times> py"
where
  "cmdline_loop buf sz pos s =
     (if pos < sz then
        (case c_string_at buf pos of
           None \<Rightarrow> Inl Overread
         | Some arg \<Rightarrow>
             (case py_new s of
                (None, s) \<Rightarrow> Inr (([], Some None), s)
              | (Some i, s) \<Rightarrow>
                  (case py_append i s of
                     (False, s) \<Rightarrow> Inr (([], Some (Some i)), s)
                   | (True, s) \<Rightarrow>
                       (case cmdline_loop buf sz (pos + length arg + 1) (py_decref i s) of
                          Inl e \<Rightarrow> Inl e
                        | Inr ((args, r), s) \<Rightarrow> Inr ((arg # args, r), s)))))
      else Inr (([], None), s))"
  by pat_completeness auto
termination
  by (relation "measure (\<lambda>(buf, sz, pos, s). sz - pos)") auto

declare cmdline_loop.simps [simp del]

text \<open>What the calls return: \<open>args_bytes\<close> is what \<open>sysctl\<close> fills in, \<open>args_junk\<close> the rest of the buffer of
  \<open>argmax\<close> bytes.\<close>

record cmdline_env =
  parse_ok :: bool
  argmax_ok :: bool
  malloc_ok :: bool
  args_bytes :: "char list option"
  args_junk :: "char list"

definition psutil_proc_cmdline ::
  "cmdline_env \<Rightarrow> py \<Rightarrow> proc_fault + c_string list py_result \<times> py"
where
  "psutil_proc_cmdline env s =
     (case py_new s of
        (None, s) \<Rightarrow> Inr (Raised, s)
      | (Some l, s) \<Rightarrow>
          if \<not> parse_ok env then Inr (Raised, py_decref l s)
          else if \<not> argmax_ok env then Inr (Silent, py_decref l s)
          else if \<not> malloc_ok env then Inr (Raised, py_decref l s)
          else
            (case args_bytes env of
               None \<Rightarrow> Inr (Raised, py_decref l s)
             | Some bs \<Rightarrow>
                 (case cmdline_loop (bs @ args_junk env) (length bs) 0 s of
                    Inl e \<Rightarrow> Inl e
                  | Inr ((args, None), s) \<Rightarrow> Inr (Value args, s)
                  | Inr ((args, Some x), s) \<Rightarrow> Inr (Raised, py_decref l (py_xdecref x s)))))"

section \<open>The executable\<close>

text \<open>\<open>exe_sysctl\<close>: the value of \<open>errno\<close>, or the size and the string of the buffer.\<close>

record exe_env =
  exe_parse_ok :: bool
  exe_sysctl :: "int + nat \<times> c_string"
  pid_exists :: int

definition ENOENT :: int where
  "ENOENT = 2"

definition decode_string :: "c_string \<Rightarrow> py \<Rightarrow> c_string py_result \<times> py" where
  "decode_string str s = (case py_new s of (None, s) \<Rightarrow> (Raised, s) | (Some _, s) \<Rightarrow> (Value str, s))"

definition psutil_proc_exe :: "exe_env \<Rightarrow> py \<Rightarrow> c_string py_result \<times> py" where
  "psutil_proc_exe env s =
     (if \<not> exe_parse_ok env then (Raised, s)
      else
        (case exe_sysctl env of
           Inl errno \<Rightarrow> if errno = ENOENT then decode_string [] s else (Raised, s)
         | Inr (sz, pathname) \<Rightarrow>
             if sz = 0 \<or> pathname = [] then
               (if pid_exists env = - 1 then (Raised, s)
                else if pid_exists env = 0 then (Raised, s)
                else decode_string [] s)
             else decode_string pathname s))"

section \<open>The threads\<close>

text \<open>A thread: its number, and its user and system time in microseconds, which the code turns into
  seconds.\<close>

record lwp =
  kl_tid :: int
  utime_sec :: int
  utime_usec :: int
  stime_sec :: int
  stime_usec :: int

definition tv_micros :: "int \<Rightarrow> int \<Rightarrow> int" where
  "tv_micros sec usec = sec * 1000000 + usec"

definition thread_entry :: "lwp \<Rightarrow> int \<times> int \<times> int" where
  "thread_entry l = (kl_tid l, tv_micros (utime_sec l) (utime_usec l), tv_micros (stime_sec l) (stime_usec l))"

record threads_env =
  thr_parse_ok :: bool
  thr_size :: "nat option"
  thr_malloc_ok :: bool
  thr_lwps :: "lwp list option"

definition psutil_proc_threads :: "threads_env \<Rightarrow> py \<Rightarrow> (int \<times> int \<times> int) list py_result \<times> py" where
  "psutil_proc_threads env s =
     (case py_new s of
        (None, s) \<Rightarrow> (Raised, s)
      | (Some l, s) \<Rightarrow>
          if \<not> thr_parse_ok env then (Raised, py_decref l s)
          else
            (case thr_size env of
               None \<Rightarrow> (Raised, py_decref l s)
             | Some sz \<Rightarrow>
                 if sz = 0 then (Raised, py_decref l s)
                 else if \<not> thr_malloc_ok env then (Raised, py_decref l s)
                 else
                   (case thr_lwps env of
                      None \<Rightarrow> (Raised, py_decref l s)
                    | Some lwps \<Rightarrow>
                        if lwps = [] then (Raised, py_decref l s)
                        else
                          (case build_list (map thread_entry lwps) l s of
                             (None, s) \<Rightarrow> (Raised, s)
                           | (Some xs, s) \<Rightarrow> (Value xs, s)))))"

text \<open>\<open>psutil_proc_num_threads\<close>; \<open>None\<close> is a failed \<open>psutil_kinfo_proc\<close>.\<close>

definition psutil_proc_num_threads :: "bool \<Rightarrow> int option \<Rightarrow> py \<Rightarrow> int py_result \<times> py" where
  "psutil_proc_num_threads parsed nthreads s =
     (if \<not> parsed then (Raised, s)
      else
        (case nthreads of
           None \<Rightarrow> (Raised, s)
         | Some n \<Rightarrow> (case py_new s of (None, s) \<Rightarrow> (Raised, s) | (Some _, s) \<Rightarrow> (Value n, s))))"

section \<open>The directory\<close>

text \<open>\<open>psutil_proc_cwd\<close>, with the number of buffers that it does not free.  When the arguments cannot be
  parsed it frees a pointer that was never set.\<close>

definition psutil_proc_cwd ::
  "bool \<Rightarrow> bool \<Rightarrow> c_string option \<Rightarrow> py \<Rightarrow> proc_fault + c_string py_result \<times> nat \<times> py"
where
  "psutil_proc_cwd parsed alloc cwd s =
     (if \<not> parsed then Inl Indeterminate_free
      else if \<not> alloc then Inr (Raised, 0, s)
      else
        (case cwd of
           None \<Rightarrow> Inr (Raised, 0, s)
         | Some path \<Rightarrow>
             (case decode_string path s of
                (Value p, s) \<Rightarrow> Inr (Value p, 1, s)
              | (r, s) \<Rightarrow> Inr (r, 0, s))))"

section \<open>The CPUs\<close>

text \<open>The loop of \<open>psutil_proc_cpu_affinity_get\<close>: it does not give back the reference to a number that it
  has appended.\<close>

fun affinity_loop :: "nat list \<Rightarrow> py \<Rightarrow> (nat list \<times> (py_id option) option) \<times> py" where
  "affinity_loop [] s = (([], None), s)"
| "affinity_loop (x # xs) s =
     (case py_new s of
        (None, s) \<Rightarrow> (([], Some None), s)
      | (Some i, s) \<Rightarrow>
          (case py_append i s of
             (False, s) \<Rightarrow> (([], Some (Some i)), s)
           | (True, s) \<Rightarrow> (case affinity_loop xs s of ((ys, r), s) \<Rightarrow> ((x # ys, r), s))))"

definition psutil_proc_cpu_affinity_get ::
  "'m mask_ops \<Rightarrow> bool \<Rightarrow> int \<times> 'm \<Rightarrow> py \<Rightarrow> nat list py_result \<times> py"
where
  "psutil_proc_cpu_affinity_get ops parsed res s =
     (if \<not> parsed then (Raised, s)
      else if fst res \<noteq> 0 then (Raised, s)
      else
        (case py_new s of
           (None, s) \<Rightarrow> (Raised, s)
         | (Some l, s) \<Rightarrow>
             (case affinity_loop (filter (mask_test ops (snd res)) [0..<mask_bits ops]) s of
                ((cpus, None), s) \<Rightarrow> (Value cpus, s)
              | ((cpus, Some x), s) \<Rightarrow> (Raised, py_decref l (py_xdecref x s)))))"

text \<open>The loop of \<open>psutil_proc_cpu_affinity_set\<close>: \<open>None\<close> is an item that is no integer.  A value of -1 is
  taken for an error although no exception is set.  What \<open>CPU_SET\<close> does outside the mask is not known
  here; that is a fault.\<close>

fun affinity_mask :: "'m mask_ops \<Rightarrow> int option list \<Rightarrow> 'm \<Rightarrow> proc_fault + 'm py_result" where
  "affinity_mask ops [] m = Inr (Value m)"
| "affinity_mask ops (None # vs) m = Inr Raised"
| "affinity_mask ops (Some v # vs) m =
     (if v = - 1 then Inr Silent
      else if 0 \<le> v \<and> v < int (mask_bits ops) then affinity_mask ops vs (mask_set ops (nat v) m)
      else Inl Bad_cpu)"

definition psutil_proc_cpu_affinity_set ::
  "'m mask_ops \<Rightarrow> ('m \<Rightarrow> 's \<Rightarrow> int \<times> 's) \<Rightarrow> bool \<Rightarrow> int option list option \<Rightarrow> 's \<Rightarrow>
   proc_fault + unit py_result \<times> 's"
where
  "psutil_proc_cpu_affinity_set ops setaffinity parsed values k =
     (if \<not> parsed then Inr (Raised, k)
      else
        (case values of
           None \<Rightarrow> Inr (Raised, k)
         | Some vs \<Rightarrow>
             (case affinity_mask ops vs (mask_zero ops) of
                Inl e \<Rightarrow> Inl e
              | Inr (Value m) \<Rightarrow>
                  (case setaffinity m k of (ret, k) \<Rightarrow> Inr (if ret \<noteq> 0 then Raised else Value (), k))
              | Inr Raised \<Rightarrow> Inr (Raised, k)
              | Inr Silent \<Rightarrow> Inr (Silent, k))))"

section \<open>Splitting the arguments\<close>

text \<open>The strings that the loop finds, when all of them end in the buffer.\<close>

fun flat_args :: "c_string list \<Rightarrow> char list" where
  "flat_args [] = []"
| "flat_args (a # as) = a @ nul # flat_args as"

lemma takeWhile_arg: "nul \<notin> set a \<Longrightarrow> takeWhile (\<lambda>c. c \<noteq> nul) (a @ nul # r) = a"
  by (induction a) auto

lemma cmdline_loop_args:
  "\<forall>a\<in>set args. nul \<notin> set a \<Longrightarrow>
   cmdline_loop (pre @ flat_args args @ junk) (length pre + length (flat_args args)) (length pre) s =
     Inr (append_items args s)"
proof (induction args arbitrary: pre s)
  case Nil
  then show ?case by (simp add: cmdline_loop.simps)
next
  case (Cons a as)
  let ?buf = "pre @ flat_args (a # as) @ junk"
  have str: "c_string_at ?buf (length pre) = Some a"
    using Cons.prems takeWhile_arg [of a "flat_args as @ junk"] by (simp add: c_string_at_def)
  have ih: "cmdline_loop ?buf (length pre + length (flat_args (a # as))) (length pre + length a + 1) s' =
      Inr (append_items as s')" for s'
    using Cons.IH [of "pre @ a @ [nul]" s'] Cons.prems by (simp add: add.assoc)
  show ?case
    using str by (subst cmdline_loop.simps) (simp add: ih [simplified] split: prod.splits option.splits bool.splits)
qed

lemma append_items_success: "outcomes s = [] \<Longrightarrow> \<exists>s'. append_items xs s = ((xs, None), s')"
proof (induction xs arbitrary: s)
  case (Cons x xs)
  let ?s = "py_decref (next_id s) (snd (py_append (next_id s) (snd (py_new s))))"
  have "outcomes ?s = []"
    using Cons.prems by (simp add: py_new_def py_append_def py_try_def py_event_def)
  from Cons.IH [OF this] obtain s' where s': "append_items xs ?s = ((xs, None), s')" by blast
  have "append_items (x # xs) s = ((x # xs, None), s')"
    using Cons.prems s' by (simp add: py_new_def py_append_def py_try_def py_event_def)
  then show ?case by blast
qed simp

lemma py_new_start: "py_new (py_start os) = (r, s) \<Longrightarrow>
   alive_events (events s) \<and> (case r of None \<Rightarrow> events s = [] | Some l \<Rightarrow> l = 0 \<and> events s = [New 0])"
  using py_new_None [of "py_start os" s] py_new_Some [of "py_start os" _ s] alive_append [of "[]" "New 0"]
  by (cases r) auto

lemma py_new_start_success: "py_new (py_start []) = (Some 0, \<lparr>next_id = 1, events = [New 0], outcomes = []\<rparr>)"
  by (simp add: py_new_def py_try_def py_start_def)

section \<open>The loop that keeps its references\<close>

lemma affinity_loop_balance:
  "outcomes s = [] \<Longrightarrow>
   \<exists>s'. affinity_loop xs s = ((xs, None), s') \<and>
     (\<forall>i. balance (events s') i = balance (events s) i + (if next_id s \<le> i \<and> i < next_id s + length xs then 1 else 0))"
proof (induction xs arbitrary: s)
  case (Cons x xs)
  let ?s = "snd (py_append (next_id s) (snd (py_new s)))"
  have o: "outcomes ?s = []" "next_id ?s = Suc (next_id s)" "events ?s = events s @ [New (next_id s), Stored (next_id s)]"
    using Cons.prems by (simp_all add: py_new_def py_append_def py_try_def py_event_def)
  from Cons.IH [OF o(1)] obtain s' where s': "affinity_loop xs ?s = ((xs, None), s')"
    "\<forall>i. balance (events s') i = balance (events ?s) i + (if next_id ?s \<le> i \<and> i < next_id ?s + length xs then 1 else 0)"
    by blast
  have "affinity_loop (x # xs) s = ((x # xs, None), s')"
    using Cons.prems s'(1) by (simp add: py_new_def py_append_def py_try_def py_event_def)
  then show ?case using s'(2) by (auto simp: o)
qed simp

context cpu_mask
begin

lemma affinity_mask_test:
  "\<forall>v\<in>set vs. v < mask_bits ops \<Longrightarrow>
   \<exists>m'. affinity_mask ops (map (\<lambda>v. Some (int v)) vs) m = Inr (Value m') \<and>
     (\<forall>j. mask_test ops m' j \<longleftrightarrow> j \<in> set vs \<or> mask_test ops m j)"
proof (induction vs arbitrary: m)
  case (Cons v vs)
  then obtain m' where m': "affinity_mask ops (map (\<lambda>v. Some (int v)) vs) (mask_set ops v m) = Inr (Value m')"
    "\<forall>j. mask_test ops m' j \<longleftrightarrow> j \<in> set vs \<or> mask_test ops (mask_set ops v m) j" by fastforce
  have "v < mask_bits ops" using Cons.prems by simp
  with m' show ?case by (auto simp: test_set)
qed simp

end

section \<open>Properties\<close>

text \<open>C14: the arguments of a process come back as they are: when the calls of the system succeed and
  deliver the arguments with a NUL behind each, the function returns a list of exactly these arguments,
  and owns a reference to that list and none to anything else; when one of Python's calls fails it
  returns \<open>NULL\<close> with the exception set and owns nothing; in neither case does it give back a reference
  that it does not own, and with enough memory it returns the list.\<close>

theorem proc_cmdline_correct:
  assumes "parse_ok env" "argmax_ok env" "malloc_ok env" "args_bytes env = Some (flat_args args)"
    "\<forall>a\<in>set args. nul \<notin> set a"
  shows "\<exists>r s'. psutil_proc_cmdline env (py_start os) = Inr (r, s') \<and> alive_events (events s') \<and>
    (r = Value args \<and> (\<forall>i. balance (events s') i = (if i = 0 then 1 else 0)) \<or>
     r = Raised \<and> (\<forall>i. balance (events s') i = 0)) \<and> (os = [] \<longrightarrow> r = Value args)"
proof -
  obtain x s1 where n: "py_new (py_start os) = (x, s1)" by fastforce
  show ?thesis
  proof (cases x)
    case None
    then have "os \<noteq> []" using n py_new_start_success by auto
    then show ?thesis using None n py_new_start [OF n] by (simp add: psutil_proc_cmdline_def)
  next
    case (Some l)
    then have l: "l = 0" "events s1 = [New 0]" "alive_events (events s1)"
      using py_new_start [OF n] by auto
    obtain r s2 where b: "build_list args 0 s1 = (r, s2)" by fastforce
    have "balance (events s1) 0 = 1" using l by simp
    note refs = build_list_refs [OF b l(3) this]
    have loop: "cmdline_loop (flat_args args @ args_junk env) (length (flat_args args)) 0 s1 = Inr (append_items args s1)"
      using cmdline_loop_args [OF assms(5), of "[]" "args_junk env" s1] by simp
    have "psutil_proc_cmdline env (py_start os) = Inr (case r of None \<Rightarrow> Raised | Some xs \<Rightarrow> Value xs, s2)"
      using n Some l(1) assms b loop
      by (auto simp: psutil_proc_cmdline_def build_list_def split: prod.splits option.splits)
    moreover have "os = [] \<longrightarrow> r \<noteq> None"
      using append_items_success [of s1 args] b n py_new_start_success
      by (auto simp: build_list_def split: prod.splits option.splits)
    moreover have "balance (events s2) i = (if r \<noteq> None \<and> i = 0 then 1 else 0)" for i
      using refs l(2) by (cases "i = 0") auto
    ultimately show ?thesis
      using refs by (cases r) auto
  qed
qed

lemma proc_cmdline_correct_witness:
  "\<exists>s'. psutil_proc_cmdline
     \<lparr>parse_ok = True, argmax_ok = True, malloc_ok = True,
      args_bytes = Some (''ls'' @ [nul] @ ''-l'' @ [nul]), args_junk = ''junk''\<rparr> (py_start []) =
     Inr (Value [''ls'', ''-l''], s')"
  using proc_cmdline_correct [of "\<lparr>parse_ok = True, argmax_ok = True, malloc_ok = True,
      args_bytes = Some (''ls'' @ [nul] @ ''-l'' @ [nul]), args_junk = ''junk''\<rparr>" "[''ls'', ''-l'']" "[]"]
  by auto

text \<open>Setting the affinity and asking for it: with values that are numbers of CPUs of the mask and a
  kernel that gives back what was set, asking returns each of them once and in ascending order; but of
  every number in that list the function keeps a reference that it never gives back.\<close>

theorem cpu_affinity_roundtrip:
  assumes "cpu_mask ops" "\<forall>v\<in>set vs. v < mask_bits ops"
    "psutil_proc_cpu_affinity_set ops (\<lambda>m k. (0, m)) True (Some (map (\<lambda>v. Some (int v)) vs)) k = Inr (res, m)"
  shows "res = Value () \<and>
    (\<exists>s'. psutil_proc_cpu_affinity_get ops True (0, m) (py_start []) = (Value (sorted_list_of_set (set vs)), s') \<and>
      (\<forall>i. balance (events s') i = (if i \<le> card (set vs) then 1 else 0)))"
proof -
  let ?cpus = "filter (mask_test ops m) [0..<mask_bits ops]"
  obtain m' where "affinity_mask ops (map (\<lambda>v. Some (int v)) vs) (mask_zero ops) = Inr (Value m')"
    "\<forall>j. mask_test ops m' j \<longleftrightarrow> j \<in> set vs \<or> mask_test ops (mask_zero ops) j"
    using cpu_mask.affinity_mask_test [OF assms(1,2)] by blast
  then have m: "res = Value ()" "\<forall>j. mask_test ops m j \<longleftrightarrow> j \<in> set vs"
    using assms(3) cpu_mask.test_zero [OF assms(1)] by (auto simp: psutil_proc_cpu_affinity_set_def)
  have "?cpus = sorted_list_of_set (set vs)"
  proof (rule sorted_distinct_set_unique)
    show "set ?cpus = set (sorted_list_of_set (set vs))" using m(2) assms(2) by auto
  qed (auto simp: sorted_wrt_filter)
  moreover obtain s' where s': "affinity_loop ?cpus \<lparr>next_id = 1, events = [New 0], outcomes = []\<rparr> = ((?cpus, None), s')"
    "\<forall>i. balance (events s') i = balance [New 0] i + (if 1 \<le> i \<and> i < 1 + length ?cpus then 1 else 0)"
    using affinity_loop_balance [of "\<lparr>next_id = 1, events = [New 0], outcomes = []\<rparr>" ?cpus] by auto
  ultimately show ?thesis
    using m(1) py_new_start_success
    by (auto simp: psutil_proc_cpu_affinity_get_def)
qed

lemma cpu_affinity_roundtrip_witness:
  "\<exists>s'. psutil_proc_cpu_affinity_get mask256 True (0, 0x0a) (py_start []) = (Value [1, 3], s') \<and>
     balance (events s') 1 = 1"
proof -
  have "psutil_proc_cpu_affinity_set mask256 (\<lambda>m k. (0, m)) True (Some (map (\<lambda>v. Some (int v)) [3, 1, 3])) 0 =
      Inr (Value (), 0x0a)" by code_simp
  from cpu_affinity_roundtrip [OF mask256.cpu_mask_axioms _ this] have
    "\<exists>s'. psutil_proc_cpu_affinity_get mask256 True (0, 0x0a) (py_start []) = (Value (sorted_list_of_set (set [3, 1, 3])), s') \<and>
      (\<forall>i. balance (events s') i = (if i \<le> card (set [3, 1, 3 :: nat]) then 1 else 0))"
    by (simp add: mask256_def)
  moreover have "sorted_list_of_set (set [3, 1, 3 :: nat]) = [1, 3]" "card (set [3, 1, 3 :: nat]) = 2"
    by (simp_all add: insert_commute)
  ultimately show ?thesis by auto
qed

end
