(* ===== verification/Psutil_Socks.thy ===== *)
theory Psutil_Socks
  imports Psutil_Refs
begin

text \<open>
  The connections of the system, \<^verbatim>\<open>py-psutil/dragonfly/patch-psutil_arch_dragonfly_sys_socks.c\<close>: walking
  over the kernel's lists of protocol control blocks, finding the file that belongs to a socket, and
  building a Python list.

  A list of the kernel is a buffer of records that each begin with their length; \<open>entry off\<close> is the record
  at an offset of the buffer, \<open>len\<close> the size of the buffer, and lengths are taken not to wrap around.
  The socket's type and the status of an internet connection are variables that the code never sets;
  their values are arguments.  The lemmas show which entries are added to the list, what is wrong with
  the references, and that the whole function cannot succeed.
\<close>

record kinfo_file =
  f_data :: int
  f_fd :: int
  f_pid :: int

text \<open>\<open>psutil_get_file_from_sock\<close>: the first file with this data.\<close>

fun psutil_get_file_from_sock :: "kinfo_file list \<Rightarrow> int \<Rightarrow> kinfo_file option" where
  "psutil_get_file_from_sock [] sock = None"
| "psutil_get_file_from_sock (xf # xfs) sock =
     (if f_data xf = sock then Some xf else psutil_get_file_from_sock xfs sock)"

text \<open>A control block: its length, its socket, its ports in the order of the host and, unless it is neither
  IPv4 nor IPv6, its family and the text of its two addresses.\<close>

record pcb =
  pcb_len :: nat
  pcb_sock :: int
  lport :: int
  rport :: int
  addrs :: "(int \<times> c_string \<times> c_string) option"

datatype sock_fault = Unset_address

record inet_entry =
  ie_fd :: int
  ie_family :: int
  ie_type :: int
  ie_laddr :: "c_string \<times> int"
  ie_raddr :: "(c_string \<times> int) option"
  ie_status :: int
  ie_pid :: int

text \<open>The variables \<open>py_tuple\<close>, \<open>py_laddr\<close> and \<open>py_raddr\<close>.\<close>

record inet_vars =
  py_tuple :: "py_id option"
  py_laddr :: "py_id option"
  py_raddr :: "py_id option"

text \<open>\<open>Py_BuildValue\<close> with two \<open>N\<close>: the tuple takes over both references.  When it fails the model leaves
  them with the caller.\<close>

definition py_build_NN :: "py_id \<Rightarrow> py_id \<Rightarrow> py \<Rightarrow> py_id option \<times> py" where
  "py_build_NN a b s =
     (case py_new s of
        (None, s) \<Rightarrow> (None, s)
      | (Some t, s) \<Rightarrow> (Some t, py_event (Stolen b) (py_event (Stolen a) s)))"

text \<open>The entry for one control block with its file: whether the loop goes on, the variables and what was
  appended.\<close>

definition inet_tuple ::
  "int \<times> int \<Rightarrow> pcb \<Rightarrow> kinfo_file \<Rightarrow> inet_vars \<Rightarrow> py \<Rightarrow> sock_fault + bool \<times> inet_vars \<times> inet_entry list \<times> py"
where
  "inet_tuple unset p xf v s =
     (case addrs p of
        None \<Rightarrow> Inl Unset_address
      | Some (family, lip, rip) \<Rightarrow>
          (case py_new s of (la, s) \<Rightarrow>
             let v = v\<lparr>py_laddr := la\<rparr> in
             case la of
               None \<Rightarrow> Inr (False, v, [], s)
             | Some a \<Rightarrow>
                 (case py_new s of (ra, s) \<Rightarrow>
                    let v = v\<lparr>py_raddr := ra\<rparr> in
                    case ra of
                      None \<Rightarrow> Inr (False, v, [], s)
                    | Some b \<Rightarrow>
                        (case py_build_NN a b s of (tu, s) \<Rightarrow>
                           let v = v\<lparr>py_tuple := tu\<rparr> in
                           case tu of
                             None \<Rightarrow> Inr (False, v, [], s)
                           | Some t \<Rightarrow>
                               (case py_append t s of
                                  (False, s) \<Rightarrow> Inr (False, v, [], s)
                                | (True, s) \<Rightarrow>
                                    Inr (True, v\<lparr>py_tuple := None\<rparr>,
                                      [\<lparr>ie_fd = f_fd xf, ie_family = family, ie_type = fst unset,
                                        ie_laddr = (lip, lport p),
                                        ie_raddr = (if rport p \<noteq> 0 then Some (rip, rport p) else None),
                                        ie_status = snd unset, ie_pid = f_pid xf\<rparr>],
                                      py_decref t s))))))"

text \<open>The loop over the buffer; \<open>sz\<close> is the size of the structure, 8 that of the length.\<close>

function inet_loop ::
  "int \<times> int \<Rightarrow> nat \<Rightarrow> kinfo_file list \<Rightarrow> (nat \<Rightarrow> pcb) \<Rightarrow> nat \<Rightarrow> nat \<Rightarrow> inet_vars \<Rightarrow> py \<Rightarrow>
   sock_fault + inet_vars \<times> inet_entry list \<times> py"
where
  "inet_loop unset sz files entry len off v s =
     (if off + 8 < len \<and> off + pcb_len (entry off) \<le> len then
        (let p = entry off in
         if pcb_len p \<noteq> sz \<or> sz = 0 then Inr (v, [], s)
         else
           (case psutil_get_file_from_sock files (pcb_sock p) of
              None \<Rightarrow> inet_loop unset sz files entry len (off + pcb_len p) v s
            | Some xf \<Rightarrow>
                (case inet_tuple unset p xf v s of
                   Inl e \<Rightarrow> Inl e
                 | Inr (go, v, es, s) \<Rightarrow>
                     if go then
                       (case inet_loop unset sz files entry len (off + pcb_len p) v s of
                          Inl e \<Rightarrow> Inl e
                        | Inr (v, es', s) \<Rightarrow> Inr (v, es @ es', s))
                     else Inr (v, es, s))))
      else Inr (v, [], s))"
  by pat_completeness auto
termination
  by (relation "measure (\<lambda>(unset, sz, files, entry, len, off, v, s). len - off)") auto

declare inet_loop.simps [simp del]

text \<open>What the calls for one of the kernel's lists return.\<close>

record list_env =
  size_ok :: bool
  buf_ok :: bool
  list_len :: "nat option"

text \<open>\<open>psutil_gather_inet\<close>: its value, the entries and the references.  All ways out end at the label
  \<open>error\<close>, whose value is 0.\<close>

definition psutil_gather_inet ::
  "int \<times> int \<Rightarrow> nat \<Rightarrow> kinfo_file list \<Rightarrow> list_env \<Rightarrow> (nat \<Rightarrow> pcb) \<Rightarrow> py \<Rightarrow>
   sock_fault + int \<times> inet_entry list \<times> py"
where
  "psutil_gather_inet unset sz files env entry s =
     (if \<not> size_ok env \<or> \<not> buf_ok env then Inr (0, [], s)
      else
        (case list_len env of
           None \<Rightarrow> Inr (0, [], s)
         | Some len \<Rightarrow>
             (case inet_loop unset sz files entry len 0 \<lparr>py_tuple = None, py_laddr = None, py_raddr = None\<rparr> s of
                Inl e \<Rightarrow> Inl e
              | Inr (v, es, s) \<Rightarrow>
                  Inr (0, es, py_xdecref (py_raddr v) (py_xdecref (py_laddr v) (py_xdecref (py_tuple v) s))))))"

section \<open>Local sockets\<close>

record unix_pcb =
  xu_len :: nat
  xu_sock :: int
  xu_path :: c_string

record unix_entry =
  ue_fd :: int
  ue_proto :: int
  ue_path :: c_string
  ue_pid :: int

text \<open>One entry: the path, the tuple, which takes a reference of its own to the path, and the list.  The
  variables keep the objects whose references were given back.\<close>

definition unix_tuple ::
  "int \<Rightarrow> unix_pcb \<Rightarrow> kinfo_file \<Rightarrow> py_id option \<times> py_id option \<Rightarrow> py \<Rightarrow>
   bool \<times> (py_id option \<times> py_id option) \<times> unix_entry list \<times> py"
where
  "unix_tuple proto p xf v s =
     (case py_new s of (lp, s) \<Rightarrow>
        case lp of
          None \<Rightarrow> (False, (fst v, None), [], s)
        | Some i \<Rightarrow>
            (case py_new s of (tu, s) \<Rightarrow>
               case tu of
                 None \<Rightarrow> (False, (None, lp), [], s)
               | Some t \<Rightarrow>
                   (case py_append t s of
                      (False, s) \<Rightarrow> (False, (tu, lp), [], s)
                    | (True, s) \<Rightarrow>
                        (True, (tu, lp),
                         [\<lparr>ue_fd = f_fd xf, ue_proto = proto, ue_path = xu_path p, ue_pid = f_pid xf\<rparr>],
                         py_decref t (py_decref i s)))))"

function unix_loop ::
  "int \<Rightarrow> nat \<Rightarrow> kinfo_file list \<Rightarrow> (nat \<Rightarrow> unix_pcb) \<Rightarrow> nat \<Rightarrow> nat \<Rightarrow> py_id option \<times> py_id option \<Rightarrow> py \<Rightarrow>
   bool \<times> (py_id option \<times> py_id option) \<times> unix_entry list \<times> py"
where
  "unix_loop proto sz files entry len off v s =
     (if off + 8 < len \<and> off + xu_len (entry off) \<le> len then
        (let p = entry off in
         if xu_len p \<noteq> sz \<or> sz = 0 then (False, v, [], s)
         else
           (case psutil_get_file_from_sock files (xu_sock p) of
              None \<Rightarrow> unix_loop proto sz files entry len (off + xu_len p) v s
            | Some xf \<Rightarrow>
                (case unix_tuple proto p xf v s of
                   (go, v, es, s) \<Rightarrow>
                     if go then
                       (case unix_loop proto sz files entry len (off + xu_len p) v s of
                          (ok, v, es', s) \<Rightarrow> (ok, v, es @ es', s))
                     else (False, v, es, s))))
      else (True, v, [], s))"
  by pat_completeness auto
termination
  by (relation "measure (\<lambda>(proto, sz, files, entry, len, off, v, s). len - off)") auto

declare unix_loop.simps [simp del]

definition psutil_gather_unix ::
  "int \<Rightarrow> nat \<Rightarrow> kinfo_file list \<Rightarrow> list_env \<Rightarrow> (nat \<Rightarrow> unix_pcb) \<Rightarrow> py \<Rightarrow> int \<times> unix_entry list \<times> py"
where
  "psutil_gather_unix proto sz files env entry s =
     (if \<not> size_ok env \<or> \<not> buf_ok env then (0, [], s)
      else
        (case list_len env of
           None \<Rightarrow> (0, [], s)
         | Some len \<Rightarrow>
             (case unix_loop proto sz files entry len 0 (None, None) s of
                (True, v, es, s) \<Rightarrow> (1, es, s)
              | (False, v, es, s) \<Rightarrow> (0, es, py_xdecref (snd v) (py_xdecref (fst v) s)))))"

section \<open>All connections\<close>

text \<open>What the kernel has: its files (\<open>None\<close> when they cannot be read) and its four lists.\<close>

record sock_env =
  xfiles :: "kinfo_file list option"
  tcp_env :: list_env
  tcp_entry :: "nat \<Rightarrow> pcb"
  udp_env :: list_env
  udp_entry :: "nat \<Rightarrow> pcb"
  stream_env :: list_env
  stream_entry :: "nat \<Rightarrow> unix_pcb"
  dgram_env :: list_env
  dgram_entry :: "nat \<Rightarrow> unix_pcb"

text \<open>\<open>psutil_net_connections\<close>: the list that it returns, \<open>None\<close> for \<open>NULL\<close>.\<close>

definition psutil_net_connections ::
  "int \<times> int \<Rightarrow> nat \<times> nat \<times> nat \<Rightarrow> sock_env \<Rightarrow> py \<Rightarrow>
   sock_fault + (inet_entry list \<times> unix_entry list) option \<times> py"
where
  "psutil_net_connections unset sizes env s =
     (case sizes of (tcp_sz, udp_sz, unix_sz) \<Rightarrow>
      case py_new s of
        (None, s) \<Rightarrow> Inr (None, s)
      | (Some l, s) \<Rightarrow>
          (case xfiles env of
             None \<Rightarrow> Inr (None, py_decref l s)
           | Some files \<Rightarrow>
               (case psutil_gather_inet unset tcp_sz files (tcp_env env) (tcp_entry env) s of
                  Inl e \<Rightarrow> Inl e
                | Inr (r1, es1, s) \<Rightarrow>
                    if r1 = 0 then Inr (None, py_decref l s)
                    else
                      (case psutil_gather_inet unset udp_sz files (udp_env env) (udp_entry env) s of
                         Inl e \<Rightarrow> Inl e
                       | Inr (r2, es2, s) \<Rightarrow>
                           if r2 = 0 then Inr (None, py_decref l s)
                           else
                             (case psutil_gather_unix 1 unix_sz files (stream_env env) (stream_entry env) s of
                                (r3, es3, s) \<Rightarrow>
                                  if r3 = 0 then Inr (None, py_decref l s)
                                  else
                                    (case psutil_gather_unix 2 unix_sz files (dgram_env env) (dgram_entry env) s of
                                       (r4, es4, s) \<Rightarrow>
                                         if r4 = 0 then Inr (None, py_decref l s)
                                         else Inr (Some (es1 @ es2, es3 @ es4), s)))))))"

section \<open>The records of a list\<close>

text \<open>The records that a walk meets before the buffer ends or a length is wrong, and whether none is.\<close>

function records :: "(nat \<Rightarrow> nat) \<Rightarrow> nat \<Rightarrow> nat \<Rightarrow> nat \<Rightarrow> nat list \<times> bool" where
  "records rlen sz len off =
     (if off + 8 < len \<and> off + rlen off \<le> len then
        (if rlen off \<noteq> sz \<or> sz = 0 then ([], False)
         else (case records rlen sz len (off + rlen off) of (ps, ok) \<Rightarrow> (off # ps, ok)))
      else ([], True))"
  by pat_completeness auto
termination
  by (relation "measure (\<lambda>(rlen, sz, len, off). len - off)") auto

declare records.simps [simp del]

text \<open>Those whose socket belongs to a file, with the first such file.\<close>

definition known :: "kinfo_file list \<Rightarrow> (nat \<Rightarrow> int) \<Rightarrow> nat list \<Rightarrow> (nat \<times> kinfo_file) list" where
  "known files sock rs =
     concat (map (\<lambda>r. case filter (\<lambda>xf. f_data xf = sock r) files of [] \<Rightarrow> [] | xf # _ \<Rightarrow> [(r, xf)]) rs)"

lemma get_file_iff:
  "psutil_get_file_from_sock files sock =
     (case filter (\<lambda>xf. f_data xf = sock) files of [] \<Rightarrow> None | xf # _ \<Rightarrow> Some xf)"
  by (induction files) auto

lemma known_simps [simp]:
  "known files sock [] = []"
  "known files sock (r # rs) =
     (case psutil_get_file_from_sock files (sock r) of
        None \<Rightarrow> known files sock rs
      | Some xf \<Rightarrow> (r, xf) # known files sock rs)"
  by (simp_all add: known_def get_file_iff split: list.split)

definition inet_entry_of :: "int \<times> int \<Rightarrow> pcb \<Rightarrow> kinfo_file \<Rightarrow> inet_entry" where
  "inet_entry_of unset p xf =
     (case the (addrs p) of (family, lip, rip) \<Rightarrow>
        \<lparr>ie_fd = f_fd xf, ie_family = family, ie_type = fst unset, ie_laddr = (lip, lport p),
         ie_raddr = (if rport p \<noteq> 0 then Some (rip, rport p) else None), ie_status = snd unset, ie_pid = f_pid xf\<rparr>)"

text \<open>With memory enough the calls of Python's API have these effects.\<close>

lemma py_new_ok: "outcomes s = [] \<Longrightarrow>
   py_new s = (Some (next_id s), \<lparr>next_id = Suc (next_id s), events = events s @ [New (next_id s)], outcomes = []\<rparr>)"
  by (cases s) (simp add: py_new_def py_try_def)

lemma py_append_ok: "outcomes s = [] \<Longrightarrow>
   py_append i s = (True, \<lparr>next_id = next_id s, events = events s @ [Stored i], outcomes = []\<rparr>)"
  by (cases s) (simp add: py_append_def py_try_def py_event_def)

text \<open>What one entry of the list does with the references: objects \<open>n\<close> and \<open>n + 1\<close> are its two addresses,
  \<open>n + 2\<close> the tuple, which takes over both and is stored in the list; and the events of \<open>m\<close> entries.\<close>

definition entry_events :: "py_id \<Rightarrow> ref_event list" where
  "entry_events n = [New n, New (n + 1), New (n + 2), Stolen n, Stolen (n + 1), Stored (n + 2), Decref (n + 2)]"

definition list_events :: "py_id \<Rightarrow> nat \<Rightarrow> ref_event list" where
  "list_events n m = concat (map (\<lambda>k. entry_events (n + 3 * k)) [0..<m])"

lemma list_events_simps [simp]:
  "list_events n 0 = []" "list_events n (Suc m) = entry_events n @ list_events (n + 3) m"
proof -
  have "[0..<Suc m] = 0 # map Suc [0..<m]" by (simp add: map_Suc_upt upt_conv_Cons del: upt_Suc)
  then show "list_events n (Suc m) = entry_events n @ list_events (n + 3) m"
    by (simp add: list_events_def comp_def algebra_simps)
qed (simp add: list_events_def)

lemma list_events_balance [simp]: "balance (list_events n m) i = 0"
  by (induction m arbitrary: n) (simp_all add: entry_events_def)

lemma inet_tuple_ok:
  assumes "outcomes s = []" "addrs p \<noteq> None"
  shows "inet_tuple unset p xf v s =
      Inr (True, \<lparr>py_tuple = None, py_laddr = Some (next_id s), py_raddr = Some (next_id s + 1)\<rparr>,
        [inet_entry_of unset p xf],
        \<lparr>next_id = next_id s + 3, events = events s @ entry_events (next_id s), outcomes = []\<rparr>)"
  using assms
  by (cases v) (auto simp: inet_tuple_def py_new_ok py_build_NN_def py_event_def py_append_ok inet_entry_of_def
      py_decref_def entry_events_def Let_def)

definition last_vars :: "py_id \<Rightarrow> nat \<Rightarrow> inet_vars \<Rightarrow> inet_vars" where
  "last_vars n m v =
     (if m = 0 then v
      else \<lparr>py_tuple = None, py_laddr = Some (n + 3 * (m - 1)), py_raddr = Some (n + 3 * (m - 1) + 1)\<rparr>)"

lemma inet_loop_ok:
  "outcomes s = [] \<Longrightarrow> \<forall>off. addrs (entry off) \<noteq> None \<Longrightarrow>
   found = known files (\<lambda>r. pcb_sock (entry r)) (fst (records (\<lambda>r. pcb_len (entry r)) sz len off)) \<Longrightarrow>
   inet_loop unset sz files entry len off v s =
     Inr (last_vars (next_id s) (length found) v, map (\<lambda>(r, xf). inet_entry_of unset (entry r) xf) found,
       \<lparr>next_id = next_id s + 3 * length found, events = events s @ list_events (next_id s) (length found),
        outcomes = []\<rparr>)"
proof (induction unset sz files entry len off v s arbitrary: found rule: inet_loop.induct)
  case (1 unset sz files entry len off v s)
  let ?p = "entry off"
  let ?kn = "\<lambda>off. known files (\<lambda>r. pcb_sock (entry r)) (fst (records (\<lambda>r. pcb_len (entry r)) sz len off))"
  show ?case
  proof (cases "off + 8 < len \<and> off + pcb_len ?p \<le> len \<and> pcb_len ?p = sz \<and> sz \<noteq> 0")
    case False
    then have "found = []" using 1(5) by (auto simp: records.simps [of _ sz len off])
    then show ?thesis
      using False 1(3)
      by (cases s) (auto simp: inet_loop.simps [of unset sz files entry len off] last_vars_def)
  next
    case True
    then have rec: "fst (records (\<lambda>r. pcb_len (entry r)) sz len off) =
        off # fst (records (\<lambda>r. pcb_len (entry r)) sz len (off + pcb_len ?p))"
      by (subst records.simps) (simp split: prod.splits)
    show ?thesis
    proof (cases "psutil_get_file_from_sock files (pcb_sock ?p)")
      case None
      have "inet_loop unset sz files entry len off v s = inet_loop unset sz files entry len (off + pcb_len ?p) v s"
        using True None by (subst inet_loop.simps) (simp add: Let_def)
      then show ?thesis using 1(1) [of ?p] True None 1(3-5) rec by simp
    next
      case (Some xf)
      let ?v = "\<lparr>py_tuple = None, py_laddr = Some (next_id s), py_raddr = Some (next_id s + 1)\<rparr>"
      let ?s = "\<lparr>next_id = next_id s + 3, events = events s @ entry_events (next_id s), outcomes = []\<rparr>"
      note t = inet_tuple_ok [OF 1(3), of ?p unset xf v] 
      have f: "found = (off, xf) # ?kn (off + pcb_len ?p)" using rec Some 1(5) by simp
      have "inet_loop unset sz files entry len off v s =
          (case inet_loop unset sz files entry len (off + pcb_len ?p) ?v ?s of
             Inl e \<Rightarrow> Inl e
           | Inr (v, es', s) \<Rightarrow> Inr (v, [inet_entry_of unset ?p xf] @ es', s))"
        using True Some t 1(4) by (subst inet_loop.simps) (simp add: Let_def)
      also have "inet_loop unset sz files entry len (off + pcb_len ?p) ?v ?s =
          Inr (last_vars (next_id s + 3) (length (?kn (off + pcb_len ?p))) ?v,
            map (\<lambda>(r, xf). inet_entry_of unset (entry r) xf) (?kn (off + pcb_len ?p)),
            \<lparr>next_id = next_id s + 3 + 3 * length (?kn (off + pcb_len ?p)),
             events = events s @ entry_events (next_id s) @
               list_events (next_id s + 3) (length (?kn (off + pcb_len ?p))), outcomes = []\<rparr>)"
        using 1(2) [of ?p xf] True Some t 1(4) by simp
      finally show ?thesis
        unfolding f by (auto simp: last_vars_def gr0_conv_Suc algebra_simps split: nat_diff_split)
    qed
  qed
qed

definition unix_entry_of :: "int \<Rightarrow> unix_pcb \<Rightarrow> kinfo_file \<Rightarrow> unix_entry" where
  "unix_entry_of proto p xf = \<lparr>ue_fd = f_fd xf, ue_proto = proto, ue_path = xu_path p, ue_pid = f_pid xf\<rparr>"

lemma unix_tuple_ok:
  assumes "outcomes s = []"
  shows "\<exists>s'. unix_tuple proto p xf v s =
      (True, (Some (Suc (next_id s)), Some (next_id s)), [unix_entry_of proto p xf], s') \<and>
    outcomes s' = [] \<and> next_id s < next_id s' \<and> (\<forall>i. balance (events s') i = balance (events s) i)"
  using assms by (auto simp: unix_tuple_def py_new_ok py_append_ok unix_entry_of_def py_decref_def py_event_def)

lemma unix_loop_ok:
  "outcomes s = [] \<Longrightarrow>
   \<exists>v' s'. unix_loop proto sz files entry len off v s =
       (snd (records (\<lambda>r. xu_len (entry r)) sz len off), v', map (\<lambda>(r, xf). unix_entry_of proto (entry r) xf)
         (known files (\<lambda>r. xu_sock (entry r)) (fst (records (\<lambda>r. xu_len (entry r)) sz len off))), s') \<and>
     (\<forall>i. balance (events s') i = balance (events s) i) \<and>
     (if known files (\<lambda>r. xu_sock (entry r)) (fst (records (\<lambda>r. xu_len (entry r)) sz len off)) = [] then v' = v
      else \<exists>a \<ge> next_id s. v' = (Some (Suc a), Some a))"
proof (induction proto sz files entry len off v s rule: unix_loop.induct)
  case (1 proto sz files entry len off v s)
  let ?p = "entry off"
  let ?rec = "\<lambda>off. records (\<lambda>r. xu_len (entry r)) sz len off"
  let ?kn = "\<lambda>off. known files (\<lambda>r. xu_sock (entry r)) (fst (?rec off))"
  show ?case
  proof (cases "off + 8 < len \<and> off + xu_len ?p \<le> len \<and> xu_len ?p = sz \<and> sz \<noteq> 0")
    case False
    then show ?thesis
      by (cases v) (auto simp: unix_loop.simps [of proto sz files entry len off] records.simps [of _ sz len off])
  next
    case True
    then have rec: "fst (?rec off) = off # fst (?rec (off + xu_len ?p))" "snd (?rec off) = snd (?rec (off + xu_len ?p))"
      by (simp_all add: records.simps [of _ sz len off] split: prod.splits)
    show ?thesis
    proof (cases "psutil_get_file_from_sock files (xu_sock ?p)")
      case None
      have "unix_loop proto sz files entry len off v s = unix_loop proto sz files entry len (off + xu_len ?p) v s"
        using True None by (subst unix_loop.simps) (simp add: Let_def)
      then show ?thesis using 1(1) [of ?p] True None 1(3) rec by simp
    next
      case (Some xf)
      let ?v = "(Some (Suc (next_id s)), Some (next_id s))"
      obtain s1 where t: "unix_tuple proto ?p xf v s = (True, ?v, [unix_entry_of proto ?p xf], s1)"
        "outcomes s1 = []" "next_id s < next_id s1" "\<forall>i. balance (events s1) i = balance (events s) i"
        using unix_tuple_ok 1(3) by blast
      obtain v' s' where ih: "unix_loop proto sz files entry len (off + xu_len ?p) ?v s1 =
          (snd (?rec (off + xu_len ?p)), v', map (\<lambda>(r, xf). unix_entry_of proto (entry r) xf) (?kn (off + xu_len ?p)), s')"
        "\<forall>i. balance (events s') i = balance (events s1) i"
        "if ?kn (off + xu_len ?p) = [] then v' = ?v else \<exists>a \<ge> next_id s1. v' = (Some (Suc a), Some a)"
        using 1(2) [of ?p xf] True Some t by fastforce
      have "unix_loop proto sz files entry len off v s =
          (snd (?rec off), v', unix_entry_of proto ?p xf # map (\<lambda>(r, xf). unix_entry_of proto (entry r) xf) (?kn (off + xu_len ?p)), s')"
        using True Some t(1) ih(1) rec(2) by (subst unix_loop.simps) (simp add: Let_def)
      moreover have "?kn off = (off, xf) # ?kn (off + xu_len ?p)" using rec Some by simp
      moreover have "\<exists>a \<ge> next_id s. v' = (Some (Suc a), Some a)"
        using ih(3) t(3) by (auto split: if_splits intro: le_trans less_imp_le)
      ultimately show ?thesis using ih(2) t(4) by simp
    qed
  qed
qed

section \<open>Properties\<close>

text \<open>C15: the internet connections: with memory enough, system calls that succeed and records that are all
  IPv4 or IPv6, the entries added to the list are those of the records whose socket is that of a file, each
  with the first such file, in the order of the buffer, up to a record of the wrong size; the value is 0,
  the failure, in any case.  The references are, for each entry in turn, those of two addresses that its
  tuple takes over and of the tuple that the list keeps; and when there was an entry, the two addresses
  of the last one are given back once more in the end, so that the function then has given back one more
  reference to each of them than it owned, and no other balance has changed.\<close>

theorem gather_inet_outcome:
  assumes "size_ok env" "buf_ok env" "list_len env = Some len" "outcomes s = []"
    "\<forall>off. addrs (entry off) \<noteq> None"
    "found = known files (\<lambda>r. pcb_sock (entry r)) (fst (records (\<lambda>r. pcb_len (entry r)) sz len 0))"
    "a = next_id s + 3 * (length found - 1)"
  shows "\<exists>s'. psutil_gather_inet unset sz files env entry s =
      Inr (0, map (\<lambda>(r, xf). inet_entry_of unset (entry r) xf) found, s') \<and>
    events s' = events s @ concat (map (\<lambda>k. entry_events (next_id s + 3 * k)) [0..<length found]) @
      (if found = [] then [] else [Decref a, Decref (a + 1)]) \<and>
    (\<forall>i. balance (events s') i =
      balance (events s) i - (if found \<noteq> [] \<and> i \<in> {a, a + 1} then 1 else 0))"
  using assms(1-3) inet_loop_ok [OF assms(4,5,6)] list_events_balance [of "next_id s" "length found"]
  by (auto simp: psutil_gather_inet_def last_vars_def assms(7) simp flip: list_events_def)

definition inet_sample :: "nat \<Rightarrow> pcb" where
  "inet_sample off = \<lparr>pcb_len = 16, pcb_sock = (if off = 16 then 77 else 5), lport = 22, rport = 0,
     addrs = Some (2, ''10.0.0.1'', ''0.0.0.0'')\<rparr>"

definition files_sample :: "kinfo_file list" where
  "files_sample = [\<lparr>f_data = 9, f_fd = 1, f_pid = 1\<rparr>, \<lparr>f_data = 77, f_fd = 3, f_pid = 840\<rparr>]"

definition list_sample :: list_env where
  "list_sample = \<lparr>size_ok = True, buf_ok = True, list_len = Some 48\<rparr>"

lemma gather_inet_outcome_witness:
  "\<exists>s'. psutil_gather_inet (0, 0) 16 files_sample list_sample inet_sample (py_start []) =
     Inr (0, [\<lparr>ie_fd = 3, ie_family = 2, ie_type = 0, ie_laddr = (''10.0.0.1'', 22), ie_raddr = None,
       ie_status = 0, ie_pid = 840\<rparr>], s') \<and>
     events s' = [New 0, New 1, New 2, Stolen 0, Stolen 1, Stored 2, Decref 2, Decref 0, Decref 1] \<and>
     balance (events s') 0 = - 1"
proof -
  let ?kn = "known files_sample (\<lambda>r. pcb_sock (inet_sample r)) (fst (records (\<lambda>r. pcb_len (inet_sample r)) 16 48 0))"
  have kn: "?kn = [(16, \<lparr>f_data = 77, f_fd = 3, f_pid = 840\<rparr>)]"
    by code_simp
  have "\<forall>off. addrs (inet_sample off) \<noteq> None" by (simp add: inet_sample_def)
  note g = gather_inet_outcome [OF _ _ _ _ this refl refl, where env = list_sample and len = 48 and
      s = "py_start []" and unset = "(0, 0)" and files = files_sample and sz = 16, unfolded kn]
  have l: "size_ok list_sample" "buf_ok list_sample" "list_len list_sample = Some 48" "outcomes (py_start []) = []"
    by (simp_all add: list_sample_def py_start_def)
  from g [OF l] obtain s' where s': "psutil_gather_inet (0, 0) 16 files_sample list_sample inet_sample (py_start []) =
      Inr (0, map (\<lambda>(r, xf). inet_entry_of (0, 0) (inet_sample r) xf) ?kn, s')"
    "events s' = entry_events 0 @ [Decref 0, Decref 1]" "balance (events s') 0 = - 1"
    unfolding kn by (elim exE conjE) (drule spec [of _ 0], simp)
  moreover have "map (\<lambda>(r, xf). inet_entry_of (0, 0) (inet_sample r) xf) ?kn =
      [\<lparr>ie_fd = 3, ie_family = 2, ie_type = 0, ie_laddr = (''10.0.0.1'', 22), ie_raddr = None,
        ie_status = 0, ie_pid = 840\<rparr>]"
    unfolding kn by (simp add: inet_entry_of_def inet_sample_def)
  ultimately show ?thesis by (auto simp: entry_events_def numeral_2_eq_2)
qed

text \<open>The local sockets: with memory enough and system calls that succeed, the entries added are those
  of the records whose socket belongs to a file, in order, up to a record of the wrong size, the value is
  1 exactly when there is none of these, and all references that were taken are given back, except that
  with a record of the wrong size behind an entry the path and the tuple of the last entry are released
  once more.\<close>

theorem gather_unix_outcome:
  assumes "size_ok env" "buf_ok env" "list_len env = Some len" "outcomes s = []"
    "\<forall>i \<ge> next_id s. balance (events s) i = 0"
    "records (\<lambda>r. xu_len (entry r)) sz len 0 = (rs, complete)" "found = known files (\<lambda>r. xu_sock (entry r)) rs"
  shows "\<exists>s'. psutil_gather_unix proto sz files env entry s =
      (if complete then 1 else 0, map (\<lambda>(r, xf). unix_entry_of proto (entry r) xf) found, s') \<and>
    (if complete \<or> found = [] then \<forall>i. balance (events s') i = balance (events s) i
     else \<exists>a. balance (events s') a = - 1 \<and> balance (events s') (Suc a) = - 1)"
proof -
  obtain v' s' where l: "unix_loop proto sz files entry len 0 (None, None) s =
      (complete, v', map (\<lambda>(r, xf). unix_entry_of proto (entry r) xf) found, s')"
    "\<forall>i. balance (events s') i = balance (events s) i"
    "if found = [] then v' = (None, None) else \<exists>a \<ge> next_id s. v' = (Some (Suc a), Some a)"
    using unix_loop_ok [OF assms(4), of proto sz files entry len 0 "(None, None)"] assms(6,7) by auto
  show ?thesis
  proof (cases "complete \<or> found = []")
    case True
    then show ?thesis using l assms(1-3) by (cases complete) (auto simp: psutil_gather_unix_def)
  next
    case False
    then obtain a where "next_id s \<le> a" "v' = (Some (Suc a), Some a)" using l(3) by auto
    then show ?thesis
      using l(1,2) assms(1-3,5) False by (auto simp: psutil_gather_unix_def intro!: exI [of _ a])
  qed
qed

definition unix_sample :: "nat \<Rightarrow> unix_pcb" where
  "unix_sample off = \<lparr>xu_len = (if off = 32 then 8 else 16), xu_sock = 77, xu_path = ''/tmp/s''\<rparr>"

lemma gather_unix_outcome_witness:
  "\<exists>s' a. psutil_gather_unix 1 16 files_sample list_sample unix_sample (py_start []) =
     (0, replicate 2 \<lparr>ue_fd = 3, ue_proto = 1, ue_path = ''/tmp/s'', ue_pid = 840\<rparr>, s') \<and>
     balance (events s') a = - 1"
proof -
  have rs: "records (\<lambda>r. xu_len (unix_sample r)) 16 48 0 = ([0, 16], False)" by code_simp
  have kn: "map (\<lambda>(r, xf). unix_entry_of 1 (unix_sample r) xf) (known files_sample (\<lambda>r. xu_sock (unix_sample r)) [0, 16]) =
      replicate 2 \<lparr>ue_fd = 3, ue_proto = 1, ue_path = ''/tmp/s'', ue_pid = 840\<rparr>"
    "known files_sample (\<lambda>r. xu_sock (unix_sample r)) [0, 16] \<noteq> []"
    by (simp_all add: files_sample_def unix_sample_def unix_entry_of_def numeral_2_eq_2)
  show ?thesis
    using gather_unix_outcome [OF _ _ _ _ _ rs refl, where env = list_sample and s = "py_start []" and
        files = files_sample and proto = 1] kn
    by (auto simp: list_sample_def py_start_def)
qed

text \<open>The list of connections is never returned: whatever the kernel has and whichever calls succeed,
  the function returns \<open>NULL\<close>, unless it reads the text of an address that was never set, since
  gathering the TCP connections reports failure even when it worked; the other lists are never looked at.\<close>

theorem net_connections_fails:
  "(\<exists>s'. psutil_net_connections unset sizes env s = Inr (None, s')) \<or>
   psutil_net_connections unset sizes env s = Inl Unset_address"
proof -
  have e: "e = Unset_address" for e by (cases e) simp
  show ?thesis
    unfolding psutil_net_connections_def psutil_gather_inet_def
    by (auto split: prod.splits option.splits sum.splits if_splits simp: e)
qed

end
