(* ===== verification/Psutil_Files.thy ===== *)
theory Psutil_Files
  imports Psutil_Proc
begin

text \<open>
  The open files of a process: \<^verbatim>\<open>py-psutil/dragonfly/patch-psutil_arch_bsd_proc.c\<close>, the two functions that
  the patch adds for DragonFly, over the references of \<open>Psutil_Refs\<close>.

  They walk over the directory \<^verbatim>\<open>/proc/<pid>/fd\<close>, which is the list of what \<open>readdir\<close> returns, each entry with
  what \<open>stat\<close> and \<open>readlink\<close> give for it.  The lemmas show which entries are listed, and that every
  reference is given back whichever call of Python's API fails.
\<close>

record fd_entry =
  ent_name :: c_string
  ent_stat :: "bool option"
  ent_link :: "c_string option"

text \<open>\<open>ent_stat\<close> is whether the file is a regular one, \<open>ent_link\<close> what \<open>readlink\<close> leaves in the buffer.  Whether
  an entry is taken: its path and its number, which is cut to an \<open>int\<close>.\<close>

definition proc_fd_dir :: "int \<Rightarrow> c_string" where
  "proc_fd_dir pid = ''/proc/'' @ show_int pid @ ''/fd''"

definition file_of_entry :: "c_string \<Rightarrow> fd_entry \<Rightarrow> (c_string \<times> int) option" where
  "file_of_entry dir e =
     (if ent_name e \<noteq> [] \<and> hd (ent_name e) = CHR ''.'' then None
      else
        (case strtol10 (ent_name e) of (fdnum, endp) \<Rightarrow>
           if endp \<noteq> [] then None
           else if PATH_MAX + 32 \<le> length (dir @ ''/'' @ ent_name e) then None
           else
             (case ent_stat e of
                None \<Rightarrow> None
              | Some regular \<Rightarrow>
                  if \<not> regular then None
                  else (case ent_link e of None \<Rightarrow> None | Some path \<Rightarrow> Some (path, to_int fdnum)))))"

text \<open>The loop: what was appended, and the variables \<open>py_path\<close> and \<open>py_tuple\<close> where a call failed.\<close>

fun files_loop ::
  "c_string \<Rightarrow> fd_entry list \<Rightarrow> py \<Rightarrow> ((c_string \<times> int) list \<times> (py_id option \<times> py_id option) option) \<times> py"
where
  "files_loop dir [] s = (([], None), s)"
| "files_loop dir (e # es) s =
     (case file_of_entry dir e of
        None \<Rightarrow> files_loop dir es s
      | Some f \<Rightarrow>
          (case py_new s of
             (None, s) \<Rightarrow> (([], Some (None, None)), s)
           | (Some p, s) \<Rightarrow>
               (case py_new s of
                  (None, s) \<Rightarrow> (([], Some (Some p, None)), s)
                | (Some t, s) \<Rightarrow>
                    (case py_append t s of
                       (False, s) \<Rightarrow> (([], Some (Some p, Some t)), s)
                     | (True, s) \<Rightarrow>
                         (case files_loop dir es (py_decref t (py_decref p s)) of
                            ((fs, r), s) \<Rightarrow> ((f # fs, r), s))))))"

text \<open>\<open>psutil_proc_open_files\<close>; \<open>dirents\<close> is \<open>None\<close> when the directory cannot be opened.  In that case no
  exception is set.\<close>

definition psutil_proc_open_files ::
  "int option \<Rightarrow> fd_entry list option \<Rightarrow> py \<Rightarrow> (c_string \<times> int) list py_result \<times> py"
where
  "psutil_proc_open_files parsed dirents s =
     (case py_new s of
        (None, s) \<Rightarrow> (Raised, s)
      | (Some l, s) \<Rightarrow>
          (case parsed of
             None \<Rightarrow> (Raised, py_decref l s)
           | Some pid \<Rightarrow>
               if 64 \<le> length (proc_fd_dir pid) then (Raised, py_decref l s)
               else
                 (case dirents of
                    None \<Rightarrow> (Silent, py_decref l s)
                  | Some es \<Rightarrow>
                      (case files_loop (proc_fd_dir pid) es s of
                         ((fs, None), s) \<Rightarrow> (Value fs, s)
                       | ((fs, Some (p, t)), s) \<Rightarrow> (Raised, py_decref l (py_xdecref p (py_xdecref t s)))))))"

text \<open>\<open>psutil_proc_num_fds\<close>: it counts all entries but those that begin with a dot.\<close>

fun count_entries :: "fd_entry list \<Rightarrow> int \<Rightarrow> int" where
  "count_entries [] cnt = cnt"
| "count_entries (e # es) cnt =
     (if ent_name e \<noteq> [] \<and> hd (ent_name e) = CHR ''.'' then count_entries es cnt else count_entries es (cnt + 1))"

definition psutil_proc_num_fds :: "int option \<Rightarrow> fd_entry list option \<Rightarrow> py \<Rightarrow> int py_result \<times> py" where
  "psutil_proc_num_fds parsed dirents s =
     (case parsed of
        None \<Rightarrow> (Raised, s)
      | Some pid \<Rightarrow>
          if 64 \<le> length (proc_fd_dir pid) then (Raised, s)
          else
            (case dirents of
               None \<Rightarrow> (Raised, s)
             | Some es \<Rightarrow>
                 (case py_new s of (None, s) \<Rightarrow> (Raised, s) | (Some _, s) \<Rightarrow> (Value (count_entries es 0), s))))"

section \<open>The loop owns nothing in the end\<close>

text \<open>The list that is wanted, written apart from the code's tests: of the entries whose name does not begin
  with a dot and is a decimal number to its end, with a path that fits into the buffer, the regular files
  with a readable link, each as its link and its number.\<close>

definition is_number :: "c_string \<Rightarrow> bool" where
  "is_number s \<longleftrightarrow> s = [] \<or>
     (\<exists>sg ds. dropWhile isspace s = sg @ ds \<and> sg \<in> {[], ''-'', ''+''} \<and> ds \<noteq> [] \<and> list_all isdigit ds)"

definition open_file :: "c_string \<Rightarrow> fd_entry \<Rightarrow> bool" where
  "open_file dir e \<longleftrightarrow>
     take 1 (ent_name e) \<noteq> ''.'' \<and> is_number (ent_name e) \<and>
     length dir + 1 + length (ent_name e) < 1024 + 32 \<and> ent_stat e = Some True \<and> ent_link e \<noteq> None"

definition listed_files :: "c_string \<Rightarrow> fd_entry list \<Rightarrow> (c_string \<times> int) list" where
  "listed_files dir es =
     map (\<lambda>e. (the (ent_link e), to_int (fst (strtol10 (ent_name e))))) (filter (open_file dir) es)"

lemma file_of_entry_eq:
  "file_of_entry dir e =
     (if open_file dir e then Some (the (ent_link e), to_int (fst (strtol10 (ent_name e)))) else None)"
proof -
  have "take 1 (ent_name e) \<noteq> ''.'' \<longleftrightarrow> \<not> (ent_name e \<noteq> [] \<and> hd (ent_name e) = CHR ''.'')"
    by (cases "ent_name e") auto
  then show ?thesis
    using strtol10_reads_all [of "ent_name e"]
    by (auto simp: file_of_entry_def open_file_def is_number_def PATH_MAX_def split: prod.splits option.splits)
qed

lemma listed_files_simps [simp]:
  "listed_files dir [] = []"
  "listed_files dir (e # es) = (case file_of_entry dir e of None \<Rightarrow> [] | Some f \<Rightarrow> [f]) @ listed_files dir es"
  by (simp_all add: listed_files_def file_of_entry_eq)

text \<open>An entry that is named by a number that an \<open>int\<close> holds.\<close>

lemma listed_number:
  assumes "e \<in> set es" "ent_name e = show_nat n" "n < 2 ^ 31" "ent_stat e = Some True" "ent_link e = Some path"
    "length dir < 64"
  shows "(path, int n) \<in> set (listed_files dir es)"
proof -
  have d: "list_all isdigit (show_nat n)" "show_nat n \<noteq> []" using show_nat_isdigit [of n] by auto
  then obtain c cs where c: "show_nat n = c # cs" "isdigit c" by (cases "show_nat n") auto
  then have "\<not> isspace c" "c \<noteq> CHR ''.''" by (auto simp: isdigit_def isspace_def uchar_def)
  then have "dropWhile isspace (show_nat n) = [] @ show_nat n" "take 1 (show_nat n) \<noteq> ''.''"
    using c by simp_all
  moreover from this d have "is_number (show_nat n)" unfolding is_number_def by blast
  moreover have "length (show_nat n) \<le> 10" using assms(3) by (intro length_show_nat) auto
  ultimately have "open_file dir e" using assms by (simp add: open_file_def)
  moreover have "to_int (fst (strtol10 (ent_name e))) = int n"
    using assms(2,3) by (simp add: strtol10_show_nat to_int_small)
  ultimately show ?thesis using assms(1,5) by (force simp: listed_files_def)
qed

definition held_by :: "(py_id option \<times> py_id option) option \<Rightarrow> py_id \<Rightarrow> int" where
  "held_by r i = (case r of None \<Rightarrow> 0
     | Some (p, t) \<Rightarrow> (if p = Some i then 1 else 0) + (if t = Some i then 1 else 0))"

lemma files_loop_balance:
  "files_loop dir es s = ((fs, r), s') \<Longrightarrow> alive_events (events s) \<Longrightarrow>
   alive_events (events s') \<and> (\<forall>i. balance (events s') i = balance (events s) i + held_by r i) \<and>
   (r = None \<longrightarrow> fs = listed_files dir es)"
proof (induction es arbitrary: s fs)
  case Nil
  then show ?case by (simp add: held_by_def)
next
  case (Cons e es)
  show ?case
  proof (cases "file_of_entry dir e")
    case None
    then show ?thesis using Cons.IH [of s fs] Cons.prems by simp
  next
    case (Some f)
    obtain x s1 where 1: "py_new s = (x, s1)" by fastforce
    note b1 = new_balance [OF 1 Cons.prems(2)]
    show ?thesis
    proof (cases x)
      case None
      then show ?thesis using Cons.prems(1) Some 1 b1 by (auto simp: held_by_def)
    next
      fix p assume x: "x = Some p"
      obtain y s2 where 2: "py_new s1 = (y, s2)" by fastforce
      note b2 = new_balance [OF 2 conjunct1 [OF b1]]
      show ?thesis
      proof (cases y)
        case None
        then show ?thesis using Cons.prems(1) Some 1 2 x b1 b2 by (auto simp: held_by_def)
      next
        fix t assume y: "y = Some t"
        obtain ok s3 where 3: "py_append t s2 = (ok, s3)" by fastforce
        note b3 = append_balance [OF 3 conjunct1 [OF b2]]
        show ?thesis
        proof (cases ok)
          case False
          then show ?thesis using Cons.prems(1) Some 1 2 3 x y b1 b2 b3 by (auto simp: held_by_def)
        next
          case True
          have nn: "0 \<le> balance (events s) i" for i using alive_nonneg [OF Cons.prems(2)] .
          have p: "1 \<le> balance (events s3) p" using b1 b2 b3 x nn [of p] by auto
          note b4 = decref_balance [OF conjunct1 [OF b3] p]
          have "1 \<le> balance (events (py_decref p s3)) t"
            using b1 b2 b3 b4 x y nn [of t] by auto
          note b5 = decref_balance [OF conjunct1 [OF b4] this]
          obtain gs where gs: "files_loop dir es (py_decref t (py_decref p s3)) = ((gs, r), s')" "fs = f # gs"
            using Cons.prems(1) Some 1 2 3 x y True by (auto split: prod.splits)
          show ?thesis
            using Cons.IH [OF gs(1) conjunct1 [OF b5]] gs(2) Some b1 b2 b3 b4 b5 x y
            by auto
        qed
      qed
    qed
  qed
qed

lemma files_loop_success: "outcomes s = [] \<Longrightarrow> \<exists>s'. files_loop dir es s = ((listed_files dir es, None), s')"
proof (induction es arbitrary: s)
  case (Cons e es)
  let ?s1 = "snd (py_new s)" and ?s2 = "snd (py_new (snd (py_new s)))"
  let ?s3 = "py_decref (next_id ?s1) (py_decref (next_id s) (snd (py_append (next_id ?s1) ?s2)))"
  have o: "outcomes ?s3 = []"
    using Cons.prems by (simp add: py_new_def py_append_def py_try_def py_event_def)
  obtain s' where "files_loop dir es s = ((listed_files dir es, None), s')" using Cons by blast
  moreover obtain t' where "files_loop dir es ?s3 = ((listed_files dir es, None), t')" using Cons.IH [OF o] by blast
  ultimately show ?case
    using Cons.prems by (cases "file_of_entry dir e") (simp_all add: py_new_def py_append_def py_try_def py_event_def)
qed simp

text \<open>What the label \<open>error\<close> gives back.\<close>

lemma files_release:
  assumes "alive_events (events s)" "\<And>i. balance (events s) i = (if i = 0 then 1 else 0) + held_by (Some (p, t)) i"
  shows "let s' = py_decref 0 (py_xdecref p (py_xdecref t s)) in
    alive_events (events s') \<and> (\<forall>i. balance (events s') i = 0)"
proof -
  have x: "alive_events (events (py_xdecref t s)) \<and>
      (\<forall>j. balance (events (py_xdecref t s)) j = balance (events s) j - (if t = Some j then 1 else 0))"
    using assms by (intro xdecref_balance) (auto simp: held_by_def)
  have y: "alive_events (events (py_xdecref p (py_xdecref t s))) \<and>
      (\<forall>j. balance (events (py_xdecref p (py_xdecref t s))) j =
        balance (events (py_xdecref t s)) j - (if p = Some j then 1 else 0))"
    using assms x by (intro xdecref_balance) (auto simp: held_by_def)
  show ?thesis
    using decref_balance [of "py_xdecref p (py_xdecref t s)" 0] x y assms(2)
    by (auto simp: held_by_def Let_def simp del: py_xdecref_simps py_decref_simps)
qed

section \<open>Properties\<close>

text \<open>C28: the open files of a process: whichever calls of Python's API fail, the function never gives back a
  reference that it does not own; when it returns a list, this holds exactly the entries of the directory
  whose name does not begin with a dot and is a decimal number to its end (with a path shorter than 1056
  bytes), and that are regular files with a readable link, in their order, each as its link and its number,
  which is the number it is named by where an \<open>int\<close> holds that; and the list is all that it owns; otherwise
  it owns nothing; with enough memory it returns the list.  Only where the directory cannot be opened is
  \<open>NULL\<close> returned without an exception.\<close>

theorem open_files_correct:
  assumes "psutil_proc_open_files (Some pid) dirents (py_start os) = (res, s)"
  shows "alive_events (events s) \<and>
    (case res of
       Value fs \<Rightarrow> (\<exists>es. dirents = Some es \<and>
           fs = map (\<lambda>e. (the (ent_link e), to_int (fst (strtol10 (ent_name e)))))
                  (filter (open_file (proc_fd_dir pid)) es) \<and>
           (\<forall>e\<in>set es. \<forall>n path. ent_name e = show_nat n \<and> n < 2 ^ 31 \<and> ent_stat e = Some True \<and>
              ent_link e = Some path \<longrightarrow> (path, int n) \<in> set fs)) \<and>
         (\<forall>i. balance (events s) i = (if i = 0 then 1 else 0))
     | Raised \<Rightarrow> \<forall>i. balance (events s) i = 0
     | Silent \<Rightarrow> dirents = None \<and> (\<forall>i. balance (events s) i = 0)) \<and>
    (os = [] \<longrightarrow> length (proc_fd_dir pid) < 64 \<longrightarrow> dirents \<noteq> None \<longrightarrow> (\<exists>fs. res = Value fs))"
proof -
  obtain r s1 where 1: "py_new (py_start os) = (r, s1)" by fastforce
  note l = py_new_start [OF 1]
  show ?thesis
  proof (cases r)
    case None
    then show ?thesis using assms 1 l py_new_start_success by (auto simp: psutil_proc_open_files_def)
  next
    case (Some l0)
    have b: "alive_events (events s1)" "balance (events s1) i = (if i = 0 then 1 else 0)" for i
      using l Some by auto
    have early: "alive_events (events (py_decref 0 s1)) \<and> (\<forall>i. balance (events (py_decref 0 s1)) i = 0)"
      using decref_balance [of s1 0] b by auto
    show ?thesis
    proof (cases "length (proc_fd_dir pid) < 64 \<and> dirents \<noteq> None")
      case False
      then show ?thesis
        using assms 1 Some l early by (auto simp: psutil_proc_open_files_def not_less split: option.splits if_splits)
    next
      case True
      then obtain es where es: "dirents = Some es" by blast
      obtain fs v s2 where 2: "files_loop (proc_fd_dir pid) es s1 = ((fs, v), s2)" by (metis prod.collapse)
      note lp = files_loop_balance [OF 2 b(1)]
      show ?thesis
      proof (cases v)
        case None
        then have "res = Value (listed_files (proc_fd_dir pid) es)"
          "\<forall>i. balance (events s) i = (if i = 0 then 1 else 0)" "alive_events (events s)"
          using assms 1 Some es True 2 lp b by (auto simp: psutil_proc_open_files_def held_by_def)
        then show ?thesis using listed_number [of _ es _ _ "proc_fd_dir pid"] es True
          by (auto simp: listed_files_def)
      next
        case (Some pt)
        have "os \<noteq> []"
          using 1 2 Some py_new_start_success files_loop_success [of s1 "proc_fd_dir pid" es] by auto
        then show ?thesis
          using assms 1 \<open>r = Some l0\<close> l es True 2 lp b Some files_release [of s2 "fst pt" "snd pt"]
          by (auto simp: psutil_proc_open_files_def held_by_def split: prod.splits)
      qed
    qed
  qed
qed

definition fd_dir_sample :: "fd_entry list" where
  "fd_dir_sample =
    [\<lparr>ent_name = ''.'', ent_stat = Some False, ent_link = None\<rparr>,
     \<lparr>ent_name = ''0'', ent_stat = Some False, ent_link = Some ''/dev/null''\<rparr>,
     \<lparr>ent_name = ''17'', ent_stat = Some True, ent_link = Some ''/etc/motd''\<rparr>]"

lemma open_files_correct_witness:
  "\<exists>s. psutil_proc_open_files (Some 42) (Some fd_dir_sample) (py_start []) = (Value [(''/etc/motd'', 17)], s)"
proof -
  obtain res s where 1: "psutil_proc_open_files (Some 42) (Some fd_dir_sample) (py_start []) = (res, s)"
    by fastforce
  have dir: "proc_fd_dir 42 = ''/proc/42/fd''"
    by code_simp
  have "listed_files (proc_fd_dir 42) fd_dir_sample = [(''/etc/motd'', 17)]"
    by (simp add: fd_dir_sample_def file_of_entry_def dir strtol10_def isspace_def isdigit_def uchar_def
        digits_value_def PATH_MAX_def to_int_def Let_def)
  then show ?thesis using open_files_correct [OF 1] 1 by (auto simp: dir simp flip: listed_files_def)
qed

end
