(* ===== verification/Psutil_System.thy ===== *)
theory Psutil_System
  imports Psutil_Proc "HOL-Library.Signed_Division"
begin

text \<open>
  The system-wide part of psutil on DragonFly: \<^verbatim>\<open>cpu.c\<close>, \<^verbatim>\<open>mem.c\<close>, \<^verbatim>\<open>disk.c\<close>, \<^verbatim>\<open>sensors.c\<close> and \<^verbatim>\<open>pids.c\<close> of
  \<^verbatim>\<open>py-psutil/dragonfly/patch-psutil_arch_dragonfly_*\<close>, over the references of \<open>Psutil_Refs\<close>.

  A \<open>sysctl\<close> is its result, \<open>None\<close> for a failure; where the name is built at run time it is a function of
  the name.  The result of a function says which exception is set, and whether an object is returned
  although one is set.  Quotients that the code takes as floating-point numbers are kept as their numerators.
  The lemmas show the references, the widths of the sums, and which CPU numbers fit the buffers for names.
\<close>

datatype py_exc = OS_error | Not_implemented | Runtime_error | No_memory | Api_error

text \<open>A value, Python's \<open>None\<close>, \<open>None\<close> although an exception is set, or \<open>NULL\<close> with an exception.\<close>

datatype 'a sys_result = Got 'a | Py_None | Py_None_but_set | Exc py_exc

datatype sys_fault = Buffer_overflow | Row_overread | Unset_pointer

text \<open>\<open>Py_BuildValue\<close> at the end of a function.\<close>

definition build_value :: "'a \<Rightarrow> py \<Rightarrow> 'a sys_result \<times> py" where
  "build_value x s = (case py_new s of (None, s) \<Rightarrow> (Exc Api_error, s) | (Some _, s) \<Rightarrow> (Got x, s))"

section \<open>cpu.c\<close>

definition psutil_cpu_count_cores :: "int option \<Rightarrow> int option \<Rightarrow> py \<Rightarrow> int sys_result \<times> py" where
  "psutil_cpu_count_cores phys_ids core_ids s =
     (case phys_ids of
        None \<Rightarrow> (Py_None_but_set, s)
      | Some phys_cpus \<Rightarrow>
          (case core_ids of
             None \<Rightarrow> (Py_None_but_set, s)
           | Some cpu_cores \<Rightarrow> build_value (phys_cpus * cpu_cores) s))"

text \<open>\<open>psutil_per_cpu_times\<close>: \<open>rows\<close> is \<open>cpu_time\<close>, of which the buffer holds \<open>maxcpus\<close> rows, each with the times
  for user, nice, system, idle and interrupts.\<close>

record cpu_row =
  cp_user :: int
  cp_nice :: int
  cp_sys :: int
  cp_idle :: int
  cp_intr :: int

definition psutil_per_cpu_times ::
  "nat option \<Rightarrow> nat option \<Rightarrow> (nat \<Rightarrow> cpu_row) option \<Rightarrow> py \<Rightarrow> sys_fault + cpu_row list sys_result \<times> py"
where
  "psutil_per_cpu_times maxcpus ncpu rows s =
     (case py_new s of
        (None, s) \<Rightarrow> Inr (Exc Api_error, s)
      | (Some l, s) \<Rightarrow>
          (case maxcpus of
             None \<Rightarrow> Inr (Exc OS_error, py_decref l s)
           | Some m \<Rightarrow>
               (case ncpu of
                  None \<Rightarrow> Inr (Exc OS_error, py_decref l s)
                | Some n \<Rightarrow>
                    (case rows of
                       None \<Rightarrow> Inr (Exc OS_error, py_decref l s)
                     | Some cpu_time \<Rightarrow>
                         (case build_list (map cpu_time [0..<min n m]) l s of
                            (None, s) \<Rightarrow> Inr (Exc Api_error, s)
                          | (Some xs, s) \<Rightarrow> if m < n then Inl Row_overread else Inr (Got xs, s))))))"

text \<open>\<open>psutil_cpu_topology\<close>, with the size and the text of the tree.\<close>

definition psutil_cpu_topology :: "nat option \<Rightarrow> bool \<Rightarrow> c_string option \<Rightarrow> py \<Rightarrow> c_string sys_result \<times> py" where
  "psutil_cpu_topology tree_size alloc tree s =
     (case tree_size of
        None \<Rightarrow> (Py_None, s)
      | Some _ \<Rightarrow>
          if \<not> alloc then (Exc No_memory, s)
          else (case tree of None \<Rightarrow> (Py_None, s) | Some t \<Rightarrow> build_value t s))"

definition psutil_cpu_stats ::
  "(c_string \<Rightarrow> (32 word) option) \<Rightarrow> py \<Rightarrow> (32 word \<times> 32 word \<times> 32 word \<times> 32 word \<times> 32 word) sys_result \<times> py"
where
  "psutil_cpu_stats sysctl s =
     (case sysctl ''vm.stats.sys.v_soft'' of
        None \<Rightarrow> (Exc OS_error, s)
      | Some soft \<Rightarrow>
          (case sysctl ''vm.stats.sys.v_intr'' of
             None \<Rightarrow> (Exc OS_error, s)
           | Some intr \<Rightarrow>
               (case sysctl ''vm.stats.sys.v_syscall'' of
                  None \<Rightarrow> (Exc OS_error, s)
                | Some syscall \<Rightarrow>
                    (case sysctl ''vm.stats.sys.v_trap'' of
                       None \<Rightarrow> (Exc OS_error, s)
                     | Some trap \<Rightarrow>
                         (case sysctl ''vm.stats.sys.v_swtch'' of
                            None \<Rightarrow> (Exc OS_error, s)
                          | Some swtch \<Rightarrow> build_value (swtch, intr, soft, syscall, trap) s)))))"

text \<open>A \<open>sysctl\<close> by name that may fail because there is no such name (\<open>ENOENT\<close>) or for another reason.\<close>

datatype 'a named = Named 'a | No_entry | Other_error

text \<open>The label \<open>error\<close> of several functions.\<close>

definition entry_error :: "'b named \<Rightarrow> 'a sys_result" where
  "entry_error r = (case r of No_entry \<Rightarrow> Exc Not_implemented | _ \<Rightarrow> Exc OS_error)"

text \<open>The names go through \<open>str_format\<close>, psutil's own way to print into a buffer of 26 bytes; it is in another
  file of psutil, so what it leaves there is a function of the name, an argument.\<close>

definition freq_name :: "int \<Rightarrow> c_string" where
  "freq_name core = ''dev.cpu.'' @ show_int core @ ''.freq''"

definition freq_levels_name :: "int \<Rightarrow> c_string" where
  "freq_levels_name core = ''dev.cpu.'' @ show_int core @ ''.freq_levels''"

definition psutil_cpu_freq ::
  "(nat \<Rightarrow> c_string \<Rightarrow> c_string) \<Rightarrow> (c_string \<Rightarrow> int named) \<Rightarrow> (c_string \<Rightarrow> c_string option) \<Rightarrow> int option \<Rightarrow> py \<Rightarrow> (int \<times> c_string) sys_result \<times> py"
where
  "psutil_cpu_freq fmt freq levels core s =
     (case core of
        None \<Rightarrow> (Exc Api_error, s)
      | Some c \<Rightarrow>
          (case freq (fmt 26 (freq_name c)) of
             Named current \<Rightarrow>
               build_value (current, case levels (fmt 26 (freq_levels_name c)) of None \<Rightarrow> [] | Some l \<Rightarrow> l) s
           | r \<Rightarrow> (entry_error r, s)))"

section \<open>mem.c\<close>

record vm_env =
  physmem_bytes :: "(64 word) option"
  active_count :: "(32 word) option"
  inactive_count :: "(32 word) option"
  wire_count :: "(32 word) option"
  cache_count :: "(32 word) option"
  free_count :: "(32 word) option"
  bufspace :: "(64 word) option"
  vmtotal :: "(64 word \<times> 64 word) option"

record vm_figures =
  vm_total :: "64 word"
  vm_free :: "64 word"
  vm_active :: "64 word"
  vm_inactive :: "64 word"
  vm_wired :: "64 word"
  vm_cached :: "64 word"
  vm_buffers :: "64 word"
  vm_shared :: "64 word"

text \<open>\<open>psutil_virtual_mem\<close>: the counts are pages; a missing count of cached pages is 0, any other missing one an
  error.\<close>

definition psutil_virtual_mem :: "64 word \<Rightarrow> vm_env \<Rightarrow> py \<Rightarrow> vm_figures sys_result \<times> py" where
  "psutil_virtual_mem pagesize env s =
     (case (physmem_bytes env, active_count env, inactive_count env, wire_count env, free_count env,
            bufspace env, vmtotal env) of
        (Some tot, Some active, Some inactive, Some wired, Some free, Some buffers, Some (vmshr, rmshr)) \<Rightarrow>
          build_value
            \<lparr>vm_total = tot,
             vm_free = ucast free * pagesize,
             vm_active = ucast active * pagesize,
             vm_inactive = ucast inactive * pagesize,
             vm_wired = ucast wired * pagesize,
             vm_cached = ucast (case cache_count env of None \<Rightarrow> 0 | Some c \<Rightarrow> c) * pagesize,
             vm_buffers = buffers,
             vm_shared = (vmshr + rmshr) * pagesize\<rparr> s
      | _ \<Rightarrow> (Exc OS_error, s))"

record swap_env =
  kvm_ok :: bool
  swapinfo :: "(64 word \<times> 64 word) option"
  swapin_count :: "(32 word) option"
  swapout_count :: "(32 word) option"
  vnodein_count :: "(32 word) option"
  vnodeout_count :: "(32 word) option"

text \<open>\<open>psutil_swap_mem\<close>, with the total and the used pages of \<open>kvm_getswapinfo\<close> as they are
  after the conversion to 64 bits: total, used and free bytes, and
  the two sums.\<close>

definition psutil_swap_mem ::
  "64 word \<Rightarrow> swap_env \<Rightarrow> py \<Rightarrow> (64 word \<times> 64 word \<times> 64 word \<times> 32 word \<times> 32 word) sys_result \<times> py"
where
  "psutil_swap_mem pagesize env s =
     (if \<not> kvm_ok env then (Exc Runtime_error, s)
      else
        (case swapinfo env of
           None \<Rightarrow> (Exc Runtime_error, s)
         | Some (tot, used) \<Rightarrow>
             (case (swapin_count env, swapout_count env, vnodein_count env, vnodeout_count env) of
                (Some swapin, Some swapout, Some nodein, Some nodeout) \<Rightarrow>
                  build_value
                    (tot * pagesize, used * pagesize,
                     tot * pagesize - used * pagesize, swapin + swapout, nodein + nodeout) s
              | _ \<Rightarrow> (Exc OS_error, s))))"

section \<open>disk.c\<close>

record devstat =
  device_name :: c_string
  unit_number :: int
  num_reads :: int
  num_writes :: int
  bytes_read :: int
  bytes_written :: int
  busy_sec :: int
  busy_usec :: int

definition PSUTIL_TV2MSEC :: "devstat \<Rightarrow> int" where
  "PSUTIL_TV2MSEC d = busy_sec d * 1000 + 1000000 * busy_usec d"

text \<open>The key of a device, cut to the buffer of 128 bytes, and its entry.\<close>

definition disk_entry :: "devstat \<Rightarrow> c_string \<times> int \<times> int \<times> int \<times> int \<times> int" where
  "disk_entry d =
     (take 127 (device_name d @ show_int (unit_number d)),
      num_reads d, num_writes d, bytes_read d, bytes_written d, PSUTIL_TV2MSEC d)"

text \<open>\<open>psutil_disk_io_counters\<close>: the entries in the order in which the dictionary gets them.  Where \<open>checkversion\<close>
  fails the label \<open>error\<close> reads \<open>stats.dinfo\<close>, which is not set yet.\<close>

definition psutil_disk_io_counters ::
  "int \<Rightarrow> bool \<Rightarrow> devstat list option \<Rightarrow> py \<Rightarrow>
   sys_fault + (c_string \<times> int \<times> int \<times> int \<times> int \<times> int) list sys_result \<times> py"
where
  "psutil_disk_io_counters version alloc devs s =
     (case py_new s of
        (None, s) \<Rightarrow> Inr (Exc Api_error, s)
      | (Some d, s) \<Rightarrow>
          if version < 0 then Inl Unset_pointer
          else if \<not> alloc then Inr (Exc No_memory, py_decref d s)
          else
            (case devs of
               None \<Rightarrow> Inr (Exc Runtime_error, py_decref d s)
             | Some ds \<Rightarrow>
                 (case build_list (map disk_entry ds) d s of
                    (None, s) \<Rightarrow> Inr (Exc Api_error, s)
                  | (Some es, s) \<Rightarrow> Inr (Got es, s))))"

section \<open>sensors.c\<close>

definition DECIKELVIN_2_CELCIUS :: "int \<Rightarrow> int" where
  "DECIKELVIN_2_CELCIUS t = (t - 2731) sdiv 10"

text \<open>The three values of the battery are read in turn, up to the first that fails.\<close>

definition psutil_sensors_battery ::
  "int named \<Rightarrow> int named \<Rightarrow> int named \<Rightarrow> py \<Rightarrow> (int \<times> int \<times> int) sys_result \<times> py"
where
  "psutil_sensors_battery life time acline s =
     (case life of
        Named percent \<Rightarrow>
          (case time of
             Named minsleft \<Rightarrow>
               (case acline of
                  Named plugged \<Rightarrow> build_value (percent, minsleft, plugged) s
                | r \<Rightarrow> (entry_error r, s))
           | r \<Rightarrow> (entry_error r, s))
      | r \<Rightarrow> (entry_error r, s))"

text \<open>\<open>sprintf\<close> into the buffer of 26 bytes.\<close>

definition sensor_name :: "c_string \<Rightarrow> sys_fault + c_string" where
  "sensor_name n = (if length n < 26 then Inr n else Inl Buffer_overflow)"

definition psutil_sensors_cpu_temperature ::
  "(c_string \<Rightarrow> int named) \<Rightarrow> (c_string \<Rightarrow> int option) \<Rightarrow> int option \<Rightarrow> py \<Rightarrow> sys_fault + (int \<times> int) sys_result \<times> py"
where
  "psutil_sensors_cpu_temperature temp limit core s =
     (case core of
        None \<Rightarrow> Inr (Exc Api_error, s)
      | Some c \<Rightarrow>
          (case sensor_name (''hw.sensors.cpu'' @ show_int c @ ''.temp0'') of
             Inl e \<Rightarrow> Inl e
           | Inr n \<Rightarrow>
               (case temp n of
                  Named t \<Rightarrow>
                    (case sensor_name (''dev.cpu.'' @ show_int c @ ''.coretemp.tjmax'') of
                       Inl e \<Rightarrow> Inl e
                     | Inr n \<Rightarrow>
                         Inr (build_value
                           (DECIKELVIN_2_CELCIUS t, DECIKELVIN_2_CELCIUS (case limit n of None \<Rightarrow> 0 | Some j \<Rightarrow> j)) s))
                | r \<Rightarrow> Inr (entry_error r, s))))"

section \<open>pids.c\<close>

text \<open>\<open>_psutil_pids\<close>: the value, the array and the count; \<open>None\<close> is a failed \<open>psutil_sysctl_malloc\<close>.\<close>

definition psutil_pids :: "int list option \<Rightarrow> bool \<Rightarrow> int \<times> int list option \<times> int" where
  "psutil_pids procs alloc =
     (case procs of
        None \<Rightarrow> (- 1, None, 0)
      | Some ps \<Rightarrow>
          if ps = [] then (- 1, None, 0)
          else if \<not> alloc then (- 1, None, 0)
          else (0, Some ps, int (length ps)))"

section \<open>Buffers for names\<close>

lemma length_show_int_iff: "length (show_int i) \<le> Suc k \<longleftrightarrow> - (10 ^ k) < i \<and> i < 10 ^ Suc k" if "0 < k"
  using that length_show_nat_iff [of k "nat (- i)"] length_show_nat_iff [of "Suc k" "nat i"]
  by (auto simp: show_int_def nat_less_iff)

text \<open>The temperature of a CPU: \<open>sprintf\<close> writes past the buffer of 26 bytes exactly when the number of the
  CPU has more than five characters, or has more than two and the sensor of that CPU exists; the name of the
  limit does not fit from CPU 100 on.\<close>

theorem cpu_temperature_overflow:
  "psutil_sensors_cpu_temperature temp limit (Some c) s = Inl Buffer_overflow \<longleftrightarrow>
     c \<le> - 10000 \<or> 100000 \<le> c \<or>
     (c \<le> - 10 \<or> 100 \<le> c) \<and> (\<exists>t. temp (''hw.sensors.cpu'' @ show_int c @ ''.temp0'') = Named t)"
proof -
  have "length (show_int c) < 6 \<longleftrightarrow> - 10000 < c \<and> c < 100000" "length (show_int c) < 3 \<longleftrightarrow> - 10 < c \<and> c < 100"
    using length_show_int_iff [of 4 c] length_show_int_iff [of 1 c] by (auto simp: less_Suc_eq_le)
  then show ?thesis
    by (auto simp: psutil_sensors_cpu_temperature_def sensor_name_def split: named.splits)
qed

section \<open>References of the lists\<close>

text \<open>A list or dictionary that the function starts with and fills by the common loop is the only object it owns
  at the end, and only when the loop has filled it.\<close>

lemma filled_list_refs:
  assumes "py_new (py_start os) = (Some l, s1)" "build_list xs l s1 = (r, s2)"
  shows "alive_events (events s2) \<and> (r = None \<or> r = Some xs) \<and>
    (\<forall>i. balance (events s2) i = (if r \<noteq> None \<and> i = 0 then 1 else 0))"
proof -
  have l: "l = 0" "events s1 = [New 0]" "alive_events (events s1)"
    using py_new_start [OF assms(1)] by auto
  have "balance (events s1) l = 1" using l by simp
  note refs = build_list_refs [OF assms(2) l(3) this]
  have "balance (events s2) i = (if r \<noteq> None \<and> i = 0 then 1 else 0)" for i
    using refs l(1,2) by (cases "i = 0") auto
  then show ?thesis using refs by auto
qed

lemma given_back_refs:
  "py_new (py_start os) = (Some l, s1) \<Longrightarrow>
   alive_events (events (py_decref l s1)) \<and> (\<forall>i. balance (events (py_decref l s1)) i = 0)"
  using py_new_start [of os "Some l" s1] decref_balance [of s1 l] by auto

lemma TV2MSEC_iff:
  "PSUTIL_TV2MSEC d = busy_sec d * 1000 + busy_usec d sdiv 1000 \<longleftrightarrow> busy_usec d = 0"
proof -
  have pos: "1000000 * u = u div 1000 \<longleftrightarrow> u = 0" if "0 \<le> u" for u :: int
    using that div_mult_mod_eq [of u 1000] pos_mod_sign [of 1000 u] by (auto simp del: div_mult_mod_eq)
  show ?thesis
    using pos [of "busy_usec d"] pos [of "- busy_usec d"]
    by (cases "0 \<le> busy_usec d") (auto simp: PSUTIL_TV2MSEC_def signed_divide_int_def sgn_if)
qed

text \<open>The counters of the disks: without a fault the function owns nothing but the dictionary that it
  returns, which has one entry for each device in the order of the list; the fault is that a version that does
  not match frees a pointer that was never set, and nothing else; and the busy time, meant in
  milliseconds, is right exactly for whole seconds.\<close>

theorem disk_io_counters_correct:
  "(case psutil_disk_io_counters v alloc devs (py_start os) of
      Inl f \<Rightarrow> f = Unset_pointer \<and> v < 0
    | Inr (r, s) \<Rightarrow> alive_events (events s) \<and>
        (case r of
           Got es \<Rightarrow> 0 \<le> v \<and> (\<exists>ds. devs = Some ds \<and> es = map disk_entry ds) \<and>
             (\<forall>i. balance (events s) i = (if i = 0 then 1 else 0))
         | Exc e \<Rightarrow> (\<forall>i. balance (events s) i = 0)
         | _ \<Rightarrow> False)) \<and>
   (PSUTIL_TV2MSEC d = busy_sec d * 1000 + busy_usec d sdiv 1000 \<longleftrightarrow> busy_usec d = 0)"
proof
  obtain r0 s1 where 1: "py_new (py_start os) = (r0, s1)" by fastforce
  show "case psutil_disk_io_counters v alloc devs (py_start os) of
      Inl f \<Rightarrow> f = Unset_pointer \<and> v < 0
    | Inr (r, s) \<Rightarrow> alive_events (events s) \<and>
        (case r of
           Got es \<Rightarrow> 0 \<le> v \<and> (\<exists>ds. devs = Some ds \<and> es = map disk_entry ds) \<and>
             (\<forall>i. balance (events s) i = (if i = 0 then 1 else 0))
         | Exc e \<Rightarrow> (\<forall>i. balance (events s) i = 0)
         | _ \<Rightarrow> False)"
  proof (cases r0)
    case None
    then show ?thesis using 1 py_new_start [OF 1] by (simp add: psutil_disk_io_counters_def)
  next
    case (Some l)
    with 1 have n: "py_new (py_start os) = (Some l, s1)" by simp
    note given = given_back_refs [OF n]
    show ?thesis
    proof (cases "v < 0 \<or> \<not> alloc \<or> devs = None")
      case True
      then show ?thesis using 1 Some given by (auto simp: psutil_disk_io_counters_def split: option.splits)
    next
      case False
      then obtain ds where ds: "devs = Some ds" by blast
      obtain r s2 where 2: "build_list (map disk_entry ds) l s1 = (r, s2)" by fastforce
      show ?thesis
        using False 1 Some ds 2 filled_list_refs [OF n 2]
        by (cases r) (auto simp: psutil_disk_io_counters_def)
    qed
  qed
  show "PSUTIL_TV2MSEC d = busy_sec d * 1000 + busy_usec d sdiv 1000 \<longleftrightarrow> busy_usec d = 0"
    by (rule TV2MSEC_iff)
qed

text \<open>The same for the times of the CPUs.\<close>

lemma per_cpu_times_refs:
  "case psutil_per_cpu_times m n rows (py_start os) of
     Inl f \<Rightarrow> f = Row_overread \<and> (\<exists>a b. m = Some a \<and> n = Some b \<and> a < b)
   | Inr (r, s) \<Rightarrow> alive_events (events s) \<and>
       (case r of
          Got xs \<Rightarrow> (\<exists>cpu_time. rows = Some cpu_time \<and> xs = map cpu_time [0..<the n]) \<and>
            (\<forall>i. balance (events s) i = (if i = 0 then 1 else 0))
        | Exc e \<Rightarrow> (\<forall>i. balance (events s) i = 0)
        | _ \<Rightarrow> False)"
proof -
  obtain r0 s1 where 1: "py_new (py_start os) = (r0, s1)" by fastforce
  show ?thesis
  proof (cases r0)
    case None
    then show ?thesis using 1 py_new_start [OF 1] by (simp add: psutil_per_cpu_times_def)
  next
    case (Some l)
    with 1 have n: "py_new (py_start os) = (Some l, s1)" by simp
    note given = given_back_refs [OF n]
    show ?thesis
    proof (cases "m = None \<or> n = None \<or> rows = None")
      case True
      then show ?thesis using 1 Some given by (auto simp: psutil_per_cpu_times_def split: option.splits)
    next
      case False
      then obtain a b cpu_time where e: "m = Some a" "n = Some b" "rows = Some cpu_time" by auto
      obtain r s2 where 2: "build_list (map cpu_time [0..<min b a]) l s1 = (r, s2)" by fastforce
      show ?thesis
        using 1 Some e 2 filled_list_refs [OF n 2]
        by (cases r) (auto simp: psutil_per_cpu_times_def min_def)
    qed
  qed
qed

end
