(* ===== verification/Fido_Hid.thy ===== *)
theory Fido_Hid
  imports Prelude
begin

text \<open>
  The USB security keys of libfido2 on DragonFly, \<^verbatim>\<open>libfido2/dragonfly/patch-src_hid__dragonfly.c\<close>: finding
  the keys among the HID devices, opening one, and exchanging reports with it.

  What the kernel and libfido2's own helpers (opening a path, parsing a report descriptor, waiting for a
  descriptor) return is an argument, a record for each device.  The lemmas show which devices are listed,
  with which report sizes a device is opened, and which reads and writes succeed.
\<close>

type_synonym hid_bytes = "8 word list"

text \<open>What a path leads to: the descriptor, the report descriptor that \<open>USB_GET_REPORT_DESC\<close> delivers with
  its claimed length, and vendor, product and numbers from \<open>USB_GET_DEVICEINFO\<close>.\<close>

record usb_info =
  udi_vendor :: c_string
  udi_product :: c_string
  udi_vendorNo :: "16 word"
  udi_productNo :: "16 word"

record hid_path =
  open_fd :: int
  report_desc :: "(hid_bytes \<times> nat) option"
  device_info :: "usb_info option"
  strdup_ok :: bool

text \<open>\<open>fido_hid_get_usage\<close> and \<open>fido_hid_get_report_len\<close>; \<open>None\<close> is their failure.\<close>

record hid_parse =
  get_usage :: "hid_bytes \<Rightarrow> 32 word option"
  get_report_len :: "hid_bytes \<Rightarrow> (nat \<times> nat) option"

definition desc_buf :: nat where
  "desc_buf = 64"

definition is_fido :: "hid_parse \<Rightarrow> hid_path \<Rightarrow> bool" where
  "is_fido ps p =
     (case report_desc p of
        None \<Rightarrow> False
      | Some (bs, actlen) \<Rightarrow>
          if actlen > desc_buf then False
          else (case get_usage ps (take actlen bs) of None \<Rightarrow> False | Some page \<Rightarrow> page = 0xf1d0))"

section \<open>The list of the keys\<close>

record dev_info =
  di_path :: c_string
  di_manufacturer :: c_string
  di_product :: c_string
  vendor_id :: "16 word"
  product_id :: "16 word"

text \<open>\<open>copy_info\<close>: the entry, or \<open>None\<close> where it returns -1 and clears the entry; and the descriptors that
  it closes.  Where the information is not available the code fills in its own.\<close>

definition default_info :: usb_info where
  "default_info = \<lparr>udi_vendor = ''dragonfly'', udi_product = ''uhid(4)'', udi_vendorNo = 0x0b5d, udi_productNo = 0\<rparr>"

definition copy_info :: "hid_parse \<Rightarrow> (c_string \<Rightarrow> hid_path) \<Rightarrow> c_string \<Rightarrow> dev_info option \<times> int list" where
  "copy_info ps dev path =
     (let p = dev path; fd = open_fd p; closed = (if fd \<noteq> - 1 then [fd] else []) in
      if fd = - 1 \<or> \<not> is_fido ps p then (None, closed)
      else
        (let udi = (case device_info p of None \<Rightarrow> default_info | Some u \<Rightarrow> u) in
         if \<not> strdup_ok p then (None, closed)
         else (Some \<lparr>di_path = path, di_manufacturer = udi_vendor udi, di_product = udi_product udi,
                 vendor_id = udi_vendorNo udi, product_id = udi_productNo udi\<rparr>, closed)))"

definition MAX_UHID :: nat where
  "MAX_UHID = 64"

definition uhid_path :: "nat \<Rightarrow> c_string" where
  "uhid_path i = ''/dev/uhid'' @ show_nat i"

text \<open>The loop of \<open>fido_hid_manifest\<close>; \<open>*olen\<close> is the number of entries so far.\<close>

function manifest_loop ::
  "hid_parse \<Rightarrow> (c_string \<Rightarrow> hid_path) \<Rightarrow> nat \<Rightarrow> nat \<Rightarrow> dev_info list \<Rightarrow> dev_info list"
where
  "manifest_loop ps dev ilen i devlist =
     (if i < MAX_UHID \<and> length devlist < ilen then
        (case copy_info ps dev (uhid_path i) of
           (Some di, _) \<Rightarrow> manifest_loop ps dev ilen (i + 1) (devlist @ [di])
         | (None, _) \<Rightarrow> manifest_loop ps dev ilen (i + 1) devlist)
      else devlist)"
  by pat_completeness auto
termination
  by (relation "measure (\<lambda>(ps, dev, ilen, i, devlist). MAX_UHID - i)") auto

declare manifest_loop.simps [simp del]

datatype manifest_result = Null_olen | Invalid_argument | Listed "dev_info list"

definition fido_hid_manifest ::
  "hid_parse \<Rightarrow> (c_string \<Rightarrow> hid_path) \<Rightarrow> bool \<Rightarrow> nat \<Rightarrow> bool \<Rightarrow> manifest_result"
where
  "fido_hid_manifest ps dev have_devlist ilen have_olen =
     (if \<not> have_olen then Null_olen
      else if ilen = 0 then Listed []
      else if \<not> have_devlist \<or> \<not> have_olen then Invalid_argument
      else Listed (manifest_loop ps dev ilen 0 []))"

section \<open>An open key\<close>

record hid_dragonfly =
  fd :: int
  report_in_len :: nat
  report_out_len :: nat
  sigmask :: "int set option"

definition fido_hid_open ::
  "hid_parse \<Rightarrow> (c_string \<Rightarrow> hid_path) \<Rightarrow> nat \<Rightarrow> bool \<Rightarrow> c_string \<Rightarrow> hid_dragonfly option"
where
  "fido_hid_open ps dev ctap_max alloc path =
     (if \<not> alloc then None
      else
        (let p = dev path in
         if open_fd p = - 1 then None
         else
           (let lens =
              (case report_desc p of
                 None \<Rightarrow> None
               | Some (bs, actlen) \<Rightarrow> if actlen > desc_buf then None else get_report_len ps (take actlen bs))
            in Some (case lens of
                 None \<Rightarrow> \<lparr>fd = open_fd p, report_in_len = ctap_max, report_out_len = ctap_max, sigmask = None\<rparr>
               | Some (l_in, l_out) \<Rightarrow>
                   \<lparr>fd = open_fd p, report_in_len = l_in, report_out_len = l_out, sigmask = None\<rparr>))))"

definition fido_hid_set_sigmask :: "hid_dragonfly \<Rightarrow> int set \<Rightarrow> hid_dragonfly" where
  "fido_hid_set_sigmask ctx m = ctx\<lparr>sigmask := Some m\<rparr>"

text \<open>\<open>fido_hid_read\<close>: whether waiting succeeds, and what \<open>read\<close> delivers.  The value, and what is in the
  buffer.\<close>

definition fido_hid_read ::
  "hid_dragonfly \<Rightarrow> nat \<Rightarrow> bool \<Rightarrow> hid_bytes option \<Rightarrow> int \<times> hid_bytes"
where
  "fido_hid_read ctx len ready res =
     (if len \<noteq> report_in_len ctx then (- 1, [])
      else if \<not> ready then (- 1, [])
      else
        (case res of
           None \<Rightarrow> (- 1, [])
         | Some bs \<Rightarrow> if length bs \<noteq> len then (- 1, bs) else (int (length bs), bs)))"

text \<open>\<open>fido_hid_write\<close>: the first byte of the buffer is the number of the report and is not sent.  What is
  written, and the value; \<open>sent\<close> is the result of \<open>write\<close>.\<close>

definition fido_hid_write ::
  "hid_dragonfly \<Rightarrow> hid_bytes \<Rightarrow> (hid_bytes \<Rightarrow> int) \<Rightarrow> int \<times> hid_bytes option"
where
  "fido_hid_write ctx buf sent =
     (if length buf \<noteq> report_out_len ctx + 1 then (- 1, None)
      else
        (let r = sent (tl buf) in
         if r = - 1 then (- 1, Some (tl buf))
         else if r < 0 \<or> r \<noteq> int (length buf) - 1 then (- 1, Some (tl buf))
         else (int (length buf), Some (tl buf))))"

section \<open>Which keys are listed\<close>

definition uhid_entries :: "hid_parse \<Rightarrow> (c_string \<Rightarrow> hid_path) \<Rightarrow> nat \<Rightarrow> dev_info list" where
  "uhid_entries ps dev i = (case fst (copy_info ps dev (uhid_path i)) of None \<Rightarrow> [] | Some di \<Rightarrow> [di])"

lemma manifest_loop_eq:
  "i \<le> MAX_UHID \<Longrightarrow>
   manifest_loop ps dev ilen i devlist =
     devlist @ take (ilen - length devlist) (concat (map (uhid_entries ps dev) [i..<MAX_UHID]))"
proof (induction ps dev ilen i devlist rule: manifest_loop.induct)
  case (1 ps dev ilen i devlist)
  show ?case
  proof (cases "i < MAX_UHID \<and> length devlist < ilen")
    case False
    then show ?thesis using 1(3) by (subst manifest_loop.simps) auto
  next
    case True
    then have up: "[i..<MAX_UHID] = i # [Suc i..<MAX_UHID]" by (simp add: upt_rec)
    obtain r cl where r: "copy_info ps dev (uhid_path i) = (r, cl)" by fastforce
    have e: "uhid_entries ps dev i = (case r of None \<Rightarrow> [] | Some di \<Rightarrow> [di])" by (simp add: uhid_entries_def r)
    show ?thesis
    proof (cases r)
      case None
      then show ?thesis
        using True 1(1) [OF True r [symmetric] None] r
        by (subst manifest_loop.simps) (simp add: up e)
    next
      case (Some di)
      have "ilen - length devlist = Suc (ilen - Suc (length devlist))" using True by linarith
      then show ?thesis
        using True 1(2) [OF True r [symmetric] Some] r Some
        by (subst manifest_loop.simps) (simp add: up e)
    qed
  qed
qed

text \<open>What the list is to hold, written apart from the code's own test: a key is a device that can be
  opened, whose report descriptor of at most 64 bytes has the usage page of FIDO, and for whose texts
  memory suffices; and its entry.\<close>

definition is_key :: "hid_parse \<Rightarrow> hid_path \<Rightarrow> bool" where
  "is_key ps p \<longleftrightarrow> open_fd p \<noteq> - 1 \<and> strdup_ok p \<and>
     (\<exists>bs n. report_desc p = Some (bs, n) \<and> n \<le> 64 \<and> get_usage ps (take n bs) = Some 0xf1d0)"

definition key_entry :: "(c_string \<Rightarrow> hid_path) \<Rightarrow> c_string \<Rightarrow> dev_info" where
  "key_entry dev path =
     (case device_info (dev path) of
        Some u \<Rightarrow> \<lparr>di_path = path, di_manufacturer = udi_vendor u, di_product = udi_product u,
                   vendor_id = udi_vendorNo u, product_id = udi_productNo u\<rparr>
      | None \<Rightarrow> \<lparr>di_path = path, di_manufacturer = ''dragonfly'', di_product = ''uhid(4)'',
                  vendor_id = 0x0b5d, product_id = 0\<rparr>)"

lemma is_fido_iff:
  "is_fido ps p \<longleftrightarrow> (\<exists>bs n. report_desc p = Some (bs, n) \<and> n \<le> 64 \<and> get_usage ps (take n bs) = Some 0xf1d0)"
  by (auto simp: is_fido_def desc_buf_def split: option.splits)

lemma copy_info_key:
  "fst (copy_info ps dev path) = (if is_key ps (dev path) then Some (key_entry dev path) else None)"
  by (auto simp: copy_info_def Let_def is_key_def is_fido_iff key_entry_def default_info_def split: option.splits)

lemma concat_entries:
  "concat (map (uhid_entries ps dev) ns) =
     map (\<lambda>i. key_entry dev (uhid_path i)) (filter (\<lambda>i. is_key ps (dev (uhid_path i))) ns)"
  by (induction ns) (auto simp: uhid_entries_def copy_info_key)

section \<open>Properties\<close>

text \<open>C39: the list of keys: with room for \<open>ilen\<close> entries the first so many keys are listed, in the order of
  their numbers, where the keys are those of the devices \<open>/dev/uhid0\<close> to \<open>/dev/uhid63\<close> that can be
  opened, have a report descriptor of at most 64 bytes with the usage page 0xf1d0 of FIDO, and for which
  memory suffices; each entry carries its own path, and its names and numbers from the device or, where
  the device does not tell them, \<open>dragonfly\<close>, \<open>uhid(4)\<close>, 0x0b5d and 0.\<close>

theorem fido_hid_manifest_correct:
  "fido_hid_manifest ps dev True ilen True =
     Listed (take ilen (map (key_entry dev)
       (filter (\<lambda>path. is_key ps (dev path)) (map (\<lambda>i. ''/dev/uhid'' @ show_nat i) [0..<64]))))"
  using manifest_loop_eq [of 0 ps dev ilen "[]"]
  by (simp add: fido_hid_manifest_def concat_entries MAX_UHID_def filter_map comp_def uhid_path_def
      del: upt.simps upt_rec_numeral)

definition key_device :: hid_path where
  "key_device = \<lparr>open_fd = 5, report_desc = Some ([6, 0xd0, 0xf1], 3), device_info = None, strdup_ok = True\<rparr>"

definition sample_parse :: hid_parse where
  "sample_parse = \<lparr>get_usage = (\<lambda>bs. if bs = [6, 0xd0, 0xf1] then Some 0xf1d0 else None), get_report_len = (\<lambda>bs. Some (64, 64))\<rparr>"

text \<open>A key answers in whole reports: a key that was opened reads only reports of its input size, each
  completely or not at all, and writes exactly the bytes behind the number of the report; what one end
  writes in full the other end, with the same size of reports, reads back.\<close>

theorem fido_hid_report_roundtrip:
  assumes "fido_hid_open ps dev ctap_max True path = Some ctx" "report_in_len ctx = report_out_len ctx"
    "length payload = report_out_len ctx" "sent payload = int (length payload)"
  shows "fido_hid_write ctx (n # payload) sent = (int (length payload) + 1, Some payload) \<and>
    fido_hid_read ctx (length payload) True (Some payload) = (int (length payload), payload) \<and>
    (\<forall>len bs. fst (fido_hid_read ctx len True (Some bs)) \<noteq> - 1 \<longrightarrow> len = report_in_len ctx \<and> length bs = len)"
  using assms by (auto simp: fido_hid_write_def fido_hid_read_def Let_def)

lemma fido_hid_report_roundtrip_witness:
  "fido_hid_write \<lparr>fd = 5, report_in_len = 64, report_out_len = 64, sigmask = None\<rparr> (0 # replicate 64 7) (\<lambda>bs. int (length bs)) =
     (65, Some (replicate 64 7))"
proof -
  have "fido_hid_open sample_parse (\<lambda>_. key_device) 64 True ''/dev/uhid3'' =
      Some \<lparr>fd = 5, report_in_len = 64, report_out_len = 64, sigmask = None\<rparr>"
    by (simp add: fido_hid_open_def key_device_def desc_buf_def sample_parse_def Let_def)
  from fido_hid_report_roundtrip [OF this, of "replicate 64 7" "\<lambda>bs. int (length bs)" 0] show ?thesis by simp
qed

end
