(* ===== verification/Mesa_Futex.thy ===== *)
theory Mesa_Futex
  imports Loop_Timers "HOL-Library.Signed_Division"
begin

text \<open>
  Mesa's futexes on DragonFly's umtx: \<^verbatim>\<open>mesa26-dri/dragonfly/patch-100-src_util_futex.c\<close>.

  A deadline on the monotonic clock becomes an interval in microseconds, of which the kernel takes 0 for
  no limit at all.  The arithmetic is signed and 64 bits wide; a result outside is the fault
  \<open>Overflow\<close>.  C's division rounds towards 0, which is \<open>sdiv\<close>.  The lemmas show that the interval never
  ends before the deadline, and how much later at most.  \<open>timespec\<close> is that of \<open>Loop_Timers\<close>.
\<close>

datatype futex_fault = Overflow | Assertion

definition INT_MAX :: int where
  "INT_MAX = 2147483647"

text \<open>A result of arithmetic in \<open>int64_t\<close>.\<close>

definition int64 :: "int \<Rightarrow> futex_fault + int" where
  "int64 x = (if - (2 ^ 63) \<le> x \<and> x < 2 ^ 63 then Inr x else Inl Overflow)"

lemma int64_Inr: "- (2 ^ 63) \<le> x \<Longrightarrow> x < 2 ^ 63 \<Longrightarrow> int64 x = Inr x"
  by (simp add: int64_def)

datatype futex_error = ETIMEDOUT | Clock_error

text \<open>The value and \<open>errno\<close>; \<open>now\<close> is the clock, \<open>None\<close> when it cannot be read.\<close>

definition dragonfly_umtx_timeout_us ::
  "timespec option \<Rightarrow> timespec option \<Rightarrow> futex_fault + int \<times> futex_error option"
where
  "dragonfly_umtx_timeout_us now abs_timeout =
     (case abs_timeout of
        None \<Rightarrow> Inr (0, None)
      | Some t \<Rightarrow>
          (case now of
             None \<Rightarrow> Inr (- 1, Some Clock_error)
           | Some n \<Rightarrow>
               (case int64 (tv_sec t - tv_sec n) of
                  Inl e \<Rightarrow> Inl e
                | Inr sec \<Rightarrow>
                    (case int64 (tv_nsec t - tv_nsec n) of
                       Inl e \<Rightarrow> Inl e
                     | Inr nsec \<Rightarrow>
                         (case int64 (sec * 1000000) of
                            Inl e \<Rightarrow> Inl e
                          | Inr a \<Rightarrow>
                              (case int64 (nsec + 999) of
                                 Inl e \<Rightarrow> Inl e
                               | Inr b \<Rightarrow>
                                   (case int64 (a + b sdiv 1000) of
                                      Inl e \<Rightarrow> Inl e
                                    | Inr usec \<Rightarrow>
                                        if usec \<le> 0 then Inr (- 1, Some ETIMEDOUT)
                                        else if usec > INT_MAX then Inr (INT_MAX, None)
                                        else Inr (usec, None))))))))"

text \<open>\<open>umtx_sleep\<close> and \<open>umtx_wakeup\<close> are the arguments \<open>sleep\<close>, for a value and an interval, and
  \<open>wakeup\<close>.  A 32-bit \<open>int\<close> survives the conversion to \<open>uint32_t\<close> and back, which the assertion of
  \<open>futex_wait\<close> tests.\<close>

definition futex_wake :: "(int \<Rightarrow> 'k \<Rightarrow> 'k \<times> int) \<Rightarrow> int \<Rightarrow> 'k \<Rightarrow> futex_fault + 'k \<times> int" where
  "futex_wake wakeup cnt k =
     (if 0 \<le> cnt then Inr (wakeup (if cnt = 1 then 1 else 0) k) else Inl Assertion)"

definition futex_wait ::
  "(32 word \<Rightarrow> int \<Rightarrow> 'k \<Rightarrow> 'k \<times> int) \<Rightarrow> timespec option \<Rightarrow> 32 word \<Rightarrow> timespec option \<Rightarrow> 'k \<Rightarrow>
   futex_fault + 'k \<times> int"
where
  "futex_wait sleep now value timeout k =
     (case dragonfly_umtx_timeout_us now timeout of
        Inl e \<Rightarrow> Inl e
      | Inr (timeout_us, _) \<Rightarrow> if timeout_us < 0 then Inr (k, - 1) else Inr (sleep value timeout_us k))"

section \<open>The interval\<close>

text \<open>Adding 999 before a division that rounds towards 0 rounds up, by at most one too many.\<close>

lemma div_mod_1000: "y div 1000 * 1000 + y mod 1000 = y" "0 \<le> y mod 1000" "y mod 1000 < 1000" for y :: int
  by simp_all

lemma sdiv_1000:
  "(x + 999) sdiv 1000 * 1000 - 2000 < x \<and> x \<le> (x + 999) sdiv 1000 * 1000" for x :: int
proof (cases "0 \<le> x + 999")
  case True
  then have "(x + 999) sdiv 1000 = (x + 999) div 1000"
    by (simp add: signed_divide_int_def sgn_if)
  then show ?thesis using div_mod_1000 [of "x + 999"] by linarith
next
  case False
  then have "(x + 999) sdiv 1000 = - ((- (x + 999)) div 1000)"
    by (simp add: signed_divide_int_def sgn_if)
  then show ?thesis using div_mod_1000 [of "- (x + 999)"] by linarith
qed

lemma sdiv_1000_le: "x < 1000 * n + 1 \<Longrightarrow> 0 \<le> n \<Longrightarrow> (x + 999) sdiv 1000 \<le> n" for x n :: int
  using sdiv_1000 [of x] by (cases "0 \<le> x + 999") (auto simp: signed_divide_int_def sgn_if)

lemma umtx_timeout_value:
  assumes "normal t" "normal n" "\<bar>tv_sec t - tv_sec n\<bar> \<le> 9000000000000"
  shows "dragonfly_umtx_timeout_us (Some n) (Some t) =
    (let usec = (tv_sec t - tv_sec n) * 1000000 + (tv_nsec t - tv_nsec n + 999) sdiv 1000 in
     Inr (if usec \<le> 0 then (- 1, Some ETIMEDOUT) else if usec > INT_MAX then (INT_MAX, None) else (usec, None)))"
proof -
  let ?s = "tv_sec t - tv_sec n" and ?d = "tv_nsec t - tv_nsec n"
  have d: "- 1000000000 < ?d" "?d < 1000000000"
    using assms(1,2) by (auto simp: normal_def)
  have s: "- 9000000000000 \<le> ?s" "?s \<le> 9000000000000" using assms(3) by linarith+
  have q: "- 1000000 \<le> (?d + 999) sdiv 1000" "(?d + 999) sdiv 1000 \<le> 1000001"
    using sdiv_1000 [of ?d] d by linarith+
  have "int64 ?s = Inr ?s" "int64 ?d = Inr ?d" "int64 (?s * 1000000) = Inr (?s * 1000000)"
    "int64 (?d + 999) = Inr (?d + 999)"
    "int64 (?s * 1000000 + (?d + 999) sdiv 1000) = Inr (?s * 1000000 + (?d + 999) sdiv 1000)"
    using s d q by (auto intro!: int64_Inr)
  then show ?thesis by (simp add: dragonfly_umtx_timeout_us_def Let_def)
qed

section \<open>Properties\<close>

text \<open>C27: a wait with a deadline ends in time and not too early: for times of the clock and deadlines less
  than 285,000 years away no arithmetic overflows; a deadline that has been reached gives the timeout
  without sleeping, any other one an interval that the kernel takes for a limit (never 0, at most the
  largest \<open>int\<close>), that does not end before the deadline unless it was cut to the largest \<open>int\<close>, and ends
  less than two microseconds after it.\<close>

theorem futex_timeout_bounds:
  assumes "normal t" "normal now" "\<bar>tv_sec t - tv_sec now\<bar> \<le> 9000000000000"
  shows "if nanos t \<le> nanos now then dragonfly_umtx_timeout_us (Some now) (Some t) = Inr (- 1, Some ETIMEDOUT)
    else \<exists>us. dragonfly_umtx_timeout_us (Some now) (Some t) = Inr (us, None) \<and> 0 < us \<and> us \<le> INT_MAX \<and>
      us * 1000 < nanos t - nanos now + 2000 \<and> (nanos t - nanos now \<le> us * 1000 \<or> us = INT_MAX)"
proof -
  let ?u = "(tv_sec t - tv_sec now) * 1000000 + (tv_nsec t - tv_nsec now + 999) sdiv 1000"
  let ?r = "nanos t - nanos now"
  have r: "?r = (tv_sec t - tv_sec now) * 1000000000 + (tv_nsec t - tv_nsec now)"
    by (simp add: nanos_def algebra_simps)
  have u: "?u * 1000 - 2000 < ?r" "?r \<le> ?u * 1000"
    using sdiv_1000 [of "tv_nsec t - tv_nsec now"] by (simp_all add: r algebra_simps)
  have z: "?u \<le> 0 \<longleftrightarrow> ?r \<le> 0"
  proof
    assume "?r \<le> 0"
    then have "tv_sec t - tv_sec now \<le> 0" "tv_sec t = tv_sec now \<Longrightarrow> tv_nsec t - tv_nsec now \<le> 0"
      using assms(1,2) unfolding r by (auto simp: normal_def)
    moreover have "(tv_nsec t - tv_nsec now + 999) sdiv 1000 \<le> 1000000"
      using assms(1,2) by (intro sdiv_1000_le) (auto simp: normal_def)
    ultimately show "?u \<le> 0"
      using sdiv_1000_le [of "tv_nsec t - tv_nsec now" 0] by (cases "tv_sec t = tv_sec now") auto
  next
    assume "?u \<le> 0"
    then have "?u * 1000 \<le> 0" by (simp add: mult_nonpos_nonneg)
    with u(2) show "?r \<le> 0" by (rule order_trans)
  qed
  show ?thesis
    using umtx_timeout_value [OF assms] u z by (auto simp: Let_def INT_MAX_def)
qed

lemma futex_timeout_bounds_witness:
  "\<exists>us. dragonfly_umtx_timeout_us (Some \<lparr>tv_sec = 5, tv_nsec = 999999500\<rparr>) (Some \<lparr>tv_sec = 6, tv_nsec = 0\<rparr>) =
     Inr (us, None) \<and> 0 < us \<and> us \<le> 2"
  using futex_timeout_bounds [of "\<lparr>tv_sec = 6, tv_nsec = 0\<rparr>" "\<lparr>tv_sec = 5, tv_nsec = 999999500\<rparr>"]
  by (auto simp: normal_def nanos_def INT_MAX_def)

end
