(* ===== verification/Spamd_Sha1.thy ===== *)
theory Spamd_Sha1
  imports Prelude
begin

text \<open>
  The SHA-1 of a file as text, from \<^verbatim>\<open>mail/spamd/dragonfly/sha1hl_compat.h\<close>.

  The hash itself is libcrypto's: the locale \<open>sha1_digest\<close> states what the code relies on, that updating
  with two pieces is updating with both at once and that a digest has 20 bytes.  The file is what \<open>open\<close>,
  \<open>fstat\<close>, \<open>lseek\<close> and \<open>read\<close> return.  The loop over the file need not end, so it is a
  \<open>partial_function\<close>: \<open>None\<close> is a call that does not return.  The lemmas show that the text is that of
  the digest of the chunk asked for, however \<open>read\<close> cuts it, and that the call never returns when the
  file has become shorter than \<open>fstat\<close> said.
\<close>

unbundle bit_operations_syntax

type_synonym sha_byte = "8 word"

record 'c sha1_ops =
  SHA1_Init :: 'c
  SHA1_Update :: "'c \<Rightarrow> sha_byte list \<Rightarrow> 'c"
  SHA1_Final :: "'c \<Rightarrow> sha_byte list"

definition mdLENGTH :: nat where
  "mdLENGTH = 20"

locale sha1_digest =
  fixes ops :: "'c sha1_ops"
  assumes update_Nil: "SHA1_Update ops c [] = c"
    and update_append: "SHA1_Update ops (SHA1_Update ops c as) bs = SHA1_Update ops c (as @ bs)"
    and final_length: "length (SHA1_Final ops c) = mdLENGTH"

text \<open>A context that keeps the bytes.\<close>

definition kept_bytes :: "sha_byte list sha1_ops" where
  "kept_bytes = \<lparr>SHA1_Init = [], SHA1_Update = (@), SHA1_Final = (\<lambda>bs. take mdLENGTH (bs @ replicate mdLENGTH 0))\<rparr>"

interpretation kept_bytes: sha1_digest kept_bytes
  by unfold_locales (auto simp: kept_bytes_def)

section \<open>The text of a digest\<close>

definition hex_digits :: c_string where
  "hex_digits = ''0123456789abcdef''"

text \<open>\<open>SHA1_End\<close>; \<open>have_buf\<close> is whether a buffer was given or could be allocated.\<close>

definition SHA1_End :: "'c sha1_ops \<Rightarrow> bool \<Rightarrow> 'c \<Rightarrow> c_string option" where
  "SHA1_End ops have_buf ctx =
     (if \<not> have_buf then None
      else
        (let digest = SHA1_Final ops ctx in
         Some (concat (map (\<lambda>i. [hex_digits ! unat (drop_bit 4 (digest ! i)), hex_digits ! unat (digest ! i AND 0x0f)])
                 [0..<mdLENGTH]))))"

section \<open>The bytes of a file\<close>

text \<open>The loop of \<open>SHA1_FileChunk\<close>: the number of the read, the offset in the file, what is left to read
  and the context; the result is the context and whether the loop ended without an error.\<close>

partial_function (option) sha1_read_loop ::
  "'c sha1_ops \<Rightarrow> (nat \<Rightarrow> int \<Rightarrow> nat \<Rightarrow> sha_byte list option) \<Rightarrow> nat \<Rightarrow> int \<Rightarrow> int \<Rightarrow> 'c \<Rightarrow> ('c \<times> bool) option"
where
  "sha1_read_loop ops rd k pos n ctx =
     (if 0 < n then
        (case rd k pos (if n > 8192 then 8192 else nat n) of
           None \<Rightarrow> Some (ctx, False)
         | Some bs \<Rightarrow>
             sha1_read_loop ops rd (k + 1) (pos + int (length bs)) (n - int (length bs)) (SHA1_Update ops ctx bs))
      else Some (ctx, True))"

record sha1_file =
  sf_open :: int
  sf_size :: "int option"
  sf_seek :: "int \<Rightarrow> bool"
  sf_read :: "nat \<Rightarrow> int \<Rightarrow> nat \<Rightarrow> sha_byte list option"
  sf_buf :: bool

text \<open>The value, and whether the descriptor is still open when the call returns.\<close>

definition SHA1_FileChunk ::
  "'c sha1_ops \<Rightarrow> sha1_file \<Rightarrow> int \<Rightarrow> int \<Rightarrow> (c_string option \<times> bool) option"
where
  "SHA1_FileChunk ops env ofs len =
     (if sf_open env < 0 then Some (None, False)
      else
        (case sf_size env of
           None \<Rightarrow> Some (None, True)
         | Some st_size \<Rightarrow>
             (let ofs = (if ofs > st_size then st_size else ofs);
                  len = (if len = 0 \<or> len > st_size - ofs then st_size - ofs else len)
              in if \<not> sf_seek env ofs then Some (None, True)
                 else
                   (case sha1_read_loop ops (sf_read env) 0 ofs len (SHA1_Init ops) of
                      None \<Rightarrow> None
                    | Some (ctx, ok) \<Rightarrow> Some (if ok then SHA1_End ops (sf_buf env) ctx else None, False)))))"

definition SHA1_File :: "'c sha1_ops \<Rightarrow> sha1_file \<Rightarrow> (c_string option \<times> bool) option" where
  "SHA1_File ops env = SHA1_FileChunk ops env 0 0"

definition SHA1_Data :: "'c sha1_ops \<Rightarrow> sha_byte list \<Rightarrow> bool \<Rightarrow> c_string option" where
  "SHA1_Data ops bs have_buf = SHA1_End ops have_buf (SHA1_Update ops (SHA1_Init ops) bs)"

section \<open>Reading the text back\<close>

definition hex_value :: "char \<Rightarrow> nat" where
  "hex_value c = (if isdigit c then nat (uchar c - 48) else nat (uchar c - 87))"

fun hex_bytes :: "c_string \<Rightarrow> sha_byte list" where
  "hex_bytes (a # b # s) = of_nat (16 * hex_value a + hex_value b) # hex_bytes s"
| "hex_bytes _ = []"

lemma hex_value_digit: "i < 16 \<Longrightarrow> hex_value (hex_digits ! i) = i"
proof -
  assume "i < 16"
  have "list_all (\<lambda>i. hex_value (hex_digits ! i) = i) [0..<16]"
    by (simp add: upt_rec hex_value_def hex_digits_def isdigit_def uchar_def)
  with \<open>i < 16\<close> show ?thesis by (simp add: list_all_iff)
qed

lemma nibbles: "16 * unat (drop_bit 4 b) + unat (b AND 0x0f) = unat b" "unat (b AND 0x0f) < 16"
  for b :: sha_byte
proof -
  have "unat (drop_bit 4 b) = drop_bit 4 (unat b)" by (rule unat_drop_bit_eq)
  then have "unat (drop_bit 4 b) = unat b div 16" by (simp add: drop_bit_eq_div [of 4 "unat b"])
  moreover have "unat (b AND 0x0f) = unat b mod 16"
  proof -
    have "unat (take_bit 4 b) = take_bit 4 (unat b)" by (rule unsigned_take_bit_eq)
    then show ?thesis
      using take_bit_eq_mask [of 4 b] by (simp add: mask_eq_exp_minus_1 take_bit_eq_mod [of 4 "unat b"])
  qed
  ultimately show "16 * unat (drop_bit 4 b) + unat (b AND 0x0f) = unat b" "unat (b AND 0x0f) < 16"
    by simp_all
qed

lemma hex_bytes_concat:
  "hex_bytes (concat (map (\<lambda>b. [hex_digits ! unat (drop_bit 4 b), hex_digits ! unat (b AND 0x0f)]) bs)) = bs"
proof (induction bs)
  case (Cons b bs)
  have "unat b < 256" using unsigned_less [of b] by simp
  have "unat (drop_bit 4 b) < 16" "unat (b AND 0x0f) < 16"
    using nibbles [of b] \<open>unat b < 256\<close> by linarith+
  then show ?case using Cons nibbles(1) [of b] by (simp add: hex_value_digit)
qed simp

lemma length_pairs: "length (concat (map (\<lambda>b. [f b, g b]) d)) = 2 * length d"
  by (induction d) auto

lemma hex_of_digest:
  assumes "length d = mdLENGTH"
  shows "map (\<lambda>i. [hex_digits ! unat (drop_bit 4 (d ! i)), hex_digits ! unat (d ! i AND 0x0f)]) [0..<mdLENGTH] =
    map (\<lambda>b. [hex_digits ! unat (drop_bit 4 b), hex_digits ! unat (b AND 0x0f)]) d"
  using assms by (auto intro!: nth_equalityI)

section \<open>What the loop reads\<close>

context sha1_digest
begin

lemma end_text: "\<exists>s. SHA1_End ops True c = Some s \<and> length s = 40 \<and> hex_bytes s = SHA1_Final ops c"
proof -
  note hex = hex_of_digest [OF final_length [of c]]
  show ?thesis
    using final_length [of c] unfolding SHA1_End_def Let_def hex
    by (simp add: hex_bytes_concat length_pairs mdLENGTH_def)
qed

lemma read_loop_file:
  assumes "reads_file content rd"
  shows "0 \<le> pos \<Longrightarrow> nat pos + n \<le> length content \<Longrightarrow>
    sha1_read_loop ops rd k pos (int n) c = Some (SHA1_Update ops c (take n (drop (nat pos) content)), True)"
proof (induction n arbitrary: k pos c rule: less_induct)
  case (less n)
  show ?case
  proof (cases "n = 0")
    case True
    then show ?thesis by (simp add: sha1_read_loop.simps update_Nil)
  next
    case False
    let ?r = "if int n > 8192 then 8192 else nat (int n)"
    have "0 < ?r" "?r \<le> n" using False by auto
    moreover have "pos < int (length content)" using less.prems False by linarith
    ultimately obtain m where m: "0 < m" "m \<le> ?r" "nat pos + m \<le> length content"
      "rd k pos ?r = Some (take m (drop (nat pos) content))"
      using assms less.prems(1) unfolding reads_file_def by blast
    have "m \<le> n" using m(2) \<open>?r \<le> n\<close> by linarith
    have len: "length (take m (drop (nat pos) content)) = m" using m(3) by simp
    have p: "nat (pos + int m) = nat pos + m" using less.prems(1) by (simp add: nat_add_distrib)
    have "sha1_read_loop ops rd k pos (int n) c =
        sha1_read_loop ops rd (k + 1) (pos + int m) (int (n - m)) (SHA1_Update ops c (take m (drop (nat pos) content)))"
      using False m(4) len \<open>m \<le> n\<close> by (subst sha1_read_loop.simps) (simp add: of_nat_diff)
    also have "\<dots> = Some (SHA1_Update ops (SHA1_Update ops c (take m (drop (nat pos) content)))
        (take (n - m) (drop (nat pos + m) content)), True)"
      using less.IH [of "n - m" "pos + int m"] less.prems m(1) False \<open>m \<le> n\<close> p by simp
    also have "\<dots> = Some (SHA1_Update ops c (take n (drop (nat pos) content)), True)"
      using take_add [of m "n - m" "drop (nat pos) content"] \<open>m \<le> n\<close>
      by (simp add: update_append add.commute)
    finally show ?thesis .
  qed
qed

end

text \<open>When the file ends early, \<open>read\<close> returns 0 for ever.\<close>

lemma read_loop_some:
  "sha1_read_loop ops rd k pos n c = Some y \<Longrightarrow> (\<forall>k r. rd k pos r = Some []) \<longrightarrow> n \<le> 0"
  by (erule sha1_read_loop.raw_induct [rotated]) (fastforce split: if_splits option.splits)

lemma read_loop_stuck:
  "(\<And>k r. rd k pos r = Some []) \<Longrightarrow> 0 < n \<Longrightarrow> sha1_read_loop ops rd k pos n c = None"
  using read_loop_some [of ops rd k pos n c] by (cases "sha1_read_loop ops rd k pos n c") auto

section \<open>Properties\<close>

text \<open>C26: the text of a chunk: with a hash that has the laws of its interface and a file that can be
  opened and delivers its bytes, in whatever pieces, the call returns with the file closed, and the text,
  which has 40 characters and reads back as the digest, is that of the chunk: from the offset, or the end
  if that lies behind it, as long as asked for, or up to the end when 0 or more than there is was asked
  for.\<close>

theorem sha1_file_chunk_correct:
  assumes "sha1_digest ops" "reads_file content (sf_read env)" "0 \<le> sf_open env"
    "sf_size env = Some (int (length content))" "\<And>ofs. sf_seek env ofs" "sf_buf env"
  shows "\<exists>s. SHA1_FileChunk ops env (int ofs) (int len) = Some (Some s, False) \<and> length s = 40 \<and>
    hex_bytes s = SHA1_Final ops (SHA1_Update ops (SHA1_Init ops)
      (let bs = drop ofs content in if len = 0 then bs else take len bs))"
proof -
  let ?o = "min ofs (length content)"
  let ?n = "if len = 0 \<or> len > length content - ?o then length content - ?o else len"
  let ?c = "SHA1_Update ops (SHA1_Init ops) (take ?n (drop ?o content))"
  have n: "?o + ?n \<le> length content" by auto
  have chunk: "take ?n (drop ?o content) = (let bs = drop ofs content in if len = 0 then bs else take len bs)"
    by (auto simp: Let_def min_def)
  have "sha1_read_loop ops (sf_read env) 0 (int ?o) (int ?n) (SHA1_Init ops) = Some (?c, True)"
    using sha1_digest.read_loop_file [OF assms(1,2), of "int ?o" ?n] n by simp
  moreover have "(if int ofs > int (length content) then int (length content) else int ofs) = int ?o" by auto
  moreover have "(if int len = 0 \<or> int len > int (length content) - int ?o then int (length content) - int ?o
      else int len) = int ?n" by (auto simp: of_nat_diff)
  ultimately have "SHA1_FileChunk ops env (int ofs) (int len) = Some (SHA1_End ops True ?c, False)"
    using assms(3-6) by (simp add: SHA1_FileChunk_def Let_def)
  then show ?thesis
    using sha1_digest.end_text [OF assms(1), of ?c] unfolding chunk by auto
qed

definition sha_sample :: sha1_file where
  "sha_sample =
    \<lparr>sf_open = 3, sf_size = Some 4, sf_seek = (\<lambda>ofs. True),
     sf_read = (\<lambda>k pos r. Some (take 1 (drop (nat pos) [1, 2, 3, 4]))), sf_buf = True\<rparr>"

lemma sha1_file_chunk_correct_witness:
  "\<exists>s. SHA1_FileChunk kept_bytes sha_sample (int 1) (int 2) = Some (Some s, False) \<and> take 2 (hex_bytes s) = [2, 3]"
proof -
  have "reads_file [1, 2, 3, 4] (sf_read sha_sample)"
    unfolding reads_file_def
  proof (intro allI impI)
    fix k r :: nat and pos :: int
    assume "0 \<le> pos" "pos < int (length [1, 2, 3, 4 :: sha_byte])" "0 < r"
    then show "\<exists>m. 0 < m \<and> m \<le> r \<and> nat pos + m \<le> length [1, 2, 3, 4 :: sha_byte] \<and>
        sf_read sha_sample k pos r = Some (take m (drop (nat pos) [1, 2, 3, 4]))"
      by (intro exI [of _ 1]) (auto simp: sha_sample_def)
  qed
  then show ?thesis
    using sha1_file_chunk_correct [OF kept_bytes.sha1_digest_axioms, of "[1, 2, 3, 4]" sha_sample 1 2]
    by (auto simp: sha_sample_def kept_bytes_def mdLENGTH_def)
qed

text \<open>A file that has become shorter than \<open>fstat\<close> said: when every read at the start of the chunk
  returns 0 and the chunk has at least one byte, the call never returns, as the loop stops for errors
  only; and where \<open>fstat\<close> or \<open>lseek\<close> fails it returns \<open>NULL\<close> with the file left open.\<close>

theorem sha1_file_chunk_stuck:
  assumes "0 \<le> sf_open env" "\<And>k r. sf_read env k (int ofs) r = Some []"
  shows "case sf_size env of
      None \<Rightarrow> SHA1_FileChunk ops env (int ofs) len = Some (None, True)
    | Some sz \<Rightarrow> int ofs < sz \<longrightarrow> 0 \<le> len \<longrightarrow>
        SHA1_FileChunk ops env (int ofs) len = (if sf_seek env (int ofs) then None else Some (None, True))"
proof (cases "sf_size env")
  case None
  then show ?thesis using assms(1) by (simp add: SHA1_FileChunk_def)
next
  case (Some sz)
  let ?n = "if len = 0 \<or> len > sz - int ofs then sz - int ofs else len"
  have "sha1_read_loop ops (sf_read env) 0 (int ofs) ?n c = None" if "int ofs < sz" "0 \<le> len" for c
    using that by (intro read_loop_stuck assms(2)) auto
  then show ?thesis using Some assms(1) by (simp add: SHA1_FileChunk_def Let_def)
qed

lemma sha1_file_chunk_stuck_witness:
  "SHA1_FileChunk kept_bytes (sha_sample\<lparr>sf_read := \<lambda>k pos r. Some []\<rparr>) (int 0) 0 = None"
  using sha1_file_chunk_stuck [of "sha_sample\<lparr>sf_read := \<lambda>k pos r. Some []\<rparr>" 0 kept_bytes 0]
  by (simp add: sha_sample_def)

end
