(* ===== verification/Qemu_Pcap.thy ===== *)
theory Qemu_Pcap
  imports Prelude
begin

text \<open>
  A network card of qemu on libpcap: \<^verbatim>\<open>qemu60/newport/files/pcap-patch-net_net.c\<close>, without the branches for
  Windows.

  What is compiled in is the record \<open>pcap_config\<close>; what libpcap, the sockets and qemu return is the record
  \<open>pcap_env\<close>.  libpcap's handle is absent, open or closed, and using one that is not open is a fault.  The
  loop of \<open>pcap_send\<close> need not end, so it is a \<open>partial_function\<close>.  The lemmas show every outcome of
  setting the card up and what can be done with it afterwards.
\<close>

record pcap_config =
  on_freebsd :: bool
  config_pcap_create :: bool
  config_bpf :: bool
  have_biocimmediate :: bool
  have_biocfeedback :: bool

datatype pcap_fault = Overread | Not_open

datatype pcap_handle = No_handle | Open_handle | Closed_handle

record pcap_state =
  pc_handle :: pcap_handle
  max_eth_frame_size :: int

section \<open>Packets\<close>

text \<open>\<open>pcap_callback\<close>: the bytes that are handed to the guest.  \<open>len\<close> is the length of the packet on the
  wire, \<open>pdata\<close> what was captured of it.\<close>

definition pcap_callback :: "pcap_config \<Rightarrow> pcap_state \<Rightarrow> int \<Rightarrow> 'b list \<Rightarrow> pcap_fault + 'b list" where
  "pcap_callback cfg s len pdata =
     (let len = (if on_freebsd cfg \<and> len > max_eth_frame_size s then max_eth_frame_size s else len)
      in if len \<le> int (length pdata) then Inr (take (nat len) pdata) else Inl Overread)"

text \<open>\<open>pcap_receive\<close>, with \<open>pcap_inject\<close> as an argument.\<close>

definition pcap_receive :: "('b list \<Rightarrow> int) \<Rightarrow> pcap_state \<Rightarrow> 'b list \<Rightarrow> pcap_fault + int" where
  "pcap_receive inject s buf = (if pc_handle s = Open_handle then Inr (inject buf) else Inl Not_open)"

text \<open>The loop of \<open>pcap_send\<close>; \<open>dispatch k\<close> is the value of the \<open>k\<close>-th \<open>pcap_dispatch\<close>.  The result is the
  number of calls.\<close>

partial_function (option) pcap_send :: "(nat \<Rightarrow> int) \<Rightarrow> nat \<Rightarrow> nat option" where
  "pcap_send dispatch k = (if dispatch k \<ge> 0 then Some (k + 1) else pcap_send dispatch (k + 1))"

definition pcap_close :: "pcap_state \<Rightarrow> pcap_fault + pcap_state" where
  "pcap_close s = (if pc_handle s = Open_handle then Inr (s\<lparr>pc_handle := Closed_handle\<rparr>) else Inl Not_open)"

text \<open>\<open>pcap_cleanup\<close>: qemu calls it when the client is deleted.\<close>

definition pcap_cleanup :: "pcap_state \<Rightarrow> pcap_fault + pcap_state" where
  "pcap_cleanup s = pcap_close s"

section \<open>Setting the card up\<close>

record pcap_env =
  has_ifname :: bool
  opt_ifname :: "c_string option"
  lookupdev :: "c_string option"
  mtu_socket :: int
  mtu_ioctl :: "int option"
  pcap_made :: bool
  set_promisc :: int
  activate :: int
  setnonblock :: int
  set_immediate :: int
  set_feedback :: int
  selectable_fd :: int

datatype pcap_action = New_client | Mtu_socket_closed | Handler int

text \<open>The largest frame: the MTU of the interface and the Ethernet header, 1514 when it is not known.\<close>

definition frame_limit :: "pcap_env \<Rightarrow> int \<times> pcap_action list" where
  "frame_limit env =
     (if 0 \<le> mtu_socket env then
        (case mtu_ioctl env of Some mtu \<Rightarrow> mtu + 14 | None \<Rightarrow> 1514, [Mtu_socket_closed])
      else (1514, []))"

text \<open>Opening the handle: the handle, and whether to go on.\<close>

definition pcap_open :: "pcap_config \<Rightarrow> pcap_env \<Rightarrow> pcap_handle \<times> bool" where
  "pcap_open cfg env =
     (if \<not> pcap_made env then (No_handle, False)
      else if config_pcap_create cfg \<and> set_promisc env \<noteq> 0 then (Open_handle, False)
      else if config_pcap_create cfg \<and> activate env \<noteq> 0 then (Open_handle, False)
      else (Open_handle, True))"

definition pcap_configure :: "pcap_config \<Rightarrow> pcap_env \<Rightarrow> bool" where
  "pcap_configure cfg env =
     (if setnonblock env < 0 then False
      else if config_bpf cfg \<and> have_biocimmediate cfg \<and> set_immediate env < 0 then False
      else if config_bpf cfg \<and> have_biocfeedback cfg \<and> set_feedback env < 0 then False
      else True)"

text \<open>The label \<open>fail\<close>.\<close>

definition pcap_fail :: "pcap_state \<Rightarrow> pcap_fault + pcap_state" where
  "pcap_fail s = (if pc_handle s \<noteq> No_handle then pcap_close s else Inr s)"

text \<open>\<open>net_init_pcap\<close>: the value, the client's state if a client was made, and what was done.  A new client is
  zeroed memory.\<close>

definition net_init_pcap ::
  "pcap_config \<Rightarrow> pcap_env \<Rightarrow> pcap_fault + int \<times> pcap_state option \<times> pcap_action list"
where
  "net_init_pcap cfg env =
     (if \<not> has_ifname env then Inr (- 1, None, [])
      else
        (let s = \<lparr>pc_handle = No_handle, max_eth_frame_size = 0\<rparr>;
             fail = (\<lambda>s as. case pcap_fail s of Inl e \<Rightarrow> Inl e | Inr s \<Rightarrow> Inr (- 1, Some s, as))
         in case (case opt_ifname env of Some i \<Rightarrow> Some i | None \<Rightarrow> lookupdev env) of
              None \<Rightarrow> fail s [New_client]
            | Some ifname \<Rightarrow>
                (let (limit, as) = (if on_freebsd cfg then frame_limit env else (0, []));
                     s = s\<lparr>max_eth_frame_size := limit\<rparr>;
                     (h, ok) = pcap_open cfg env;
                     s = s\<lparr>pc_handle := h\<rparr>;
                     as = New_client # as
                 in if \<not> ok then fail s as
                    else if \<not> pcap_configure cfg env then fail s as
                    else if selectable_fd env < 0 then fail s as
                    else Inr (0, Some s, as @ [Handler (selectable_fd env)]))))"

section \<open>Outcomes\<close>

text \<open>All steps succeed.\<close>

definition pcap_all_ok :: "pcap_config \<Rightarrow> pcap_env \<Rightarrow> bool" where
  "pcap_all_ok cfg env \<longleftrightarrow>
     has_ifname env \<and> (opt_ifname env \<noteq> None \<or> lookupdev env \<noteq> None) \<and>
     pcap_made env \<and> (config_pcap_create cfg \<longrightarrow> set_promisc env = 0 \<and> activate env = 0) \<and>
     0 \<le> setnonblock env \<and> (config_bpf cfg \<and> have_biocimmediate cfg \<longrightarrow> 0 \<le> set_immediate env) \<and>
     (config_bpf cfg \<and> have_biocfeedback cfg \<longrightarrow> 0 \<le> set_feedback env) \<and> 0 \<le> selectable_fd env"

lemma pcap_send_Some: "pcap_send d k = Some n \<Longrightarrow> k < n \<and> 0 \<le> d (n - 1) \<and> (\<forall>i. k \<le> i \<and> i < n - 1 \<longrightarrow> d i < 0)"
proof (erule pcap_send.raw_induct [rotated])
  fix send :: "(nat \<Rightarrow> int) \<Rightarrow> nat \<Rightarrow> nat option" and d k n
  assume IH: "\<And>d k n. send d k = Some n \<Longrightarrow> k < n \<and> 0 \<le> d (n - 1) \<and> (\<forall>i. k \<le> i \<and> i < n - 1 \<longrightarrow> d i < 0)"
    and body: "(if 0 \<le> d k then Some (k + 1) else send d (k + 1)) = Some n"
  show "k < n \<and> 0 \<le> d (n - 1) \<and> (\<forall>i. k \<le> i \<and> i < n - 1 \<longrightarrow> d i < 0)"
  proof (cases "0 \<le> d k")
    case True
    with body show ?thesis by auto
  next
    case False
    with body have "send d (k + 1) = Some n" by simp
    from IH [OF this] have n: "k + 1 < n" "0 \<le> d (n - 1)" "\<And>i. k + 1 \<le> i \<Longrightarrow> i < n - 1 \<Longrightarrow> d i < 0" by auto
    have "d i < 0" if "k \<le> i" "i < n - 1" for i
      using that n(3) [of i] False by (cases "i = k") auto
    with n(1,2) show ?thesis by auto
  qed
qed

lemma pcap_send_returns: "0 \<le> d (k + j) \<Longrightarrow> pcap_send d k \<noteq> None"
proof (induction j arbitrary: k)
  case (Suc j)
  then show ?case using Suc.IH [of "k + 1"] by (subst pcap_send.simps) auto
qed (subst pcap_send.simps, simp)

section \<open>Properties\<close>

text \<open>C40: setting the card up: the value is 0 exactly when every step succeeds, and then the handle is
  open, the handler is registered and deleting the client closes the handle; otherwise no handle stays
  open and no handler is registered, but the client, when one was made, is kept, and deleting it closes a
  handle that is closed or was never opened.\<close>

theorem net_init_pcap_outcomes:
  "case net_init_pcap cfg env of
     Inl e \<Rightarrow> False
   | Inr (r, s, as) \<Rightarrow>
       (r = 0 \<longleftrightarrow> pcap_all_ok cfg env) \<and>
       (if r = 0 then
          (case s of None \<Rightarrow> False
           | Some st \<Rightarrow> pc_handle st = Open_handle \<and> last as = Handler (selectable_fd env) \<and>
               pcap_cleanup st = Inr (st\<lparr>pc_handle := Closed_handle\<rparr>))
        else
          r = - 1 \<and> (\<forall>fd. Handler fd \<notin> set as) \<and> (s \<noteq> None \<longleftrightarrow> New_client \<in> set as) \<and>
          (case s of None \<Rightarrow> True | Some st \<Rightarrow> pc_handle st \<noteq> Open_handle \<and> pcap_cleanup st = Inl Not_open))"
proof (cases "has_ifname env \<and> (opt_ifname env \<noteq> None \<or> lookupdev env \<noteq> None)")
  case False
  then show ?thesis
    by (auto simp: net_init_pcap_def pcap_all_ok_def pcap_fail_def pcap_cleanup_def pcap_close_def Let_def)
next
  case True
  obtain limit as where l: "(if on_freebsd cfg then frame_limit env else (0, [])) = (limit, as)" "set as \<subseteq> {Mtu_socket_closed}"
    by (cases "on_freebsd cfg"; cases "frame_limit env") (auto simp: frame_limit_def split: if_splits)
  have init: "net_init_pcap cfg env =
      (let (h, ok) = pcap_open cfg env; s = \<lparr>pc_handle = h, max_eth_frame_size = limit\<rparr> in
       if ok \<and> pcap_configure cfg env \<and> 0 \<le> selectable_fd env
       then Inr (0, Some s, New_client # as @ [Handler (selectable_fd env)])
       else case pcap_fail s of Inl e \<Rightarrow> Inl e | Inr s \<Rightarrow> Inr (- 1, Some s, New_client # as))"
    using True l(1) by (auto simp: net_init_pcap_def Let_def split: option.splits prod.splits)
  have "pcap_open cfg env \<in> {(No_handle, False), (Open_handle, False), (Open_handle, True)}"
    by (simp add: pcap_open_def)
  moreover have "pcap_all_ok cfg env \<longleftrightarrow> snd (pcap_open cfg env) \<and> pcap_configure cfg env \<and> 0 \<le> selectable_fd env"
    using True by (auto simp: pcap_all_ok_def pcap_open_def pcap_configure_def not_less)
  ultimately consider "pcap_open cfg env = (No_handle, False)" "\<not> pcap_all_ok cfg env"
    | "pcap_open cfg env = (Open_handle, False)" "\<not> pcap_all_ok cfg env"
    | "pcap_open cfg env = (Open_handle, True)"
      "pcap_all_ok cfg env \<longleftrightarrow> pcap_configure cfg env \<and> 0 \<le> selectable_fd env"
    by auto
  then show ?thesis
    using l(2) by cases (auto simp: init pcap_fail_def pcap_cleanup_def pcap_close_def Let_def)
qed

text \<open>Sending stops with the first call of libpcap that does not fail: the loop returns exactly when
  there is such a call and has then made all failing ones before it and that one; with a handle that has
  failed for good it never returns.\<close>

theorem pcap_send_first_success:
  "(pcap_send d 0 = None \<longleftrightarrow> (\<forall>k. d k < 0)) \<and>
   (pcap_send d 0 = Some n \<longleftrightarrow> 0 < n \<and> 0 \<le> d (n - 1) \<and> (\<forall>i < n - 1. d i < 0))"
proof (cases "\<exists>k. 0 \<le> d k")
  case True
  then obtain k where k: "0 \<le> d k" by blast
  then obtain m where "pcap_send d 0 = Some m" using pcap_send_returns [of d 0 k] by auto
  with k pcap_send_Some [of d 0 m] show ?thesis
    by (auto simp: not_less) (metis leD linorder_neqE_nat Suc_pred)+
next
  case False
  then have "pcap_send d 0 = None" using pcap_send_Some [of d 0] by (cases "pcap_send d 0") auto
  with False show ?thesis by (auto simp: not_le)
qed

lemma pcap_send_first_success_witness:
  "pcap_send (\<lambda>k. if k < 2 then - 1 else 0) 0 = Some 3"
  using pcap_send_first_success [of "\<lambda>k. if k < 2 then - 1 else 0" 3] by auto

end
