(* ===== verification/Umtx_Waits.thy ===== *)
theory Umtx_Waits
  imports Mesa_Futex
begin

text \<open>
  More users of \<open>umtx_sleep\<close>: libdispatch's wait on an address
  (\<^verbatim>\<open>devel/libdispatch/dragonfly/patch-src_shims_lock.c\<close>), and the futexes of the older mesa
  (\<^verbatim>\<open>graphics/mesa-dri/dragonfly/patch-src_util_futex.h\<close>) and of lace
  (\<^verbatim>\<open>devel/lace/dragonfly/@main/patch-src_lace.c\<close>), which take an interval instead of a deadline.

  libdispatch waits in rounds, as the kernel caps the time of a sleep.  What the rounds see, the value at
  the address, the result of the sleep and the time that is left, are functions of the round's number.
  Nothing bounds their number, so the loops are partial functions.
\<close>

section \<open>libdispatch\<close>

datatype umtx_result = Woken | Busy | Would_block | Sleep_errno int

datatype wait_result = Wait_ok | Timed_out | Wait_errno int

text \<open>The wait without a limit.\<close>

partial_function (option) wait_forever :: "(nat \<Rightarrow> int \<Rightarrow> umtx_result) \<Rightarrow> nat \<Rightarrow> wait_result option" where
  "wait_forever sleep k =
     (case sleep k 0 of
        Woken \<Rightarrow> Some Wait_ok
      | Busy \<Rightarrow> Some Wait_ok
      | Would_block \<Rightarrow> wait_forever sleep (k + 1)
      | Sleep_errno e \<Rightarrow> Some (Wait_errno e))"

text \<open>\<open>howmany\<close> and the cap, on 64-bit words.\<close>

definition dispatch_usecs :: "64 word \<Rightarrow> int" where
  "dispatch_usecs nsecs =
     (let usecs = (nsecs + 999) div 1000 in if usecs > word_of_int INT_MAX then INT_MAX else uint usecs)"

partial_function (option) wait_timed ::
  "(nat \<Rightarrow> bool) \<Rightarrow> (nat \<Rightarrow> int \<Rightarrow> umtx_result) \<Rightarrow> (nat \<Rightarrow> 64 word) \<Rightarrow> 64 word \<Rightarrow> nat \<Rightarrow> wait_result option"
where
  "wait_timed same sleep remaining nsecs k =
     (if \<not> same k then Some Wait_ok
      else
        (case sleep k (dispatch_usecs nsecs) of
           Woken \<Rightarrow> Some Wait_ok
         | Busy \<Rightarrow> Some Wait_ok
         | Would_block \<Rightarrow>
             (let nsecs = remaining k in
              if nsecs \<noteq> 0 then wait_timed same sleep remaining nsecs (k + 1) else Some Timed_out)
         | Sleep_errno e \<Rightarrow> Some (Wait_errno e)))"

definition DISPATCH_TIME_FOREVER :: "64 word" where
  "DISPATCH_TIME_FOREVER = - 1"

definition dispatch_wait_on_address ::
  "(nat \<Rightarrow> bool) \<Rightarrow> (nat \<Rightarrow> int \<Rightarrow> umtx_result) \<Rightarrow> (nat \<Rightarrow> 64 word) \<Rightarrow> 64 word \<Rightarrow> wait_result option"
where
  "dispatch_wait_on_address same sleep remaining nsecs =
     (if nsecs = DISPATCH_TIME_FOREVER then wait_forever sleep 0 else wait_timed same sleep remaining nsecs 0)"

section \<open>The older futexes of mesa\<close>

text \<open>The interval; the sum is made in \<open>time_t\<close>, where a negative one or one that is too large may come out of
  the conversion to \<open>int\<close> as anything.\<close>

definition futex_timo :: "timespec option \<Rightarrow> int" where
  "futex_timo timeout =
     (case timeout of
        None \<Rightarrow> 0
      | Some t \<Rightarrow>
          (let timo = to_int (tv_sec t * 1000 * 1000 + tv_nsec t sdiv 1000);
               timo = (if timo < 0 then 2 ^ 26 else timo)
           in if timo = 0 \<and> 0 < tv_nsec t then 1 else timo))"

datatype futex_value = Futex_ok | Futex_EWOULDBLOCK | Futex_ETIMEDOUT | Futex_errno int

definition futex_wait_relative :: "(int \<Rightarrow> umtx_result) \<Rightarrow> timespec option \<Rightarrow> futex_value" where
  "futex_wait_relative sleep timeout =
     (case sleep (futex_timo timeout) of
        Woken \<Rightarrow> Futex_ok
      | Busy \<Rightarrow> Futex_EWOULDBLOCK
      | Would_block \<Rightarrow> Futex_ETIMEDOUT
      | Sleep_errno e \<Rightarrow> Futex_errno e)"

section \<open>lace\<close>

text \<open>A negative \<open>timeout_us\<close> is no limit; the value is that of \<open>umtx_sleep\<close>.\<close>

definition lace_interval :: "int \<Rightarrow> int" where
  "lace_interval timeout_us =
     (if 0 \<le> timeout_us then
        (let t = (if timeout_us > INT_MAX then INT_MAX else timeout_us) in if t = 0 then 1 else t)
      else 0)"

definition lace_futex_wait :: "(int \<Rightarrow> umtx_result) \<Rightarrow> int \<Rightarrow> umtx_result" where
  "lace_futex_wait sleep timeout_us = sleep (lace_interval timeout_us)"

section \<open>The rounds\<close>

text \<open>The time that is left before a round, the interval of its sleep, and how it ends the wait, if it does.\<close>

definition time_left :: "64 word \<Rightarrow> (nat \<Rightarrow> 64 word) \<Rightarrow> nat \<Rightarrow> 64 word" where
  "time_left nsecs remaining k = (case k of 0 \<Rightarrow> nsecs | Suc i \<Rightarrow> remaining i)"

definition round_result ::
  "(nat \<Rightarrow> bool) \<Rightarrow> (nat \<Rightarrow> int \<Rightarrow> umtx_result) \<Rightarrow> (nat \<Rightarrow> 64 word) \<Rightarrow> 64 word \<Rightarrow> nat \<Rightarrow> wait_result option"
where
  "round_result same sleep remaining nsecs k =
     (if \<not> same k then Some Wait_ok
      else
        (case sleep k (dispatch_usecs (time_left nsecs remaining k)) of
           Woken \<Rightarrow> Some Wait_ok
         | Busy \<Rightarrow> Some Wait_ok
         | Would_block \<Rightarrow> if remaining k = 0 then Some Timed_out else None
         | Sleep_errno e \<Rightarrow> Some (Wait_errno e)))"

lemma wait_timed_step:
  "wait_timed same sleep remaining (time_left nsecs remaining k) k =
     (case round_result same sleep remaining nsecs k of
        Some r \<Rightarrow> Some r
      | None \<Rightarrow> wait_timed same sleep remaining (time_left nsecs remaining (Suc k)) (Suc k))"
  by (subst wait_timed.simps)
    (auto simp: round_result_def time_left_def [of _ _ "Suc k"] Let_def split: umtx_result.splits)

lemma wait_timed_reaches:
  "\<forall>i < n. round_result same sleep remaining nsecs (k + i) = None \<Longrightarrow>
   round_result same sleep remaining nsecs (k + n) = Some r \<Longrightarrow>
   wait_timed same sleep remaining (time_left nsecs remaining k) k = Some r"
proof (induction n arbitrary: k)
  case 0
  then show ?case by (simp add: wait_timed_step)
next
  case (Suc n)
  from Suc.prems(1) have "round_result same sleep remaining nsecs k = None" by (auto dest: spec [of _ 0])
  moreover have "\<forall>i < n. round_result same sleep remaining nsecs (Suc k + i) = None"
    using Suc.prems(1) by (auto dest: spec [of _ "Suc _"])
  ultimately show ?case
    using Suc.IH [of "Suc k"] Suc.prems(2) by (simp add: wait_timed_step [of _ _ _ _ k])
qed

lemma wait_timed_result:
  "wait_timed same sleep remaining ns k = Some r \<Longrightarrow>
   \<forall>nsecs. ns = time_left nsecs remaining k \<longrightarrow>
     (\<exists>n \<ge> k. round_result same sleep remaining nsecs n = Some r \<and>
       (\<forall>i. k \<le> i \<longrightarrow> i < n \<longrightarrow> round_result same sleep remaining nsecs i = None))"
proof (erule wait_timed.raw_induct [rotated])
  fix wait :: "(nat \<Rightarrow> bool) \<Rightarrow> (nat \<Rightarrow> int \<Rightarrow> umtx_result) \<Rightarrow> (nat \<Rightarrow> 64 word) \<Rightarrow> 64 word \<Rightarrow> nat \<Rightarrow> wait_result option"
    and same sleep remaining ns k r
  let ?ends = "\<lambda>same sleep remaining ns k r. \<forall>nsecs. ns = time_left nsecs remaining k \<longrightarrow>
    (\<exists>n \<ge> k. round_result same sleep remaining nsecs n = Some r \<and>
      (\<forall>i. k \<le> i \<longrightarrow> i < n \<longrightarrow> round_result same sleep remaining nsecs i = None))"
  assume IH: "\<And>same sleep remaining ns k r. wait same sleep remaining ns k = Some r \<Longrightarrow>
      ?ends same sleep remaining ns k r"
    and body: "(if \<not> same k then Some Wait_ok
      else case sleep k (dispatch_usecs ns) of
          Woken \<Rightarrow> Some Wait_ok
        | Busy \<Rightarrow> Some Wait_ok
        | Would_block \<Rightarrow>
            let nsecs = remaining k in if nsecs \<noteq> 0 then wait same sleep remaining nsecs (k + 1) else Some Timed_out
        | Sleep_errno e \<Rightarrow> Some (Wait_errno e)) = Some r"
  show "?ends same sleep remaining ns k r"
  proof (intro allI impI)
    fix nsecs
    assume ns: "ns = time_left nsecs remaining k"
    show "\<exists>n \<ge> k. round_result same sleep remaining nsecs n = Some r \<and>
      (\<forall>i. k \<le> i \<longrightarrow> i < n \<longrightarrow> round_result same sleep remaining nsecs i = None)"
    proof (cases "round_result same sleep remaining nsecs k")
      case (Some r')
      have "r' = r"
        using body ns Some by (auto simp: round_result_def Let_def split: if_splits umtx_result.splits)
      with Some show ?thesis by (intro exI [of _ k]) auto
    next
      case None
      then have "wait same sleep remaining (remaining k) (k + 1) = Some r"
        using body ns by (auto simp: round_result_def Let_def split: if_splits umtx_result.splits)
      from IH [OF this] obtain n where n: "Suc k \<le> n" "round_result same sleep remaining nsecs n = Some r"
        "\<forall>i. Suc k \<le> i \<longrightarrow> i < n \<longrightarrow> round_result same sleep remaining nsecs i = None"
        by (auto simp: time_left_def)
      have "\<forall>i. k \<le> i \<longrightarrow> i < n \<longrightarrow> round_result same sleep remaining nsecs i = None"
        using n(3) None by (metis Suc_leI le_neq_implies_less)
      with n show ?thesis by (intro exI [of _ n]) auto
    qed
  qed
qed

section \<open>The intervals\<close>

lemma dispatch_usecs_value:
  "uint nsecs \<le> 2 ^ 64 - 1000 \<Longrightarrow> dispatch_usecs nsecs = min INT_MAX ((uint nsecs + 999) div 1000)"
proof -
  assume a: "uint nsecs \<le> 2 ^ 64 - 1000"
  have s: "uint (nsecs + 999) = uint nsecs + 999"
    using a uint_ge_0 [of nsecs] by (simp add: uint_word_ariths)
  show ?thesis
    by (simp add: dispatch_usecs_def Let_def word_less_def uint_div s INT_MAX_def)
qed

lemma dispatch_usecs_wraps: "2 ^ 64 - 1000 < uint nsecs \<Longrightarrow> dispatch_usecs nsecs = 0"
proof -
  assume a: "2 ^ 64 - 1000 < uint nsecs"
  have b: "uint nsecs < 2 ^ 64" using uint_bounded [of nsecs] by simp
  have "uint (nsecs + 999) = (uint nsecs + 999) mod 2 ^ 64" by (simp add: uint_word_ariths)
  also have "\<dots> = (uint nsecs + 999 - 2 ^ 64) mod 2 ^ 64" by (rule minus_mod_self2 [symmetric])
  also have "\<dots> = uint nsecs + 999 - 2 ^ 64" using a b by (intro mod_pos_pos_trivial) auto
  finally have "uint (nsecs + 999) = uint nsecs + 999 - 2 ^ 64" .
  then have "uint ((nsecs + 999) div 1000) = 0" using a b by (simp add: uint_div div_pos_pos_trivial)
  then show ?thesis by (simp add: dispatch_usecs_def Let_def word_less_def INT_MAX_def)
qed

section \<open>Properties\<close>

text \<open>C18: a wait on an address with a limit ends with the first round that ends it, and never otherwise:
  successfully when the value has changed or the sleep was woken, with the error of the sleep, or with a
  timeout when no time is left after a round; the sleeps before have all run into their limits.  The interval of
  each round is never 0, which would be no limit, as long as 1 to \<open>2 ^ 64 - 1000\<close> nanoseconds are left,
  and does not end early unless it is cut to the largest \<open>int\<close>; for the 998 values above it is 0.\<close>

theorem dispatch_wait_outcome:
  assumes "nsecs \<noteq> DISPATCH_TIME_FOREVER"
  shows "(dispatch_wait_on_address same sleep remaining nsecs = Some r \<longleftrightarrow>
      (\<exists>n. round_result same sleep remaining nsecs n = Some r \<and>
        (\<forall>i. i < n \<longrightarrow> round_result same sleep remaining nsecs i = None))) \<and>
    (0 < uint ns \<and> uint ns \<le> 2 ^ 64 - 1000 \<longrightarrow>
       0 < dispatch_usecs ns \<and> dispatch_usecs ns \<le> INT_MAX \<and>
       (uint ns \<le> dispatch_usecs ns * 1000 \<or> dispatch_usecs ns = INT_MAX)) \<and>
    (2 ^ 64 - 1000 < uint ns \<longrightarrow> dispatch_usecs ns = 0)"
proof (intro conjI impI)
  have start: "dispatch_wait_on_address same sleep remaining nsecs =
      wait_timed same sleep remaining (time_left nsecs remaining 0) 0"
    using assms by (simp add: dispatch_wait_on_address_def time_left_def)
  show "dispatch_wait_on_address same sleep remaining nsecs = Some r \<longleftrightarrow>
      (\<exists>n. round_result same sleep remaining nsecs n = Some r \<and>
        (\<forall>i. i < n \<longrightarrow> round_result same sleep remaining nsecs i = None))"
    using wait_timed_result [of same sleep remaining "time_left nsecs remaining 0" 0 r]
      wait_timed_reaches [of _ same sleep remaining nsecs 0 r]
    by (auto simp: start)
next
  assume "0 < uint ns \<and> uint ns \<le> 2 ^ 64 - 1000"
  then have v: "dispatch_usecs ns = min INT_MAX ((uint ns + 999) div 1000)" "0 < uint ns"
    by (auto intro: dispatch_usecs_value)
  have d: "uint ns + 999 = (uint ns + 999) div 1000 * 1000 + (uint ns + 999) mod 1000"
    "(uint ns + 999) mod 1000 < 1000" by simp_all
  show "0 < dispatch_usecs ns" using d v by (simp add: INT_MAX_def)
  show "dispatch_usecs ns \<le> INT_MAX" using v by simp
  show "uint ns \<le> dispatch_usecs ns * 1000 \<or> dispatch_usecs ns = INT_MAX"
    using d v by (auto simp: min_def)
qed (rule dispatch_usecs_wraps)

text \<open>The interval of the older futexes: it is right up to 2146 seconds, but for an interval of 0 (and only
  then), which becomes no limit at all, and from \<open>2 ^ 32\<close> microseconds on it starts again.\<close>

lemma futex_timo_value:
  assumes "normal t" "0 \<le> tv_sec t" "tv_sec t \<le> 2146"
  shows "futex_timo (Some t) = (if nanos t = 0 then 0 else max 1 (nanos t div 1000))"
proof -
  let ?u = "tv_sec t * 1000 * 1000 + tv_nsec t sdiv 1000"
  have n: "0 \<le> tv_nsec t" "tv_nsec t < 1000000000" using assms(1) by (auto simp: normal_def)
  then have q: "tv_nsec t sdiv 1000 = tv_nsec t div 1000"
    by (simp add: signed_divide_int_def sgn_if)
  have "nanos t div 1000 = (tv_nsec t + (tv_sec t * 1000000) * 1000) div 1000"
    by (simp add: nanos_def algebra_simps)
  then have u: "?u = nanos t div 1000" by (simp add: q)
  have "0 \<le> ?u" "?u < 2 ^ 31"
    using n assms(2,3) by (auto simp: q)
  then have i: "to_int ?u = ?u" by (intro to_int_small) auto
  have "0 \<le> nanos t div 1000" using \<open>0 \<le> ?u\<close> u by simp
  then have "futex_timo (Some t) = (if nanos t div 1000 = 0 \<and> 0 < tv_nsec t then 1 else nanos t div 1000)"
    unfolding futex_timo_def option.case Let_def u using i [unfolded u] by simp
  moreover have "nanos t = 0 \<longleftrightarrow> tv_sec t = 0 \<and> tv_nsec t = 0" "0 \<le> nanos t"
    using n assms(2) by (auto simp: nanos_def)
  ultimately show ?thesis
    using \<open>0 \<le> nanos t div 1000\<close> n assms(2) by (auto simp: nanos_def max_def)
qed

text \<open>In lace no limit is lost: the interval is 0 exactly for a negative one, always fits an \<open>int\<close>, and is longer than asked
  for only where nothing was.\<close>

lemma lace_interval_bounds:
  "(lace_interval us = 0 \<longleftrightarrow> us < 0) \<and> 0 \<le> lace_interval us \<and> lace_interval us \<le> INT_MAX \<and>
   (0 < us \<longrightarrow> lace_interval us = min us INT_MAX)"
  by (auto simp: lace_interval_def Let_def INT_MAX_def)

lemma futex_timo_starts_again: "futex_timo (Some \<lparr>tv_sec = 4294, tv_nsec = 967296000\<rparr>) = 1"
  by (simp add: futex_timo_def to_int_def Let_def signed_divide_int_def)

lemma dispatch_wait_outcome_witness:
  "dispatch_wait_on_address (\<lambda>k. True) (\<lambda>k u. Would_block) (\<lambda>k. if k < 2 then 5 else 0) 5 = Some Timed_out"
proof -
  have "\<exists>n. round_result (\<lambda>k. True) (\<lambda>k u. Would_block) (\<lambda>k. if k < 2 then 5 else 0) 5 n = Some Timed_out \<and>
      (\<forall>i. i < n \<longrightarrow> round_result (\<lambda>k. True) (\<lambda>k u. Would_block) (\<lambda>k. if k < 2 then 5 else 0) 5 i = None)"
    by (intro exI [of _ 2]) (auto simp: round_result_def)
  then show ?thesis
    using dispatch_wait_outcome [of 5 "\<lambda>k. True" "\<lambda>k u. Would_block" "\<lambda>k. if k < 2 then 5 else 0" Timed_out]
    by (simp add: DISPATCH_TIME_FOREVER_def)
qed

end
