(* ===== verification/Map_Files.thy ===== *)
theory Map_Files
  imports Prelude
begin

text \<open>
  Two readers of a process's map of memory in \<^verbatim>\<open>/proc\<close>: gdb's native target
  (\<^verbatim>\<open>devel/gdb/dragonfly/dfly-nat.c\<close>) and the JDK's figure of committed memory
  (\<^verbatim>\<open>java/openjdk21/dragonfly/patch-src_jdk.management_unix_native_libmanagement__ext_OperatingSystemImpl.c\<close>).

  Both read the text with \<open>scanf\<close>, of which the conversions used are modelled on the list of characters that
  are left.  gdb reads lines into a buffer and scans those, so a line that is longer is read in parts; its
  variables keep what an earlier line left in them.  The lemmas show that gdb's regions are those of the
  file when each line fits, and that the JDK's sum is that of their sizes.
\<close>

section \<open>Conversions\<close>

definition xdigits_value :: "c_string \<Rightarrow> nat" where
  "xdigits_value ds = foldl (\<lambda>v c. 16 * v + nat (digit_value c)) 0 ds"

text \<open>\<open>%lx\<close>: the value, which is the largest one when it does not fit, and what is left.\<close>

definition drop_0x :: "c_string \<Rightarrow> c_string" where
  "drop_0x s =
     (case s of
        a # x # d # r \<Rightarrow> if a = CHR ''0'' \<and> (x = CHR ''x'' \<or> x = CHR ''X'') \<and> isxdigit d then d # r else s
      | _ \<Rightarrow> s)"

definition drop_sign :: "c_string \<Rightarrow> c_string" where
  "drop_sign s = (if s \<noteq> [] \<and> (hd s = CHR ''-'' \<or> hd s = CHR ''+'') then tl s else s)"

definition scan_lx :: "c_string \<Rightarrow> (64 word \<times> c_string) option" where
  "scan_lx s =
     (let t = dropWhile isspace s;
          neg = (t \<noteq> [] \<and> hd t = CHR ''-'');
          t = drop_0x (drop_sign t);
          ds = takeWhile isxdigit t;
          v = xdigits_value ds
      in if ds = [] then None
         else Some (if 2 ^ 64 \<le> v then - 1 else if neg then - of_nat v else of_nat v, dropWhile isxdigit t))"

text \<open>\<open>%d\<close> into a variable that is not looked at: what is left.\<close>

definition scan_d :: "c_string \<Rightarrow> c_string option" where
  "scan_d s =
     (let t = drop_sign (dropWhile isspace s) in
      if takeWhile isdigit t = [] then None else Some (dropWhile isdigit t))"

definition scan_s :: "c_string \<Rightarrow> c_string option" where
  "scan_s s =
     (let w = takeWhile (\<lambda>c. \<not> isspace c) (dropWhile isspace s) in if w = [] then None else Some w)"

section \<open>gdb\<close>

datatype map_fault = Cannot_open | Protection_overflow | Not_set

record map_vars =
  mv_start :: "64 word option"
  mv_end :: "64 word option"
  mv_prot :: "c_string option"

text \<open>What \<open>sscanf\<close> assigns, and whether it assigned anything.\<close>

definition scan_mapping :: "c_string \<Rightarrow> map_vars \<Rightarrow> map_fault + bool \<times> map_vars" where
  "scan_mapping buf v =
     (case scan_lx buf of
        None \<Rightarrow> Inr (False, v)
      | Some (start, s) \<Rightarrow>
          (let v = v\<lparr>mv_start := Some start\<rparr> in
           case scan_lx s of
             None \<Rightarrow> Inr (True, v)
           | Some (endaddr, s) \<Rightarrow>
               (let v = v\<lparr>mv_end := Some endaddr\<rparr> in
                case Option.bind (Option.bind (scan_d s) scan_d) scan_lx of
                  None \<Rightarrow> Inr (True, v)
                | Some (obj, s) \<Rightarrow>
                    (case scan_s s of
                       None \<Rightarrow> Inr (True, v)
                     | Some prot \<Rightarrow>
                         if 4 \<le> length prot then Inl Protection_overflow else Inr (True, v\<lparr>mv_prot := Some prot\<rparr>)))))"

definition dfly_read_mapping :: "c_string \<Rightarrow> map_vars \<Rightarrow> map_fault + bool \<times> map_vars \<times> c_string" where
  "dfly_read_mapping mapfile v =
     (case fgets 256 mapfile of
        (buf, rest) \<Rightarrow>
          if buf = [] then Inr (False, v, rest)
          else (case scan_mapping buf v of Inl e \<Rightarrow> Inl e | Inr (ok, v) \<Rightarrow> Inr (ok, v, rest)))"

text \<open>A call of the function for a region: start, size, and whether it can be read, written and executed.\<close>

type_synonym region_call = "64 word \<times> 64 word \<times> bool \<times> bool \<times> bool"

definition region_call :: "map_vars \<Rightarrow> map_fault + region_call" where
  "region_call v =
     (case (mv_start v, mv_end v, mv_prot v) of
        (Some start, Some endaddr, Some prot) \<Rightarrow>
          Inr (start, endaddr - start, CHR ''r'' \<in> set prot, CHR ''w'' \<in> set prot, CHR ''x'' \<in> set prot)
      | _ \<Rightarrow> Inl Not_set)"

lemma read_mapping_shorter: "dfly_read_mapping s v = Inr (True, v', rest) \<Longrightarrow> length rest < length s"
  by (auto simp: dfly_read_mapping_def intro: fgets_shorter [OF sym] split: sum.splits prod.splits if_splits)

function region_loop :: "c_string \<Rightarrow> map_vars \<Rightarrow> map_fault + region_call list" where
  "region_loop mapfile v =
     (case dfly_read_mapping mapfile v of
        Inl e \<Rightarrow> Inl e
      | Inr (ok, v, rest) \<Rightarrow>
          if \<not> ok then Inr []
          else
            (case region_call v of
               Inl e \<Rightarrow> Inl e
             | Inr c \<Rightarrow> (case region_loop rest v of Inl e \<Rightarrow> Inl e | Inr cs \<Rightarrow> Inr (c # cs))))"
  by pat_completeness auto
termination
  by (relation "measure (\<lambda>(s, v). length s)") (auto dest: read_mapping_shorter)

declare region_loop.simps [simp del]

definition find_memory_regions :: "c_string option \<Rightarrow> map_fault + region_call list" where
  "find_memory_regions mapfile =
     (case mapfile of
        None \<Rightarrow> Inl Cannot_open
      | Some s \<Rightarrow> region_loop s \<lparr>mv_start = None, mv_end = None, mv_prot = None\<rparr>)"

text \<open>The file for the symbols of a process: \<open>pathname\<close> is what the \<open>sysctl\<close> gives, where the system has
  it, \<open>exe\<close> what \<open>readlink\<close> gives for the name in \<^verbatim>\<open>/proc\<close>.\<close>

definition pid_to_exec_file :: "c_string option \<Rightarrow> (c_string \<Rightarrow> c_string option) \<Rightarrow> int \<Rightarrow> c_string option" where
  "pid_to_exec_file pathname exe pid =
     (case pathname of
        Some buf \<Rightarrow> if buf = [] then None else Some buf
      | None \<Rightarrow> map_option (take (PATH_MAX - 1)) (exe (''/proc/'' @ show_int pid @ ''/exe'')))"

section \<open>The JDK\<close>

text \<open>One \<open>fscanf\<close>: two numbers behind \<open>0x\<close>, and what is left after the rest of the line.\<close>

definition scan_0x :: "c_string \<Rightarrow> (64 word \<times> c_string) option" where
  "scan_0x s = (case s of a # x # r \<Rightarrow> if a = CHR ''0'' \<and> x = CHR ''x'' then scan_lx r else None | _ \<Rightarrow> None)"

definition scan_range :: "c_string \<Rightarrow> (64 word \<times> 64 word \<times> c_string) option" where
  "scan_range s =
     (case scan_0x s of
        None \<Rightarrow> None
      | Some (start, s) \<Rightarrow>
          (case scan_0x (dropWhile isspace s) of
             None \<Rightarrow> None
           | Some (endaddr, s) \<Rightarrow>
               (let s = dropWhile isspace s in
                Some (start, endaddr,
                  if takeWhile (\<lambda>c. c \<noteq> CHR 0x0A) s = [] then s
                  else dropWhile isspace (dropWhile (\<lambda>c. c \<noteq> CHR 0x0A) s)))))"

lemma dropWhile_shorter: "length (dropWhile P s) \<le> length s"
  by (rule length_dropWhile_le)

lemma drop_0x_shorter: "length (drop_0x s) \<le> length s" and drop_sign_shorter: "length (drop_sign s) \<le> length s"
  by (auto simp: drop_0x_def drop_sign_def split: list.splits)

lemma scan_lx_shorter: "scan_lx s = Some (v, r) \<Longrightarrow> length r \<le> length s"
  unfolding scan_lx_def Let_def
  by (auto split: if_splits
      intro: order_trans [OF dropWhile_shorter order_trans [OF drop_0x_shorter order_trans [OF drop_sign_shorter dropWhile_shorter]]])

lemma scan_0x_shorter: "scan_0x s = Some (v, r) \<Longrightarrow> length r < length s"
  by (auto simp: scan_0x_def dest: scan_lx_shorter split: list.splits if_splits)

lemma scan_range_shorter:
  assumes "scan_range s = Some (a, b, r)"
  shows "length r < length s"
proof -
  obtain s1 s2 where s: "scan_0x s = Some (a, s1)" "scan_0x (dropWhile isspace s1) = Some (b, s2)"
    using assms by (auto simp: scan_range_def Let_def split: option.splits)
  then have "length s2 < length s"
    using scan_0x_shorter [OF s(1)] scan_0x_shorter [OF s(2)] dropWhile_shorter [of isspace s1] by linarith
  moreover have "length r \<le> length s2"
    using assms s dropWhile_shorter [of isspace s2] dropWhile_shorter [of "\<lambda>c. c \<noteq> CHR 0x0A" "dropWhile isspace s2"]
      dropWhile_shorter [of isspace "dropWhile (\<lambda>c. c \<noteq> CHR 0x0A) (dropWhile isspace s2)"]
    by (auto simp: scan_range_def Let_def split: if_splits)
  ultimately show ?thesis by linarith
qed

text \<open>The sum, as a 64-bit number; the value of the call is \<open>- 1\<close> with an exception when the file cannot be
  opened.\<close>

function committed_loop :: "c_string \<Rightarrow> 64 word \<Rightarrow> 64 word" where
  "committed_loop s tot =
     (case scan_range s of
        None \<Rightarrow> tot
      | Some (start, endaddr, r) \<Rightarrow> if start > endaddr then tot else committed_loop r (tot + (endaddr - start)))"
  by pat_completeness auto
termination
  by (relation "measure (\<lambda>(s, tot). length s)") (auto dest: scan_range_shorter)

declare committed_loop.simps [simp del]

definition jdk_committed_memory :: "c_string option \<Rightarrow> 64 word option" where
  "jdk_committed_memory mapfile = (case mapfile of None \<Rightarrow> None | Some s \<Rightarrow> Some (committed_loop s 0))"

section \<open>A map that the kernel prints\<close>

fun show_hex :: "nat \<Rightarrow> c_string" where
  "show_hex n = (if n < 16 then [''0123456789abcdef'' ! n] else show_hex (n div 16) @ [''0123456789abcdef'' ! (n mod 16)])"

declare show_hex.simps [simp del]

record map_region =
  rg_start :: "64 word"
  rg_end :: "64 word"
  rg_resident :: int
  rg_private :: int
  rg_obj :: "64 word"
  rg_prot :: c_string
  rg_tail :: c_string

definition map_text :: "map_region \<Rightarrow> c_string" where
  "map_text r =
     ''0x'' @ show_hex (unat (rg_start r)) @ '' 0x'' @ show_hex (unat (rg_end r)) @ '' '' @ show_int (rg_resident r) @
     '' '' @ show_int (rg_private r) @ '' 0x'' @ show_hex (unat (rg_obj r)) @ '' '' @ rg_prot r @ '' '' @ rg_tail r"

definition map_file :: "map_region list \<Rightarrow> c_string" where
  "map_file rs = concat (map (\<lambda>r. map_text r @ [CHR 0x0A]) rs)"

definition plain_region :: "map_region \<Rightarrow> bool" where
  "plain_region r \<longleftrightarrow>
     rg_prot r \<noteq> [] \<and> length (rg_prot r) < 4 \<and> (\<forall>c \<in> set (rg_prot r). \<not> isspace c) \<and>
     CHR 0x0A \<notin> set (rg_tail r) \<and> length (map_text r) < 255"

section \<open>Scanning what was printed\<close>

lemma xdigit_char: "n < 16 \<Longrightarrow> isxdigit (''0123456789abcdef'' ! n) \<and> digit_value (''0123456789abcdef'' ! n) = int n"
proof -
  assume "n < 16"
  have "list_all (\<lambda>n. isxdigit (''0123456789abcdef'' ! n) \<and> digit_value (''0123456789abcdef'' ! n) = int n) [0..<16]"
    by (simp add: upt_rec isxdigit_def isdigit_def digit_value_def uchar_def tolower_def)
  with \<open>n < 16\<close> show ?thesis by (simp add: list_all_iff)
qed

lemma show_hex_digits: "list_all isxdigit (show_hex n)" "show_hex n \<noteq> []"
  by (induction n rule: show_hex.induct) (simp_all add: show_hex.simps [of n for n] xdigit_char)

lemma xdigits_value_show: "xdigits_value (show_hex n) = n"
proof (induction n rule: show_hex.induct)
  case (1 n)
  then show ?case
    by (cases "n < 16") (simp_all add: show_hex.simps [of n] xdigits_value_def xdigit_char)
qed

lemma xdigit_not: "isxdigit c \<Longrightarrow> \<not> isspace c \<and> c \<noteq> CHR ''-'' \<and> c \<noteq> CHR ''+'' \<and> c \<noteq> CHR ''x'' \<and> c \<noteq> CHR ''X''"
  by (auto simp: isxdigit_def isdigit_def isspace_def uchar_def tolower_def)

lemma space_not: "\<not> isxdigit (CHR '' '')" "isspace (CHR '' '')" "\<not> isdigit (CHR '' '')" "isspace (CHR 0x0A)"
  by (simp_all add: isxdigit_def isdigit_def isspace_def uchar_def tolower_def)

lemma takeWhile_stops: "list_all P ds \<Longrightarrow> \<not> P c \<Longrightarrow> takeWhile P (ds @ c # r) = ds \<and> dropWhile P (ds @ c # r) = c # r"
  by (induction ds) auto

lemma drop_0x_digits:
  assumes "list_all isxdigit ds" "ds \<noteq> []"
  shows "drop_0x (ds @ CHR '' '' # r) = ds @ CHR '' '' # r"
proof (cases ds)
  case (Cons a es)
  then show ?thesis using assms xdigit_not space_not by (cases es) (auto simp: drop_0x_def split: list.splits)
qed (use assms in simp)

lemma scan_lx_digits:
  assumes "n < 2 ^ 64"
  shows "scan_lx (show_hex n @ CHR '' '' # r) = Some (of_nat n, CHR '' '' # r)"
proof -
  obtain d ds where d: "show_hex n = d # ds" using show_hex_digits(2) [of n] by (cases "show_hex n") auto
  then have "isxdigit d" using show_hex_digits(1) [of n] by simp
  then have "drop_sign (dropWhile isspace (show_hex n @ CHR '' '' # r)) = show_hex n @ CHR '' '' # r"
    "hd (dropWhile isspace (show_hex n @ CHR '' '' # r)) \<noteq> CHR ''-''"
    using xdigit_not [of d] by (auto simp: d drop_sign_def)
  then show ?thesis
    using assms show_hex_digits [of n] drop_0x_digits [OF show_hex_digits] takeWhile_stops [OF show_hex_digits(1) space_not(1)]
    by (simp add: scan_lx_def Let_def xdigits_value_show)
qed

lemma scan_lx_0x:
  assumes "n < 2 ^ 64"
  shows "scan_lx (''0x'' @ show_hex n @ CHR '' '' # r) = Some (of_nat n, CHR '' '' # r)"
    "scan_lx (CHR '' '' # ''0x'' @ show_hex n @ CHR '' '' # r) = Some (of_nat n, CHR '' '' # r)"
proof -
  obtain d ds where d: "show_hex n = d # ds" using show_hex_digits(2) [of n] by (cases "show_hex n") auto
  then have "isxdigit d" using show_hex_digits(1) [of n] by simp
  then have "drop_0x (drop_sign (''0x'' @ show_hex n @ CHR '' '' # r)) = show_hex n @ CHR '' '' # r"
    "\<not> isspace (CHR ''0'')"
    by (auto simp: d drop_sign_def drop_0x_def isspace_def uchar_def)
  then show "scan_lx (''0x'' @ show_hex n @ CHR '' '' # r) = Some (of_nat n, CHR '' '' # r)"
    "scan_lx (CHR '' '' # ''0x'' @ show_hex n @ CHR '' '' # r) = Some (of_nat n, CHR '' '' # r)"
    using assms show_hex_digits [of n] takeWhile_stops [OF show_hex_digits(1) space_not(1)] space_not(2)
    by (simp_all add: scan_lx_def Let_def xdigits_value_show)
qed

lemma scan_d_int: "scan_d (CHR '' '' # show_int i @ CHR '' '' # r) = Some (CHR '' '' # r)"
proof -
  have dig: "drop_sign (show_nat n @ CHR '' '' # r) = show_nat n @ CHR '' '' # r"
    "dropWhile isspace (show_nat n @ CHR '' '' # r) = show_nat n @ CHR '' '' # r" for n
  proof -
    obtain d ds where d: "show_nat n = d # ds" using show_nat_isdigit [of n] by (cases "show_nat n") auto
    then have "isdigit d" using show_nat_isdigit [of n] by simp
    then have "\<not> isspace d" "d \<noteq> CHR ''-''" "d \<noteq> CHR ''+''"
      by (auto simp: isdigit_def isspace_def uchar_def)
    then show "drop_sign (show_nat n @ CHR '' '' # r) = show_nat n @ CHR '' '' # r"
      "dropWhile isspace (show_nat n @ CHR '' '' # r) = show_nat n @ CHR '' '' # r"
      by (simp_all add: d drop_sign_def)
  qed
  have tw: "takeWhile isdigit (show_nat n @ CHR '' '' # r) = show_nat n"
    "dropWhile isdigit (show_nat n @ CHR '' '' # r) = CHR '' '' # r" "show_nat n \<noteq> []" for n
    using takeWhile_stops [of isdigit "show_nat n" "CHR '' ''" r] show_nat_isdigit [of n] space_not(3) by auto
  have m: "\<not> isspace (CHR ''-'')" "drop_sign (CHR ''-'' # s) = s" for s
    by (simp_all add: isspace_def uchar_def drop_sign_def)
  show ?thesis
    by (cases "i < 0") (simp_all add: scan_d_def show_int_def space_not(2) dig tw m Let_def)
qed

lemma scan_s_word:
  assumes "w \<noteq> []" "\<forall>c \<in> set w. \<not> isspace c"
  shows "scan_s (CHR '' '' # w @ CHR '' '' # r) = Some w"
proof -
  obtain c cs where c: "w = c # cs" using assms(1) by (cases w) auto
  have "dropWhile isspace (CHR '' '' # w @ CHR '' '' # r) = w @ CHR '' '' # r"
    using assms(2) space_not(2) by (simp add: c)
  moreover have "takeWhile (\<lambda>c. \<not> isspace c) (w @ CHR '' '' # r) = w"
    using takeWhile_stops [of "\<lambda>c. \<not> isspace c" w "CHR '' ''" r] assms(2) space_not(2) by (simp add: list_all_iff)
  ultimately show ?thesis using assms(1) by (simp add: scan_s_def)
qed

lemma scan_mapping_text:
  assumes "plain_region r"
  shows "scan_mapping (map_text r @ [CHR 0x0A]) v =
    Inr (True, \<lparr>mv_start = Some (rg_start r), mv_end = Some (rg_end r), mv_prot = Some (rg_prot r)\<rparr>)"
proof -
  note t = map_text_def append_assoc append_Cons append_Nil
  let ?rest = "CHR '' '' # show_int (rg_resident r) @ CHR '' '' # show_int (rg_private r) @ CHR '' '' # ''0x'' @
    show_hex (unat (rg_obj r)) @ CHR '' '' # rg_prot r @ CHR '' '' # rg_tail r @ [CHR 0x0A]"
  have u: "unat w < 2 ^ 64" for w :: "64 word" using unsigned_less [of w] by simp
  have "map_text r @ [CHR 0x0A] =
      ''0x'' @ show_hex (unat (rg_start r)) @ CHR '' '' # ''0x'' @ show_hex (unat (rg_end r)) @ ?rest"
    by (simp add: map_text_def)
  moreover have "Option.bind (Option.bind (scan_d ?rest) scan_d) scan_lx =
      Some (rg_obj r, CHR '' '' # rg_prot r @ CHR '' '' # rg_tail r @ [CHR 0x0A])"
    using scan_lx_0x(2) [OF u, of "rg_obj r"] by (simp add: scan_d_int)
  moreover have "scan_s (CHR '' '' # rg_prot r @ CHR '' '' # rg_tail r @ [CHR 0x0A]) = Some (rg_prot r)"
    using assms by (intro scan_s_word) (auto simp: plain_region_def)
  ultimately show ?thesis
    using assms scan_lx_0x(1) [OF u, of "rg_start r"] scan_lx_0x(2) [OF u, of "rg_end r"]
    by (simp add: scan_mapping_def plain_region_def)
qed

lemma no_newline:
  assumes "plain_region r"
  shows "CHR 0x0A \<notin> set (map_text r)"
proof -
  have h: "CHR 0x0A \<notin> set (show_hex n)" for n
    using show_hex_digits(1) [of n] space_not(4) xdigit_not by (auto simp: list_all_iff)
  have n: "CHR 0x0A \<notin> set (show_nat n)" for n
    using show_nat_isdigit [of n] by (auto simp: list_all_iff isdigit_def uchar_def)
  then have i: "CHR 0x0A \<notin> set (show_int n)" for n by (simp add: show_int_def)
  show ?thesis using assms h i space_not(4) by (auto simp: map_text_def plain_region_def)
qed

definition call_of :: "map_region \<Rightarrow> region_call" where
  "call_of r = (rg_start r, rg_end r - rg_start r, CHR ''r'' \<in> set (rg_prot r), CHR ''w'' \<in> set (rg_prot r),
     CHR ''x'' \<in> set (rg_prot r))"

lemma fgets_Nil: "fgets n [] = ([], [])"
  by (cases n) auto

lemma region_loop_file:
  "\<forall>r \<in> set rs. plain_region r \<Longrightarrow> region_loop (map_file rs) v = Inr (map call_of rs)"
proof (induction rs arbitrary: v)
  case Nil
  then show ?case by (simp add: region_loop.simps map_file_def dfly_read_mapping_def fgets_Nil)
next
  case (Cons r rs)
  have r: "plain_region r" using Cons.prems by simp
  have f: "map_file (r # rs) = map_text r @ CHR 0x0A # map_file rs" by (simp add: map_file_def)
  have "fgets 256 (map_file (r # rs)) = (map_text r @ [CHR 0x0A], map_file rs)"
    using r no_newline [OF r] unfolding f by (intro fgets_line) (auto simp: plain_region_def)
  then show ?case
    using Cons.IH Cons.prems scan_mapping_text [OF r, of v]
    by (subst region_loop.simps) (simp add: dfly_read_mapping_def region_call_def call_of_def)
qed

section \<open>The sum\<close>

lemma scan_range_line:
  assumes "CHR 0x0A \<notin> set t" "t \<noteq> []" "\<not> isspace (hd t)" "rest = [] \<or> \<not> isspace (hd rest)"
  shows "scan_range (''0x'' @ show_hex (unat a) @ CHR '' '' # ''0x'' @ show_hex (unat b) @ CHR '' '' # t @ CHR 0x0A # rest) =
    Some (a, b, rest)"
proof -
  have u: "unat w < 2 ^ 64" for w :: "64 word" using unsigned_less [of w] by simp
  have z: "scan_0x (''0x'' @ s) = scan_lx s" "\<not> isspace (CHR ''0'')" for s
    by (simp_all add: scan_0x_def isspace_def uchar_def)
  have "list_all (\<lambda>c. c \<noteq> CHR 0x0A) t" using assms(1) by (auto simp: list_all_iff)
  then have "dropWhile (\<lambda>c. c \<noteq> CHR 0x0A) (t @ CHR 0x0A # rest) = CHR 0x0A # rest"
    "takeWhile (\<lambda>c. c \<noteq> CHR 0x0A) (t @ CHR 0x0A # rest) = t"
    using takeWhile_stops [of "\<lambda>c. c \<noteq> CHR 0x0A" t "CHR 0x0A" rest] by auto
  moreover have "dropWhile isspace (CHR '' '' # t @ CHR 0x0A # rest) = t @ CHR 0x0A # rest"
    using assms(2,3) space_not(2) by (cases t) auto
  moreover have "dropWhile isspace (CHR 0x0A # rest) = rest"
    using assms(4) space_not(4) by (cases rest) auto
  moreover have "dropWhile isspace (CHR '' '' # ''0x'' @ s) = ''0x'' @ s" for s
    using z(2) space_not(2) by simp
  ultimately show ?thesis
    using scan_lx_digits [OF u, of a] scan_lx_digits [OF u, of b] assms(2)
    unfolding scan_range_def z(1) by (simp add: z(1) Let_def del: append_Cons append_Nil)
qed

lemma scan_range_text:
  assumes "plain_region r" "rest = [] \<or> \<not> isspace (hd rest)"
  shows "scan_range (map_text r @ CHR 0x0A # rest) = Some (rg_start r, rg_end r, rest)"
proof -
  let ?tail = "show_int (rg_resident r) @ CHR '' '' # show_int (rg_private r) @ CHR '' '' # ''0x'' @
    show_hex (unat (rg_obj r)) @ CHR '' '' # rg_prot r @ CHR '' '' # rg_tail r"
  have t: "map_text r @ CHR 0x0A # rest = ''0x'' @ show_hex (unat (rg_start r)) @ CHR '' '' #
      ''0x'' @ show_hex (unat (rg_end r)) @ CHR '' '' # ?tail @ CHR 0x0A # rest"
    by (simp add: map_text_def)
  have "CHR 0x0A \<notin> set ?tail" using no_newline [OF assms(1)] by (auto simp: map_text_def)
  moreover obtain d ds where d: "show_nat (nat \<bar>rg_resident r\<bar>) = d # ds" "isdigit d"
    using show_nat_isdigit [of "nat \<bar>rg_resident r\<bar>"] by (cases "show_nat (nat \<bar>rg_resident r\<bar>)") auto
  then have "\<not> isspace d" "\<not> isspace (CHR ''-'')" by (auto simp: isdigit_def isspace_def uchar_def)
  with d have "?tail \<noteq> []" "\<not> isspace (hd ?tail)" by (cases "rg_resident r < 0"; simp add: show_int_def)+
  ultimately show ?thesis unfolding t using assms(2) by (rule scan_range_line)
qed

lemma committed_loop_file:
  "\<forall>r \<in> set rs. plain_region r \<and> rg_start r \<le> rg_end r \<Longrightarrow>
   committed_loop (map_file rs) tot = tot + (\<Sum>r\<leftarrow>rs. rg_end r - rg_start r)"
proof (induction rs arbitrary: tot)
  case Nil
  then show ?case by (simp add: committed_loop.simps map_file_def scan_range_def scan_0x_def)
next
  case (Cons r rs)
  have f: "map_file (r # rs) = map_text r @ CHR 0x0A # map_file rs" by (simp add: map_file_def)
  have "map_file rs = [] \<or> \<not> isspace (hd (map_file rs))"
    by (cases rs) (simp_all add: map_file_def map_text_def isspace_def uchar_def)
  then have "scan_range (map_file (r # rs)) = Some (rg_start r, rg_end r, map_file rs)"
    using Cons.prems unfolding f by (intro scan_range_text) auto
  then show ?case
    using Cons.IH Cons.prems by (subst committed_loop.simps) (auto simp: add.assoc dest: leD)
qed

section \<open>Property\<close>

text \<open>C12: two readers of a process's map agree: on a file of lines as the kernel prints them, each shorter
  than 255 characters and with a protection of at most three, gdb is called once for each line, in order,
  with its start, size and rights, whatever its variables held before; and the JDK's figure, where no
  region ends before it starts, is the sum of the sizes that gdb reports.\<close>

theorem map_readers_agree:
  assumes "\<forall>r \<in> set rs. plain_region r"
  shows "find_memory_regions (Some (map_file rs)) = Inr (map call_of rs) \<and>
    ((\<forall>r \<in> set rs. rg_start r \<le> rg_end r) \<longrightarrow>
      jdk_committed_memory (Some (map_file rs)) = Some (\<Sum>c\<leftarrow>map call_of rs. fst (snd c)))"
  using region_loop_file [OF assms] committed_loop_file [of rs 0] assms
  by (simp add: find_memory_regions_def jdk_committed_memory_def call_of_def o_def)

definition map_sample :: "map_region list" where
  "map_sample =
    [\<lparr>rg_start = 0x400000, rg_end = 0x402000, rg_resident = 2, rg_private = 0, rg_obj = 0xc5, rg_prot = ''r-x'',
      rg_tail = ''COW NC vnode /bin/cat''\<rparr>,
     \<lparr>rg_start = 0x602000, rg_end = 0x603000, rg_resident = 1, rg_private = 1, rg_obj = 0xc6, rg_prot = ''rw-'',
      rg_tail = ''NCOW''\<rparr>]"

lemma map_readers_agree_witness:
  "find_memory_regions (Some (map_file map_sample)) =
     Inr [(0x400000, 0x2000, True, False, True), (0x602000, 0x1000, True, True, False)] \<and>
   jdk_committed_memory (Some (map_file map_sample)) = Some 0x3000"
proof -
  have "\<forall>r \<in> set map_sample. plain_region r"
    by (simp add: map_sample_def plain_region_def map_text_def isspace_def uchar_def show_int_def show_hex.simps show_nat.simps)
  from map_readers_agree [OF this] show ?thesis by (simp add: map_sample_def call_of_def)
qed

end
