(* ===== verification/Gdb_Native.thy ===== *)
theory Gdb_Native
  imports Gdb_Dfly
begin

text \<open>
  gdb's native targets for DragonFly: \<^verbatim>\<open>devel/gdb761/newport/files/gdb\<close> (\<^verbatim>\<open>amd64dfly-nat.c\<close>,
  \<^verbatim>\<open>i386dfly-nat.c\<close>, \<^verbatim>\<open>amd64dfly-tdep.c\<close>, \<^verbatim>\<open>i386dfly-tdep.c\<close>) and \<^verbatim>\<open>devel/gdb/dragonfly/amd64-dfly-nat.c\<close>.

  The start of the native target corrects the tables of \<open>Gdb_Dfly\<close> by the offsets of the system's own
  headers and finds the signal trampoline; the start of an architecture copies them into gdb's record.  gdb's
  own functions, \<open>ptrace\<close> and \<open>sysctl\<close> are arguments; a register cache is a map from gdb's numbers.
\<close>

unbundle bit_operations_syntax

type_synonym regcache = "nat \<Rightarrow> (64 word) option"

text \<open>gdb's numbers.\<close>

definition AMD64_RBX_REGNUM :: nat where "AMD64_RBX_REGNUM = 1"
definition AMD64_RBP_REGNUM :: nat where "AMD64_RBP_REGNUM = 6"
definition AMD64_RSP_REGNUM :: nat where "AMD64_RSP_REGNUM = 7"
definition AMD64_RIP_REGNUM :: nat where "AMD64_RIP_REGNUM = 16"
definition I386_EFLAGS_REGNUM :: nat where "I386_EFLAGS_REGNUM = 9"

section \<open>The registers of a thread that is switched off\<close>

record pcb64 =
  pcb_rip :: "64 word"
  pcb_rbx :: "64 word"
  pcb_rsp :: "64 word"
  pcb_rbp :: "64 word"
  pcb_r12 :: "64 word"
  pcb_r13 :: "64 word"
  pcb_r14 :: "64 word"
  pcb_r15 :: "64 word"
  pcb_segs :: "(64 word) list"

text \<open>\<open>old\<close> is the condition on the system's version under which the segment registers ds, es, fs and gs (20 to 23)
  are in the structure.  The stack pointer is changed in the caller's structure.\<close>

definition amd64dfly_supply_pcb :: "bool \<Rightarrow> regcache \<Rightarrow> pcb64 \<Rightarrow> int \<times> regcache \<times> pcb64" where
  "amd64dfly_supply_pcb old rc pcb =
     (if pcb_rsp pcb = 0 then (0, rc, pcb)
      else
        (let pcb = pcb\<lparr>pcb_rsp := pcb_rsp pcb + 8\<rparr>;
             rc = rc(AMD64_RIP_REGNUM \<mapsto> pcb_rip pcb, AMD64_RBX_REGNUM \<mapsto> pcb_rbx pcb,
                     AMD64_RSP_REGNUM \<mapsto> pcb_rsp pcb, AMD64_RBP_REGNUM \<mapsto> pcb_rbp pcb,
                     12 \<mapsto> pcb_r12 pcb, 13 \<mapsto> pcb_r13 pcb, 14 \<mapsto> pcb_r14 pcb, 15 \<mapsto> pcb_r15 pcb);
             rc = (if old then rc([20, 21, 22, 23] [\<mapsto>] pcb_segs pcb) else rc)
         in (1, rc, pcb)))"

record pcb32 =
  pcb_edi :: "64 word"
  pcb_esi :: "64 word"
  pcb_ebp :: "64 word"
  pcb_esp :: "32 word"
  pcb_ebx :: "64 word"
  pcb_eip :: "64 word"
  pcb_gs :: "64 word"

definition i386dfly_supply_pcb :: "regcache \<Rightarrow> pcb32 \<Rightarrow> int \<times> regcache \<times> pcb32" where
  "i386dfly_supply_pcb rc pcb =
     (if pcb_esp pcb = 0 then (0, rc, pcb)
      else
        (let pcb = pcb\<lparr>pcb_esp := pcb_esp pcb + 4\<rparr> in
         (1, rc(7 \<mapsto> pcb_edi pcb, 6 \<mapsto> pcb_esi pcb, 5 \<mapsto> pcb_ebp pcb, 4 \<mapsto> ucast (pcb_esp pcb),
                3 \<mapsto> pcb_ebx pcb, 8 \<mapsto> pcb_eip pcb, 15 \<mapsto> pcb_gs pcb), pcb)))"

section \<open>Resuming\<close>

datatype pt_request = PT_STEP | PT_CONTINUE

text \<open>The call of \<open>ptrace\<close>, with request, process and signal, and the registers afterwards; \<open>None\<close> when the flags
  cannot be read, as the code then uses a variable that is not set.\<close>

definition i386dfly_resume ::
  "('s \<Rightarrow> int) \<Rightarrow> int \<Rightarrow> int \<Rightarrow> bool \<Rightarrow> 's \<Rightarrow> regcache \<Rightarrow> ((pt_request \<times> int \<times> int) \<times> regcache) option"
where
  "i386dfly_resume to_host inferior_pid pid stepping signal rc =
     (let pid = (if pid = - 1 then inferior_pid else pid) in
      if \<not> stepping then
        (case rc I386_EFLAGS_REGNUM of
           None \<Rightarrow> None
         | Some eflags \<Rightarrow>
             Some ((PT_CONTINUE, pid, to_host signal),
               if eflags AND 0x0100 \<noteq> 0 then rc(I386_EFLAGS_REGNUM \<mapsto> eflags AND NOT 0x0100) else rc))
      else Some ((PT_STEP, pid, to_host signal), rc))"

section \<open>Kernels that run as a process\<close>

definition nul_byte :: char where
  "nul_byte = CHR 0x00"

fun strncmp_same :: "nat \<Rightarrow> char list \<Rightarrow> char list \<Rightarrow> bool" where
  "strncmp_same 0 a b = True"
| "strncmp_same (Suc n) (x # a) (y # b) = (x = y \<and> (x = nul_byte \<or> strncmp_same n a b))"
| "strncmp_same (Suc n) a b = False"

text \<open>\<open>buf\<close> is what the \<open>sysctl\<close> writes, with its NUL.\<close>

definition is_vkernel :: "char list option \<Rightarrow> bool" where
  "is_vkernel buf =
     (case buf of None \<Rightarrow> False | Some b \<Rightarrow> strncmp_same (length b) (''vkernel'' @ [nul_byte]) b)"

datatype mourn_call = Cleanup_dregs | Super_mourn

definition amd64dfly_mourn_inferior :: "bool \<Rightarrow> bool \<Rightarrow> mourn_call list" where
  "amd64dfly_mourn_inferior have_getdbregs vkernel =
     (if have_getdbregs \<and> \<not> vkernel then [Cleanup_dregs] else []) @ [Super_mourn]"

section \<open>Starting the native target\<close>

text \<open>The members of \<open>struct reg\<close> in the order of gdb's numbers.\<close>

datatype reg_member =
  R_rax | R_rbx | R_rcx | R_rdx | R_rsi | R_rdi | R_rbp | R_rsp | R_r8 | R_r9 | R_r10 | R_r11 | R_r12 | R_r13 |
  R_r14 | R_r15 | R_rip | R_rflags | R_cs | R_ss

definition amd64dfly64_r_reg_offset :: "(reg_member \<Rightarrow> int) \<Rightarrow> int list" where
  "amd64dfly64_r_reg_offset offsetof =
     map offsetof [R_rax, R_rbx, R_rcx, R_rdx, R_rsi, R_rdi, R_rbp, R_rsp, R_r8, R_r9, R_r10, R_r11, R_r12, R_r13,
       R_r14, R_r15, R_rip, R_rflags, R_cs, R_ss] @ [- 1, - 1, - 1, - 1]"

record nat_state =
  gregset32_offsets :: "int list"
  gregset64_offsets :: "int list"
  sc_table :: "int list"
  tramp_start :: "64 word"
  tramp_end :: "64 word"
  debug_length :: "nat option"
  mourn_ours :: bool
  kvm_target :: bool
  warned :: "(int \<times> int) list"

text \<open>The state before: the tables as they are written, the addresses of the tdep file.\<close>

definition nat_start :: nat_state where
  "nat_start =
    \<lparr>gregset32_offsets = [], gregset64_offsets = [], sc_table = amd64dfly_sc_reg_offset,
     tramp_start = 0x7fffffffffc0, tramp_end = 0x7fffffffffe0, debug_length = None, mourn_ours = False,
     kvm_target = False, warned = []\<rparr>"

text \<open>A warning when the table differs from the header, then the header's offset.\<close>

definition correct_offset :: "nat \<Rightarrow> int \<Rightarrow> nat_state \<Rightarrow> nat_state" where
  "correct_offset r offset st =
     (let old = sc_table st ! r in
      st\<lparr>warned := (if old \<noteq> offset then warned st @ [(offset, old)] else warned st),
         sc_table := (sc_table st)[r := offset]\<rparr>)"

record nat_system =
  have_getdbregs :: bool
  pcb_supply :: bool
  guest :: "char list option"
  off_reg :: "reg_member \<Rightarrow> int"
  off_sc_rip :: int
  off_sc_rsp :: int
  off_sc_rbp :: int
  ps_strings :: "(64 word) option"
  ksigtramp :: "((64 word) \<times> (64 word)) option option"

definition correct_offsets :: "nat_system \<Rightarrow> nat_state \<Rightarrow> nat_state" where
  "correct_offsets sys st =
     correct_offset AMD64_RBP_REGNUM (off_sc_rbp sys)
       (correct_offset AMD64_RSP_REGNUM (off_sc_rsp sys)
         (correct_offset AMD64_RIP_REGNUM (off_sc_rip sys) st))"

definition tramp_below :: "(64 word) option \<Rightarrow> 64 word \<Rightarrow> nat_state \<Rightarrow> nat_state" where
  "tramp_below ps n st =
     (case ps of None \<Rightarrow> st | Some p \<Rightarrow> st\<lparr>tramp_start := p - n, tramp_end := p\<rparr>)"

text \<open>gdb 7.6.1, 64 bits.\<close>

definition initialize_amd64dfly_nat :: "nat_system \<Rightarrow> nat_state \<Rightarrow> nat_state" where
  "initialize_amd64dfly_nat sys st =
     (let st = st\<lparr>gregset32_offsets := amd64dfly32_r_reg_offset,
                  gregset64_offsets := amd64dfly64_r_reg_offset (off_reg sys)\<rparr>;
          st = (if have_getdbregs sys \<and> \<not> is_vkernel (guest sys) then st\<lparr>debug_length := Some 8\<rparr> else st);
          st = st\<lparr>mourn_ours := True\<rparr>;
          st = (if pcb_supply sys then st\<lparr>kvm_target := True\<rparr> else st)
      in tramp_below (ps_strings sys) 32 (correct_offsets sys st))"

text \<open>gdb 7.6.1, 32 bits.\<close>

definition initialize_i386dfly_nat :: "nat_system \<Rightarrow> nat_state \<Rightarrow> nat_state" where
  "initialize_i386dfly_nat sys st =
     (let st = (if have_getdbregs sys then st\<lparr>debug_length := Some 4\<rparr> else st);
          st = (if pcb_supply sys then st\<lparr>kvm_target := True\<rparr> else st)
      in tramp_below (ps_strings sys) 128 st)"

text \<open>The newer gdb: \<open>ksigtramp\<close> is the kernel's own answer where the system can give one.\<close>

definition initialize_amd64_dfly_nat :: "nat_system \<Rightarrow> nat_state \<Rightarrow> nat_state" where
  "initialize_amd64_dfly_nat sys st =
     (let st = st\<lparr>gregset32_offsets := amd64dfly32_r_reg_offset,
                  gregset64_offsets := amd64dfly64_r_reg_offset (off_reg sys)\<rparr>;
          st = (if pcb_supply sys then st\<lparr>kvm_target := True\<rparr> else st);
          st = correct_offsets sys st
      in case ksigtramp sys of
           Some None \<Rightarrow> st
         | Some (Some (s, e)) \<Rightarrow> st\<lparr>tramp_start := s, tramp_end := e\<rparr>
         | None \<Rightarrow> tramp_below (ps_strings sys) 32 st)"

section \<open>Starting an architecture\<close>

record tdep =
  gregset_reg_offset :: "int list"
  gregset_num_regs :: nat
  sizeof_gregset :: int
  sigtramp_start :: "64 word"
  sigtramp_end :: "64 word"
  sigcontext_addr :: "(64 word \<Rightarrow> 64 word) option"
  sc_reg_offset :: "int list"
  sc_num_regs :: nat

text \<open>gdb 7.6.1; gdb's own initialisations for BSD systems, for amd64 and for ELF are arguments.\<close>

definition amd64dfly_init_abi :: "(tdep \<Rightarrow> tdep) \<Rightarrow> (tdep \<Rightarrow> tdep) \<Rightarrow> nat_state \<Rightarrow> tdep \<Rightarrow> tdep" where
  "amd64dfly_init_abi i386bsd_init amd64_init st t =
     (let t = i386bsd_init t;
          t = t\<lparr>gregset_reg_offset := amd64dfly_r_reg_offset, gregset_num_regs := length amd64dfly_r_reg_offset,
                sizeof_gregset := 25 * 8\<rparr>;
          t = amd64_init t
      in t\<lparr>sigtramp_start := tramp_start st, sigtramp_end := tramp_end st,
           sigcontext_addr := Some amd64dfly_sigcontext_addr,
           sc_reg_offset := sc_table st, sc_num_regs := length (sc_table st)\<rparr>)"

definition i386dfly_init_abi :: "(tdep \<Rightarrow> tdep) \<Rightarrow> tdep \<Rightarrow> tdep" where
  "i386dfly_init_abi i386_elf_init t =
     (i386_elf_init t)
       \<lparr>gregset_reg_offset := i386dfly_r_reg_offset, gregset_num_regs := length i386dfly_r_reg_offset,
        sizeof_gregset := 80, sc_reg_offset := i386dfly_sc_reg_offset, sc_num_regs := length i386dfly_sc_reg_offset\<rparr>"

text \<open>The newer gdb starts the parts common to DragonFly first.\<close>

definition amd64_dfly_init_abi ::
  "(tdep \<Rightarrow> tdep) \<Rightarrow> (tdep \<Rightarrow> tdep) \<Rightarrow> (tdep \<Rightarrow> tdep) \<Rightarrow> nat_state \<Rightarrow> tdep \<Rightarrow> tdep"
where
  "amd64_dfly_init_abi dfly_init i386bsd_init amd64_init st t =
     (let t = i386bsd_init (dfly_init t);
          t = t\<lparr>gregset_reg_offset := amd64dfly_r_reg_offset, gregset_num_regs := length amd64dfly_r_reg_offset,
                sizeof_gregset := 25 * 8\<rparr>;
          t = amd64_init t
      in t\<lparr>sigtramp_start := tramp_start st, sigtramp_end := tramp_end st,
           sigcontext_addr := Some amd64dfly_sigcontext_addr,
           sc_reg_offset := sc_table st, sc_num_regs := length (sc_table st)\<rparr>)"

definition i386_dfly_init_abi :: "(tdep \<Rightarrow> tdep) \<Rightarrow> (tdep \<Rightarrow> tdep) \<Rightarrow> (tdep \<Rightarrow> tdep) \<Rightarrow> tdep \<Rightarrow> tdep" where
  "i386_dfly_init_abi dfly_init i386bsd_init i386_elf_init t =
     (i386_elf_init (i386bsd_init (dfly_init t)))
       \<lparr>gregset_reg_offset := i386dfly_r_reg_offset, gregset_num_regs := length i386dfly_r_reg_offset,
        sizeof_gregset := 80, sc_reg_offset := i386dfly_sc_reg_offset, sc_num_regs := length i386dfly_sc_reg_offset\<rparr>"

section \<open>The description of a process's registers\<close>

text \<open>\<open>probed\<close>, the mask \<open>xcr0\<close> and the length of the save area outlive the calls.\<close>

record xsave_state =
  xs_probed :: bool
  xs_mask :: "64 word"
  xs_len :: nat

datatype target_desc = Amd64_desc "64 word" | I386_desc "64 word"

text \<open>\<open>cs\<close> is the code segment, \<open>None\<close> when the registers cannot be read; \<open>user_cs\<close> is that of 64-bit code, \<open>sse\<close>
  gdb's mask for SSE, \<open>info\<close> the length and the mask that the kernel gives.\<close>

definition read_description ::
  "bool \<Rightarrow> 64 word \<Rightarrow> 64 word \<Rightarrow> (64 word) option \<Rightarrow> (nat \<times> 64 word) option \<Rightarrow> xsave_state \<Rightarrow>
   target_desc option \<times> xsave_state"
where
  "read_description have_xstate user_cs sse cs info xs =
     (case cs of
        None \<Rightarrow> (None, xs)
      | Some c \<Rightarrow>
          (let is64 = (c = user_cs);
               xs = (if have_xstate \<and> \<not> xs_probed xs
                     then (case info of None \<Rightarrow> xs | Some (l, m) \<Rightarrow> xs\<lparr>xs_len := l, xs_mask := m\<rparr>)\<lparr>xs_probed := True\<rparr>
                     else xs);
               m = (if have_xstate \<and> xs_len xs \<noteq> 0 then xs_mask xs else sse)
           in (Some (if is64 then Amd64_desc m else I386_desc m), xs)))"

section \<open>Events of a started process\<close>

record event_system =
  has_event_mask :: bool
  has_vfork_event :: bool
  has_follow_fork :: bool
  has_lwp_events :: bool
  PTRACE_FORK :: "32 word"
  PTRACE_LWP :: "32 word"
  PTRACE_VFORK :: "32 word"

datatype pt_event_call = Get_event_mask | Set_event_mask "32 word" | Follow_fork | Lwp_events

text \<open>The calls of \<open>ptrace\<close> up to the first that fails, and whether one did.  \<open>ok\<close> says which succeed, \<open>mask\<close> is the
  mask that is read.\<close>

definition post_startup_inferior ::
  "event_system \<Rightarrow> (pt_event_call \<Rightarrow> bool) \<Rightarrow> 32 word \<Rightarrow> pt_event_call list \<times> bool"
where
  "post_startup_inferior sys ok evmask =
     (if has_event_mask sys then
        (if \<not> ok Get_event_mask then ([Get_event_mask], False)
         else
           (let evmask = evmask OR (PTRACE_FORK sys OR PTRACE_LWP sys);
                evmask = (if has_vfork_event sys then evmask OR PTRACE_VFORK sys else evmask)
            in ([Get_event_mask, Set_event_mask evmask], ok (Set_event_mask evmask))))
      else
        (let fork = (if has_follow_fork sys then [Follow_fork] else []) in
         if has_follow_fork sys \<and> \<not> ok Follow_fork then (fork, False)
         else if has_lwp_events sys then (fork @ [Lwp_events], ok Lwp_events)
         else (fork, True)))"

section \<open>Lemmas\<close>

lemma strncmp_self: "nul_byte \<notin> set a \<Longrightarrow> strncmp_same n (a @ [nul_byte]) (a @ nul_byte # r)"
proof (induction a arbitrary: n)
  case Nil
  then show ?case by (cases n) (auto simp: nul_byte_def)
next
  case (Cons c a)
  then show ?case by (cases n) auto
qed

lemma strncmp_differs:
  "nul_byte \<notin> set a \<Longrightarrow> nul_byte \<notin> set b \<Longrightarrow>
   strncmp_same (length b + 1) (a @ [nul_byte]) (b @ [nul_byte]) \<Longrightarrow> a = b"
proof (induction b arbitrary: a)
  case Nil
  then show ?case by (cases a) auto
next
  case (Cons c b)
  then show ?case by (cases a) auto
qed

text \<open>A guest's name, with its NUL, is that of a vkernel exactly when it is \<open>vkernel\<close>; an empty answer is taken for
  one, too.\<close>

lemma is_vkernel_iff: "nul_byte \<notin> set b \<Longrightarrow> is_vkernel (Some (b @ [nul_byte])) \<longleftrightarrow> b = ''vkernel''"
  using strncmp_self [of "''vkernel''" "length b + 1" "[]"] strncmp_differs [of "''vkernel''" b]
  by (auto simp: is_vkernel_def nul_byte_def)

lemma is_vkernel_empty: "is_vkernel (Some [])"
  by (simp add: is_vkernel_def)

lemma correct_offsets_simps:
  assumes "length (sc_table st) = 24"
  shows "sc_table (correct_offsets sys st) = (sc_table st)[16 := off_sc_rip sys, 7 := off_sc_rsp sys, 6 := off_sc_rbp sys]"
    "tramp_start (correct_offsets sys st) = tramp_start st" "tramp_end (correct_offsets sys st) = tramp_end st"
    "warned (correct_offsets sys st) = warned st @
      filter (\<lambda>(n, old). old \<noteq> n)
        [(off_sc_rip sys, sc_table st ! 16), (off_sc_rsp sys, sc_table st ! 7), (off_sc_rbp sys, sc_table st ! 6)]"
  using assms
  by (auto simp: correct_offsets_def correct_offset_def Let_def AMD64_RIP_REGNUM_def AMD64_RSP_REGNUM_def AMD64_RBP_REGNUM_def)

lemma tramp_below_simps [simp]:
  "sc_table (tramp_below ps n st) = sc_table st" "warned (tramp_below ps n st) = warned st"
  "tramp_start (tramp_below ps n st) = (case ps of None \<Rightarrow> tramp_start st | Some p \<Rightarrow> p - n)"
  "tramp_end (tramp_below ps n st) = (case ps of None \<Rightarrow> tramp_end st | Some p \<Rightarrow> p)"
  by (simp_all add: tramp_below_def split: option.splits)

section \<open>Properties\<close>

text \<open>The native target and an architecture that is started after it: the record gets the header's offsets
  of the program counter and of the two stack registers in a signal context and leaves the other offsets as in the
  table, with a warning for each of the three that differed; the trampoline is what the
  system says, 32 bytes below \<open>ps_strings\<close>, or that of the table when it says nothing.  The record for 32
  bits does not get the trampoline at all.\<close>

theorem native_target_corrects:
  assumes "st = initialize_amd64dfly_nat sys nat_start" "t = amd64dfly_init_abi bsd ainit st t0"
  shows "sc_reg_offset t = amd64dfly_sc_reg_offset[16 := off_sc_rip sys, 7 := off_sc_rsp sys, 6 := off_sc_rbp sys] \<and>
    sc_num_regs t = 24 \<and>
    warned st = filter (\<lambda>(n, old). old \<noteq> n)
      [(off_sc_rip sys, 24 + 20 * 8), (off_sc_rsp sys, 24 + 23 * 8), (off_sc_rbp sys, 24 + 8 * 8)] \<and>
    (sigtramp_start t, sigtramp_end t) =
      (case ps_strings sys of None \<Rightarrow> (0x7fffffffffc0, 0x7fffffffffe0) | Some p \<Rightarrow> (p - 32, p)) \<and>
    sigtramp_start (i386dfly_init_abi elf t0) = sigtramp_start (elf t0)"
proof -
  define s where "s = nat_start\<lparr>gregset32_offsets := amd64dfly32_r_reg_offset,
    gregset64_offsets := amd64dfly64_r_reg_offset (off_reg sys),
    debug_length := (if have_getdbregs sys \<and> \<not> is_vkernel (guest sys) then Some 8 else None),
    mourn_ours := True, kvm_target := pcb_supply sys\<rparr>"
  have s: "sc_table s = amd64dfly_sc_reg_offset" "warned s = []" "tramp_start s = 0x7fffffffffc0"
    "tramp_end s = 0x7fffffffffe0" "length (sc_table s) = 24"
    by (simp_all add: s_def nat_start_def amd64dfly_sc_reg_offset_def)
  have st: "st = tramp_below (ps_strings sys) 32 (correct_offsets sys s)"
    using assms(1) by (simp add: initialize_amd64dfly_nat_def s_def nat_start_def Let_def)
  show ?thesis
    unfolding assms(2) st using s(1-4) correct_offsets_simps [OF s(5), of sys]
    by (simp add: amd64dfly_init_abi_def i386dfly_init_abi_def Let_def amd64dfly_sc_reg_offset_def split: option.splits)
qed

definition native_sample :: nat_system where
  "native_sample =
    \<lparr>have_getdbregs = True, pcb_supply = False, guest = None, off_reg = (\<lambda>m. 0), off_sc_rip = 184, off_sc_rsp = 216,
     off_sc_rbp = 88, ps_strings = Some 0x7ffffffff000, ksigtramp = None\<rparr>"

definition tdep_sample :: tdep where
  "tdep_sample =
    \<lparr>gregset_reg_offset = [], gregset_num_regs = 0, sizeof_gregset = 0, sigtramp_start = 0, sigtramp_end = 0,
     sigcontext_addr = None, sc_reg_offset = [], sc_num_regs = 0\<rparr>"

lemma native_target_corrects_witness:
  "warned (initialize_amd64dfly_nat native_sample nat_start) = [(216, 208)] \<and>
   sigtramp_start (amd64dfly_init_abi id id (initialize_amd64dfly_nat native_sample nat_start) tdep_sample) =
     0x7fffffffefe0"
  using native_target_corrects [where st = "initialize_amd64dfly_nat native_sample nat_start" and t = "amd64dfly_init_abi id id (initialize_amd64dfly_nat native_sample nat_start) tdep_sample" and sys = native_sample and bsd = id and ainit = id and t0 = tdep_sample] by (simp add: native_sample_def)

text \<open>Both versions of gdb set up the same record, up to what is common to DragonFly.\<close>

lemma init_abi_versions:
  "amd64_dfly_init_abi dfly bsd ainit st t = amd64dfly_init_abi (bsd \<circ> dfly) ainit st t"
  "i386_dfly_init_abi dfly bsd elf t = i386dfly_init_abi (elf \<circ> bsd \<circ> dfly) t"
  by (simp_all add: amd64_dfly_init_abi_def amd64dfly_init_abi_def i386_dfly_init_abi_def i386dfly_init_abi_def)

text \<open>A process that is resumed without stepping does not trace: the trace flag is clear when it continues,
  no other bit of the flags and no other register has changed; stepping changes nothing.\<close>

theorem resume_clears_trace:
  assumes "i386dfly_resume to_host ipid pid stepping sig rc = Some ((req, p, s), rc')"
  shows "p = (if pid = - 1 then ipid else pid) \<and> s = to_host sig \<and>
    (if stepping then req = PT_STEP \<and> rc' = rc
     else req = PT_CONTINUE \<and>
       (\<exists>fl. rc I386_EFLAGS_REGNUM = Some fl \<and> rc' = rc(I386_EFLAGS_REGNUM \<mapsto> fl AND NOT 0x0100)))"
proof -
  have "fl AND NOT 0x0100 = fl" if "fl AND 0x0100 = 0" for fl :: "64 word"
  proof -
    have "fl = (fl AND 0x0100) OR (fl AND NOT 0x0100)" by (simp add: bit_eq_iff bit_simps) blast
    then show ?thesis using that by simp
  qed
  then show ?thesis
    using assms by (auto simp: i386dfly_resume_def Let_def fun_upd_idem split: option.splits if_splits)
qed

lemma resume_clears_trace_witness:
  "\<exists>rc'. i386dfly_resume id 7 (- 1) False (0 :: int) [I386_EFLAGS_REGNUM \<mapsto> 0x302] = Some ((PT_CONTINUE, 7, 0), rc') \<and>
     rc' I386_EFLAGS_REGNUM = Some 0x202"
proof -
  obtain q p s rc' where r: "i386dfly_resume id 7 (- 1) False (0 :: int) [I386_EFLAGS_REGNUM \<mapsto> 0x302] = Some ((q, p, s), rc')"
    by (simp add: i386dfly_resume_def)
  show ?thesis using resume_clears_trace [OF r] r by auto
qed

text \<open>The mask is probed once: later descriptions have the mask of the first, whatever the kernel says then.\<close>

lemma description_probed_once:
  assumes "read_description True u sse (Some c) info xs = (d, xs1)"
  shows "read_description True u sse (Some c') info' xs1 =
      (Some ((if c' = u then Amd64_desc else I386_desc) (if xs_len xs1 \<noteq> 0 then xs_mask xs1 else sse)), xs1)"
proof -
  have "xs_probed xs1"
    using assms by (auto simp: read_description_def Let_def split: option.splits if_splits prod.splits)
  then show ?thesis by (simp add: read_description_def)
qed

text \<open>A started process reports its forks and threads when no call fails, and keeps the events it had.\<close>

lemma post_startup_events:
  "has_event_mask sys \<Longrightarrow> post_startup_inferior sys ok m = (calls, True) \<Longrightarrow>
   \<exists>m'. calls = [Get_event_mask, Set_event_mask m'] \<and> m AND NOT m' = 0 \<and> PTRACE_FORK sys AND NOT m' = 0 \<and>
     PTRACE_LWP sys AND NOT m' = 0 \<and> (has_vfork_event sys \<longrightarrow> PTRACE_VFORK sys AND NOT m' = 0)"
  by (auto simp: post_startup_inferior_def Let_def bit_eq_iff bit_simps split: if_splits)

end
