(* ===== verification/Anon_Files.thy ===== *)
theory Anon_Files
  imports Prelude
begin

text \<open>
  Files without a name, for systems that lack \<open>memfd_create\<close> and \<open>eventfd\<close>: xdg-desktop-portal
  (\<^verbatim>\<open>dragonfly/patch-src_xdp-sealed-fd.c\<close>), pipewire (\<^verbatim>\<open>dragonfly/patch-spa_plugins_support_system.c\<close>) and arcan
  (\<^verbatim>\<open>dragonfly/patch-platform_posix_shmemop.c\<close>).

  All three make a file under some name and unlink it at once.  A directory is the set of its names; what the
  system calls return is an argument.  The portal also copies a file that it was sent, in a loop over
  \<open>pread\<close> that ends because each turn moves the offset.  The lemmas show that no name is left behind, and
  that the copy is the file.
\<close>

type_synonym dir_names = "c_string set"

text \<open>\<open>unlink\<close>; a failure is not looked at by the callers.\<close>

definition unlink_name :: "bool \<Rightarrow> c_string \<Rightarrow> dir_names \<Rightarrow> dir_names" where
  "unlink_name ok name ns = (if ok then ns - {name} else ns)"

section \<open>xdg-desktop-portal\<close>

text \<open>\<open>made\<close> is the descriptor and the name of \<open>g_mkstemp_full\<close>, if it could make a file.\<close>

definition dfly_open_private_tmpfile :: "(int \<times> c_string) option \<Rightarrow> bool \<Rightarrow> dir_names \<Rightarrow> int \<times> dir_names" where
  "dfly_open_private_tmpfile made unl ns =
     (case made of
        None \<Rightarrow> (- 1, ns)
      | Some (fd, tmpl) \<Rightarrow> (fd, unlink_name unl tmpl (insert tmpl ns)))"

datatype xdp_error = Fstat_failed | Not_regular_file | Pread_failed

text \<open>The loop: the number of the call, the offset, the bytes so far.\<close>

function pread_loop ::
  "(nat \<Rightarrow> int \<Rightarrow> nat \<Rightarrow> 'a list option) \<Rightarrow> int \<Rightarrow> nat \<Rightarrow> int \<Rightarrow> 'a list \<Rightarrow> xdp_error + 'a list"
where
  "pread_loop pread st_size k off array =
     (if off < st_size then
        (case pread k off (nat (min 16384 (st_size - off))) of
           None \<Rightarrow> Inl Pread_failed
         | Some buf \<Rightarrow>
             if buf = [] then Inr array
             else pread_loop pread st_size (k + 1) (off + int (length buf)) (array @ buf))
      else Inr array)"
  by pat_completeness auto
termination
  by (relation "measure (\<lambda>(pread, st_size, k, off, array). nat (st_size - off))") auto

declare pread_loop.simps [simp del]

text \<open>\<open>st\<close> is what \<open>fstat\<close> returns: whether the file is a regular one, and its size.\<close>

definition dfly_read_regular_fd ::
  "(bool \<times> int) option \<Rightarrow> (nat \<Rightarrow> int \<Rightarrow> nat \<Rightarrow> 'a list option) \<Rightarrow> xdp_error + 'a list"
where
  "dfly_read_regular_fd st pread =
     (case st of
        None \<Rightarrow> Inl Fstat_failed
      | Some (regular, st_size) \<Rightarrow>
          if \<not> regular then Inl Not_regular_file else pread_loop pread st_size 0 0 [])"

section \<open>pipewire\<close>

text \<open>The name, cut to the buffer of 64 bytes.\<close>

definition eventfd_path :: "int \<Rightarrow> int \<Rightarrow> c_string" where
  "eventfd_path pid serial = take 63 (''/tmp/.spa-eventfd-'' @ show_int pid @ ''-'' @ show_int serial)"

datatype open_flag = O_RDWR | O_CLOEXEC | O_NONBLOCK

definition open_flags :: "bool \<Rightarrow> bool \<Rightarrow> open_flag list" where
  "open_flags cloexec nonblock =
     [O_RDWR] @ (if cloexec then [O_CLOEXEC] else []) @ (if nonblock then [O_NONBLOCK] else [])"

definition EEXIST :: int where
  "EEXIST = 17"

record fifo_env =
  ff_pid :: int
  ff_mkfifo :: "int option"
  ff_open :: "open_flag list \<Rightarrow> int + int"
  ff_unlink :: bool

text \<open>The value, the names, and the next serial number.  \<open>ff_mkfifo\<close> is the error of \<open>mkfifo\<close> but for that
  of a name that exists already, \<open>ff_open\<close> the error or the descriptor of \<open>open\<close>.\<close>

definition impl_eventfd_create ::
  "fifo_env \<Rightarrow> bool \<Rightarrow> bool \<Rightarrow> dir_names \<Rightarrow> 32 word \<Rightarrow> int \<times> dir_names \<times> 32 word"
where
  "impl_eventfd_create env cloexec nonblock ns serial =
     (let path = eventfd_path (ff_pid env) (sint serial); serial = serial + 1 in
      if path \<in> ns then (- EEXIST, ns, serial)
      else
        (case ff_mkfifo env of
           Some errno \<Rightarrow> (- errno, ns, serial)
         | None \<Rightarrow>
             (let ns = insert path ns in
              case ff_open env (open_flags cloexec nonblock) of
                Inl errno \<Rightarrow> (- errno, unlink_name (ff_unlink env) path ns, serial)
              | Inr fd \<Rightarrow> (fd, unlink_name (ff_unlink env) path ns, serial))))"

section \<open>arcan\<close>

definition shm_name :: "8 word list \<Rightarrow> c_string" where
  "shm_name rnd = take 7 ''/shmif-XXXXXXXXXX'' @ map (\<lambda>i. char_of (97 + unat (rnd ! i) mod 26)) [0..<10]"

record shm_env =
  shm_rnd :: "nat \<Rightarrow> 8 word list"
  shm_fd :: "nat \<Rightarrow> int option"
  shm_unlink_ok :: "nat \<Rightarrow> bool"

text \<open>\<open>shm_open\<close> with \<open>O_CREAT\<close> and \<open>O_EXCL\<close>: \<open>shm_fd\<close> is \<open>None\<close> when it fails although the name is new.\<close>

fun shm_tries :: "shm_env \<Rightarrow> nat list \<Rightarrow> dir_names \<Rightarrow> int \<times> dir_names" where
  "shm_tries env [] ns = (- 1, ns)"
| "shm_tries env (tries # ks) ns =
     (let name = shm_name (shm_rnd env tries) in
      if name \<in> ns then shm_tries env ks ns
      else
        (case shm_fd env tries of
           None \<Rightarrow> (- 1, ns)
         | Some fd \<Rightarrow> (fd, unlink_name (shm_unlink_ok env tries) name (insert name ns))))"

definition platform_fsrv_shmmem :: "shm_env \<Rightarrow> dir_names \<Rightarrow> int \<times> dir_names" where
  "platform_fsrv_shmmem env ns = shm_tries env [0..<16] ns"

section \<open>Names\<close>

lemma unlink_new [simp]: "name \<notin> ns \<Longrightarrow> unlink_name True name (insert name ns) = ns"
  by (auto simp: unlink_name_def)

lemma shm_name_letters: "length (shm_name rnd) = 17 \<and> (\<forall>c \<in> set (drop 7 (shm_name rnd)). of_char c \<in> {97..122 :: nat})"
proof -
  have "of_char (char_of (97 + k mod 26) :: char) \<in> {97..122 :: nat}" for k :: nat
  proof -
    have "k mod 26 < 26" by simp
    then have "of_char (char_of (97 + k mod 26) :: char) = 97 + k mod 26" by (simp add: of_char_of)
    with \<open>k mod 26 < 26\<close> show ?thesis by simp
  qed
  then show ?thesis by (auto simp: shm_name_def)
qed

lemma shm_tries_names:
  "(\<And>k. shm_unlink_ok env k) \<Longrightarrow> snd (shm_tries env ks ns) = ns \<and>
   (fst (shm_tries env ks ns) = - 1 \<or> (\<exists>k \<in> set ks. shm_fd env k = Some (fst (shm_tries env ks ns))))"
  by (induction ks) (auto simp: Let_def split: option.splits)

lemma eventfd_path_whole:
  "\<bar>pid\<bar> < 2 ^ 31 \<Longrightarrow> \<bar>s\<bar> \<le> 2 ^ 31 \<Longrightarrow>
   eventfd_path pid s = ''/tmp/.spa-eventfd-'' @ show_int pid @ ''-'' @ show_int s"
  using length_show_int [of pid 10] length_show_int [of s 10] by (simp add: eventfd_path_def)

section \<open>Copying\<close>

definition ends_after :: "'a list \<Rightarrow> (nat \<Rightarrow> int \<Rightarrow> nat \<Rightarrow> 'a list option) \<Rightarrow> bool" where
  "ends_after content rd \<longleftrightarrow> (\<forall>k pos r. int (length content) \<le> pos \<longrightarrow> rd k pos r = Some [])"

lemma pread_loop_file:
  assumes "reads_file content pread" "ends_after content pread"
  shows "0 \<le> off \<Longrightarrow> off \<le> st_size \<Longrightarrow>
    pread_loop pread st_size k off array = Inr (array @ take (nat (st_size - off)) (drop (nat off) content))"
proof (induction "nat (st_size - off)" arbitrary: k off array rule: less_induct)
  case less
  show ?case
  proof (cases "off < st_size \<and> off < int (length content)")
    case True
    let ?r = "nat (min 16384 (st_size - off))"
    have "0 < ?r" using True by simp
    then obtain m where m: "0 < m" "m \<le> ?r" "nat off + m \<le> length content"
      "pread k off ?r = Some (take m (drop (nat off) content))"
      using assms(1) less.prems(1) True unfolding reads_file_def by blast
    have len: "length (take m (drop (nat off) content)) = m" using m(3) by simp
    have le: "off + int m \<le> st_size" using m(2) True by (simp add: nat_le_eq_zle le_nat_iff)
    have p: "nat (off + int m) = nat off + m" "nat (st_size - off) = m + nat (st_size - (off + int m))"
      using less.prems(1) le by (simp_all add: nat_add_distrib nat_diff_distrib')
    have "pread_loop pread st_size k off array =
        pread_loop pread st_size (k + 1) (off + int m) (array @ take m (drop (nat off) content))"
      using True m(1,4) len by (subst pread_loop.simps) auto
    also have "\<dots> = Inr ((array @ take m (drop (nat off) content)) @
        take (nat (st_size - (off + int m))) (drop (nat off + m) content))"
      using less.hyps [of "off + int m" "k + 1"] less.prems(1) le m(1) p by simp
    finally show ?thesis by (simp add: p(2) take_add add.commute)
  next
    case False
    then show ?thesis
      using less.prems assms(2) by (subst pread_loop.simps) (auto simp: ends_after_def)
  qed
qed

section \<open>Properties\<close>

text \<open>C25: a file without a name: when a new name is made and \<open>unlink\<close> works, none of the three leaves a
  name behind, whether it succeeds or fails; arcan's loop returns the descriptor of one of its sixteen tries or
  \<open>- 1\<close>, its names have letters only, and pipewire's name fits its buffer.\<close>

theorem anon_files_leave_no_name:
  assumes "\<And>fd name. made = Some (fd, name) \<Longrightarrow> name \<notin> ns" "ff_unlink env" "\<And>k. shm_unlink_ok senv k"
    "\<bar>ff_pid env\<bar> < 2 ^ 31"
  shows "snd (dfly_open_private_tmpfile made True ns) = ns \<and>
    fst (snd (impl_eventfd_create env cloexec nonblock ns serial)) = ns \<and>
    snd (platform_fsrv_shmmem senv ns) = ns \<and>
    (fst (platform_fsrv_shmmem senv ns) = - 1 \<or>
     (\<exists>k \<in> {0..<16}. shm_fd senv k = Some (fst (platform_fsrv_shmmem senv ns)))) \<and>
    (\<forall>c \<in> set (drop 7 (shm_name rnd)). of_char c \<in> {97..122 :: nat}) \<and>
    eventfd_path (ff_pid env) (sint serial) =
      ''/tmp/.spa-eventfd-'' @ show_int (ff_pid env) @ ''-'' @ show_int (sint serial)"
proof (intro conjI)
  show "snd (dfly_open_private_tmpfile made True ns) = ns"
    using assms(1) by (auto simp: dfly_open_private_tmpfile_def split: option.splits)
  show "fst (snd (impl_eventfd_create env cloexec nonblock ns serial)) = ns"
    using assms(2) by (auto simp: impl_eventfd_create_def Let_def split: option.splits sum.splits)
  show "eventfd_path (ff_pid env) (sint serial) =
      ''/tmp/.spa-eventfd-'' @ show_int (ff_pid env) @ ''-'' @ show_int (sint serial)"
    using sint_lt [of serial] sint_ge [of serial] by (intro eventfd_path_whole assms(4)) auto
qed (use shm_tries_names [of senv "[0..<16]" ns] shm_name_letters assms(3) in
  \<open>simp_all add: platform_fsrv_shmmem_def\<close>)

definition fifo_sample :: fifo_env where
  "fifo_sample = \<lparr>ff_pid = 77, ff_mkfifo = None, ff_open = (\<lambda>fl. if O_NONBLOCK \<in> set fl then Inr 5 else Inl 24), ff_unlink = True\<rparr>"

definition shm_sample :: shm_env where
  "shm_sample = \<lparr>shm_rnd = (\<lambda>k. replicate 10 (of_nat k)), shm_fd = (\<lambda>k. Some (int k)), shm_unlink_ok = (\<lambda>k. True)\<rparr>"

lemma anon_files_leave_no_name_witness:
  "fst (snd (impl_eventfd_create fifo_sample True False {''x''} 0)) = {''x''} \<and>
   snd (platform_fsrv_shmmem shm_sample {''/shmif-aaaaaaaaaa''}) = {''/shmif-aaaaaaaaaa''}"
  using anon_files_leave_no_name [of None "{''x''}" fifo_sample shm_sample]
    anon_files_leave_no_name [of None "{''/shmif-aaaaaaaaaa''}" fifo_sample shm_sample]
  by (simp add: fifo_sample_def shm_sample_def)

text \<open>The portal's copy: a regular file is copied up to the size that \<open>fstat\<close> gave, or up to its end if
  it has become shorter, however \<open>pread\<close> cuts it; the loop always ends, and a failing \<open>pread\<close> gives an
  error and no bytes.\<close>

theorem xdp_copy_correct:
  fixes content :: "'a list"
  assumes "reads_file content pread" "ends_after content pread"
  shows "(0 \<le> st_size \<longrightarrow>
      dfly_read_regular_fd (Some (True, st_size)) pread = Inr (take (nat st_size) content)) \<and>
    dfly_read_regular_fd (Some (False, st_size)) rd = Inl Not_regular_file \<and>
    dfly_read_regular_fd (Some (True, st_size)) (\<lambda>k pos r. None :: 'a list option) =
      (if 0 < st_size then Inl Pread_failed else Inr [])"
  using pread_loop_file [OF assms, of 0 st_size 0 "[]"]
  by (auto simp: dfly_read_regular_fd_def pread_loop.simps [of _ _ _ 0])

lemma xdp_copy_correct_witness:
  "dfly_read_regular_fd (Some (True, 3)) (\<lambda>k pos r. Some (take 1 (drop (nat pos) ''abcd''))) = Inr ''abc'' \<and>
   dfly_read_regular_fd (Some (True, 9)) (\<lambda>k pos r. Some (take 1 (drop (nat pos) ''abcd''))) = Inr ''abcd''"
proof -
  have "reads_file ''abcd'' (\<lambda>k pos r. Some (take 1 (drop (nat pos) ''abcd'')))"
    unfolding reads_file_def by (intro allI impI exI [of _ 1]) auto
  moreover have "ends_after ''abcd'' (\<lambda>k pos r. Some (take 1 (drop (nat pos) ''abcd'')))"
    by (auto simp: ends_after_def)
  ultimately have "dfly_read_regular_fd (Some (True, n)) (\<lambda>k pos r. Some (take 1 (drop (nat pos) ''abcd''))) =
      Inr (take (nat n) ''abcd'')" if "0 \<le> n" for n
    using xdp_copy_correct [of "''abcd''" "\<lambda>k pos r. Some (take 1 (drop (nat pos) ''abcd''))" n] that by blast
  from this [of 3] this [of 9] show ?thesis by simp
qed

end
