(* ===== verification/Mailest_Tree.thy ===== *)
theory Mailest_Tree
  imports Prelude "HOL-Library.Tree"
begin

text \<open>
  The search in mailest's tree of mails, which DragonFly's \<^verbatim>\<open>sys/tree.h\<close> lacks:
  \<^verbatim>\<open>mail/mailest/dragonfly/patch-mailestd.c\<close>.

  The comparison \<open>rfc822_compar\<close> is in the part of mailest that is not in the repository; it is an argument,
  and the locale \<open>compar_order\<close> says what a comparison promises.  The locale is interpreted on \<open>strcmp\<close>.  The
  colours of the tree play no part in a search.
\<close>

section \<open>The search\<close>

text \<open>The loop: the tree at \<open>tmp\<close> and the result so far.\<close>

fun nfind_loop :: "('a \<Rightarrow> 'a \<Rightarrow> int) \<Rightarrow> 'a \<Rightarrow> 'a tree \<Rightarrow> 'a option \<Rightarrow> 'a option" where
  "nfind_loop compar elm Leaf res = res"
| "nfind_loop compar elm (Node l a r) res =
     (let comp = compar elm a in
      if comp < 0 then nfind_loop compar elm l (Some a)
      else if comp > 0 then nfind_loop compar elm r res
      else Some a)"

definition rfc822_tree_RB_NFIND :: "('a \<Rightarrow> 'a \<Rightarrow> int) \<Rightarrow> 'a tree \<Rightarrow> 'a \<Rightarrow> 'a option" where
  "rfc822_tree_RB_NFIND compar head elm = nfind_loop compar elm head None"

section \<open>The first element that is not smaller\<close>

locale compar_order =
  fixes compar :: "'a \<Rightarrow> 'a \<Rightarrow> int"
  assumes compar_neg: "compar a b < 0 \<longleftrightarrow> 0 < compar b a"
    and compar_trans: "compar a b \<le> 0 \<Longrightarrow> compar b c \<le> 0 \<Longrightarrow> compar a c \<le> 0"

context compar_order
begin

lemma compar_flip: "compar a b \<le> 0 \<longleftrightarrow> 0 \<le> compar b a"
  using compar_neg [of b a] by linarith

lemma smaller_not_found: "compar x a < 0 \<Longrightarrow> 0 \<le> compar elm a \<Longrightarrow> \<not> compar elm x \<le> 0"
  using compar_trans [of a elm x] compar_neg [of x a] compar_flip [of a elm] by auto

lemma find_skips: "\<forall>x \<in> set xs. compar x a < 0 \<Longrightarrow> 0 \<le> compar elm a \<Longrightarrow> find (\<lambda>x. compar elm x \<le> 0) xs = None"
  by (auto simp: find_None_iff dest: smaller_not_found)

lemma find_append_cases: "find P (xs @ ys) = (case find P xs of None \<Rightarrow> find P ys | Some x \<Rightarrow> Some x)"
  by (induction xs) auto

lemma nfind_loop_correct:
  "sorted_wrt (\<lambda>x y. compar x y < 0) (inorder t) \<Longrightarrow>
   nfind_loop compar elm t res =
     (case find (\<lambda>x. compar elm x \<le> 0) (inorder t) of None \<Rightarrow> res | Some x \<Rightarrow> Some x)"
proof (induction t arbitrary: res)
  case (Node l a r)
  have s: "sorted_wrt (\<lambda>x y. compar x y < 0) (inorder l)" "sorted_wrt (\<lambda>x y. compar x y < 0) (inorder r)"
    "\<forall>x \<in> set (inorder l). compar x a < 0"
    using Node.prems by (auto simp: sorted_wrt_append)
  consider "compar elm a < 0" | "0 < compar elm a" | "compar elm a = 0" by linarith
  then show ?case
    using Node.IH(1) [OF s(1)] Node.IH(2) [OF s(2)] find_skips [OF s(3)]
    by cases (auto simp: find_append_cases Let_def split: option.splits)
qed simp

end

interpretation bytes: compar_order strcmp
  by unfold_locales (use strcmp_neg in blast, use strcmp_trans in blast)

section \<open>Property\<close>

text \<open>C19: \<open>RB_NFIND\<close> refines a search along the ordered list of the tree's elements: in a search tree it
  returns the first element, in order, that is not smaller than the one looked for, and \<open>NULL\<close> exactly when
  all are smaller.\<close>

theorem nfind_correct:
  assumes "compar_order compar" "sorted_wrt (\<lambda>x y. compar x y < 0) (inorder head)"
  shows "rfc822_tree_RB_NFIND compar head elm = find (\<lambda>x. compar elm x \<le> 0) (inorder head)"
  using compar_order.nfind_loop_correct [OF assms]
  by (simp add: rfc822_tree_RB_NFIND_def split: option.splits)

definition mail_tree :: "c_string tree" where
  "mail_tree = Node (Node Leaf ''/a/1'' Leaf) ''/a/3'' (Node (Node Leaf ''/b/1'' Leaf) ''/c'' Leaf)"

lemma nfind_correct_witness:
  "rfc822_tree_RB_NFIND strcmp mail_tree ''/b'' = Some ''/b/1'' \<and> rfc822_tree_RB_NFIND strcmp mail_tree ''/d'' = None"
  using nfind_correct [OF bytes.compar_order_axioms, of mail_tree]
  by (simp add: mail_tree_def uchar_def)

end
