(* ===== verification/Proc_States.thy ===== *)
theory Proc_States
  imports Prelude
begin

text \<open>
  The state of a process as four monitors show it: xfce4-taskmanager
  (\<^verbatim>\<open>dragonfly/patch-src_task-manager-freebsd.c\<close>), libgtop (\<^verbatim>\<open>dragonfly/patch-sysdeps_freebsd_procstate.c\<close>), zabbix
  (\<^verbatim>\<open>net-mgmt/zabbix6-server/dragonfly/patch-src_libs_zbxsysinfo_dragonfly_proc.c\<close>) and collectd
  (\<^verbatim>\<open>net-mgmt/collectd5/dragonfly/patch-src_processes.c\<close>).

  All read DragonFly's \<open>kinfo_proc\<close>, in which the process has a state and its thread has one.  The flags are
  booleans.  The lemmas show that the task manager's text gives back each of them, that libgtop reports
  every process that is active as a zombie where the others agree, and what collectd counts.
\<close>

datatype procstat = SIDL | SACTIVE | SSTOP | SZOMB | Other_stat

datatype lwpstat = LSRUN | LSSLEEP | LSSTOP | Other_lwpstat

record kinfo_proc =
  kp_stat :: procstat
  kl_stat :: lwpstat
  lwp_sintr :: bool
  kp_nice :: int
  p_traced :: bool
  p_wexit :: bool
  p_ppwait :: bool
  ki_sleader :: bool
  p_controlt :: bool
  kp_pgid :: int
  kp_tpgid :: int
  p_jailed :: bool

section \<open>xfce4-taskmanager\<close>

definition state_letter :: "kinfo_proc \<Rightarrow> char" where
  "state_letter kp =
     (case kp_stat kp of
        SSTOP \<Rightarrow> CHR ''T''
      | SACTIVE \<Rightarrow>
          (case kl_stat kp of
             LSRUN \<Rightarrow> CHR ''R''
           | LSSLEEP \<Rightarrow> (if lwp_sintr kp then CHR ''S'' else CHR ''D'')
           | LSSTOP \<Rightarrow> CHR ''T''
           | _ \<Rightarrow> CHR ''?'')
      | SZOMB \<Rightarrow> CHR ''Z''
      | _ \<Rightarrow> CHR ''?'')"

text \<open>The letters behind the first; \<open>nzero\<close> is the system's \<open>NZERO\<close>.\<close>

definition task_state :: "int \<Rightarrow> kinfo_proc \<Rightarrow> c_string" where
  "task_state nzero kp =
     [state_letter kp] @
     (if kp_nice kp < nzero then ''<'' else if kp_nice kp > nzero then ''N'' else []) @
     (if p_traced kp then ''X'' else []) @
     (if p_wexit kp \<and> kp_stat kp \<noteq> SZOMB then ''E'' else []) @
     (if p_ppwait kp then ''V'' else []) @
     (if ki_sleader kp then ''s'' else []) @
     (if p_controlt kp \<and> kp_pgid kp = kp_tpgid kp then ''+'' else []) @
     (if p_jailed kp then ''J'' else [])"

definition task_stopped :: "kinfo_proc \<Rightarrow> bool" where
  "task_stopped kp \<longleftrightarrow> kp_stat kp = SSTOP"

section \<open>libgtop\<close>

datatype glibtop_state =
  GLIBTOP_PROCESS_RUNNING | GLIBTOP_PROCESS_INTERRUPTIBLE | GLIBTOP_PROCESS_STOPPED | GLIBTOP_PROCESS_ZOMBIE | No_state

text \<open>The inner \<open>switch\<close>.\<close>

definition active_state :: "lwpstat \<Rightarrow> glibtop_state" where
  "active_state l =
     (case l of
        LSRUN \<Rightarrow> GLIBTOP_PROCESS_RUNNING
      | LSSLEEP \<Rightarrow> GLIBTOP_PROCESS_INTERRUPTIBLE
      | LSSTOP \<Rightarrow> GLIBTOP_PROCESS_STOPPED
      | _ \<Rightarrow> No_state)"

text \<open>The outer \<open>switch\<close> over \<open>buf->state\<close>: the cases run from their label to the next \<open>break\<close>, and there is
  none between the case of an active process and that of a zombie.\<close>

definition case_zombie :: "glibtop_state \<Rightarrow> glibtop_state" where
  "case_zombie state = GLIBTOP_PROCESS_ZOMBIE"

definition case_active :: "kinfo_proc \<Rightarrow> glibtop_state \<Rightarrow> glibtop_state" where
  "case_active kp state = case_zombie (active_state (kl_stat kp))"

definition glibtop_proc_state :: "kinfo_proc \<Rightarrow> glibtop_state \<Rightarrow> glibtop_state" where
  "glibtop_proc_state kp state =
     (case kp_stat kp of
        SACTIVE \<Rightarrow> case_active kp state
      | SZOMB \<Rightarrow> case_zombie state
      | _ \<Rightarrow> No_state)"

section \<open>zabbix\<close>

definition lwp_status :: "kinfo_proc \<Rightarrow> lwpstat \<Rightarrow> bool" where
  "lwp_status kp s \<longleftrightarrow> kp_stat kp = SACTIVE \<and> kl_stat kp = s"

datatype zbx_stat = ZBX_STAT_RUN | ZBX_STAT_SLEEP | ZBX_STAT_ZOMB | ZBX_STAT_DISK | ZBX_STAT_TRACE

definition zbx_stat_ok :: "zbx_stat \<Rightarrow> kinfo_proc \<Rightarrow> bool" where
  "zbx_stat_ok z kp =
     (case z of
        ZBX_STAT_RUN \<Rightarrow> lwp_status kp LSRUN
      | ZBX_STAT_SLEEP \<Rightarrow> lwp_status kp LSSLEEP
      | ZBX_STAT_ZOMB \<Rightarrow> kp_stat kp = SZOMB
      | ZBX_STAT_DISK \<Rightarrow> lwp_status kp LSSLEEP
      | ZBX_STAT_TRACE \<Rightarrow> kp_stat kp = SSTOP)"

section \<open>collectd\<close>

record state_counts =
  n_running :: nat
  n_sleeping :: nat
  n_stopped :: nat
  n_zombies :: nat
  n_idle :: nat

definition no_counts :: state_counts where
  "no_counts = \<lparr>n_running = 0, n_sleeping = 0, n_stopped = 0, n_zombies = 0, n_idle = 0\<rparr>"

definition count_state :: "kinfo_proc \<Rightarrow> state_counts \<Rightarrow> state_counts" where
  "count_state kp c =
     (case kp_stat kp of
        SACTIVE \<Rightarrow>
          (case kl_stat kp of
             LSSLEEP \<Rightarrow> c\<lparr>n_sleeping := n_sleeping c + 1\<rparr>
           | LSRUN \<Rightarrow> c\<lparr>n_running := n_running c + 1\<rparr>
           | LSSTOP \<Rightarrow> c\<lparr>n_stopped := n_stopped c + 1\<rparr>
           | _ \<Rightarrow> c)
      | SSTOP \<Rightarrow> c\<lparr>n_stopped := n_stopped c + 1\<rparr>
      | SZOMB \<Rightarrow> c\<lparr>n_zombies := n_zombies c + 1\<rparr>
      | SIDL \<Rightarrow> c\<lparr>n_idle := n_idle c + 1\<rparr>
      | _ \<Rightarrow> c)"

text \<open>The loop over the entries, each with its \<open>kp_pid\<close>; \<open>proc_ptr\<close> is the pid of the last process that was counted.  An
  entry with that pid is another thread of it.\<close>

fun count_procs :: "(int \<times> kinfo_proc) list \<Rightarrow> int option \<Rightarrow> state_counts \<Rightarrow> state_counts" where
  "count_procs [] proc_ptr c = c"
| "count_procs ((pid, kp) # procs) proc_ptr c =
     (if proc_ptr = None \<or> proc_ptr \<noteq> Some pid then count_procs procs (Some pid) (count_state kp c)
      else count_procs procs proc_ptr c)"

section \<open>Counting\<close>

text \<open>The entries of a process stand together in what the kernel returns: each process has its threads, the first
  of them not being missing.\<close>

definition threads_of :: "(int \<times> kinfo_proc \<times> kinfo_proc list) list \<Rightarrow> (int \<times> kinfo_proc) list" where
  "threads_of ps = concat (map (\<lambda>(pid, kp, kps). map (Pair pid) (kp # kps)) ps)"

definition number_with :: "(kinfo_proc \<Rightarrow> bool) \<Rightarrow> (int \<times> kinfo_proc \<times> kinfo_proc list) list \<Rightarrow> nat" where
  "number_with P ps = length (filter (\<lambda>(pid, kp, kps). P kp) ps)"

lemma count_same_pid: "count_procs (map (Pair pid) kps @ rest) (Some pid) c = count_procs rest (Some pid) c"
  by (induction kps) auto

lemma count_procs_threads:
  "distinct (map fst ps) \<Longrightarrow> (\<forall>p \<in> set ps. proc_ptr \<noteq> Some (fst p)) \<Longrightarrow>
   count_procs (threads_of ps) proc_ptr c = fold (\<lambda>(pid, kp, kps). count_state kp) ps c"
proof (induction ps arbitrary: proc_ptr c)
  case Nil
  then show ?case by (simp add: threads_of_def)
next
  case (Cons p ps)
  obtain pid kp kps where p: "p = (pid, kp, kps)" by (cases p)
  have "threads_of (p # ps) = (pid, kp) # map (Pair pid) kps @ threads_of ps" by (simp add: threads_of_def p)
  moreover have "\<forall>q \<in> set ps. Some pid \<noteq> Some (fst q)" using Cons.prems(1) by (force simp: p)
  ultimately show ?case
    using Cons.IH [of "Some pid" "count_state kp c"] Cons.prems by (auto simp: p count_same_pid)
qed

definition stopped_kp :: "kinfo_proc \<Rightarrow> bool" where
  "stopped_kp kp \<longleftrightarrow> kp_stat kp = SSTOP \<or> lwp_status kp LSSTOP"

lemma fold_counts:
  "let c' = fold (\<lambda>(pid, kp, kps). count_state kp) ps c in
   n_running c' = n_running c + number_with (\<lambda>kp. lwp_status kp LSRUN) ps \<and>
   n_sleeping c' = n_sleeping c + number_with (\<lambda>kp. lwp_status kp LSSLEEP) ps \<and>
   n_stopped c' = n_stopped c + number_with stopped_kp ps \<and>
   n_zombies c' = n_zombies c + number_with (\<lambda>kp. kp_stat kp = SZOMB) ps \<and>
   n_idle c' = n_idle c + number_with (\<lambda>kp. kp_stat kp = SIDL) ps"
proof (induction ps arbitrary: c)
  case Nil
  then show ?case by (simp add: number_with_def)
next
  case (Cons p ps)
  obtain pid kp kps where p: "p = (pid, kp, kps)" by (cases p)
  show ?case
    using Cons.IH [of "count_state kp c"]
    by (cases "kp_stat kp"; cases "kl_stat kp")
      (simp_all add: p Let_def number_with_def count_state_def lwp_status_def stopped_kp_def)
qed

section \<open>Properties\<close>

text \<open>The letters of the flags are not among those of the state.\<close>

lemma state_letter_range: "state_letter kp \<in> {CHR ''T'', CHR ''R'', CHR ''S'', CHR ''D'', CHR ''Z'', CHR ''?''}"
  by (auto simp: state_letter_def split: procstat.splits lwpstat.splits)

text \<open>The text of a process's state can be read back: it has one to eight characters, the first is the
  letter of the state, and each of the others stands for its own flag, an exiting process being marked
  unless it is a zombie.\<close>

theorem task_state_readable:
  "1 \<le> length (task_state z kp) \<and> length (task_state z kp) \<le> 8 \<and> hd (task_state z kp) = state_letter kp \<and>
   (CHR ''<'' \<in> set (task_state z kp) \<longleftrightarrow> kp_nice kp < z) \<and>
   (CHR ''N'' \<in> set (task_state z kp) \<longleftrightarrow> kp_nice kp > z) \<and>
   (CHR ''X'' \<in> set (task_state z kp) \<longleftrightarrow> p_traced kp) \<and>
   (CHR ''E'' \<in> set (task_state z kp) \<longleftrightarrow> p_wexit kp \<and> kp_stat kp \<noteq> SZOMB) \<and>
   (CHR ''V'' \<in> set (task_state z kp) \<longleftrightarrow> p_ppwait kp) \<and>
   (CHR ''s'' \<in> set (task_state z kp) \<longleftrightarrow> ki_sleader kp) \<and>
   (CHR ''+'' \<in> set (task_state z kp) \<longleftrightarrow> p_controlt kp \<and> kp_pgid kp = kp_tpgid kp) \<and>
   (CHR ''J'' \<in> set (task_state z kp) \<longleftrightarrow> p_jailed kp)"
  using state_letter_range [of kp] by (intro conjI) (auto simp: task_state_def)

text \<open>Libgtop's states: because the case of an active process runs on into that of a zombie, no process
  is ever reported as running, sleeping or stopped; an active one is reported as a zombie, where the task
  manager shows a zombie only for a zombie.\<close>

theorem glibtop_active_is_zombie:
  "(glibtop_proc_state kp s = GLIBTOP_PROCESS_ZOMBIE \<longleftrightarrow> kp_stat kp = SACTIVE \<or> kp_stat kp = SZOMB) \<and>
   glibtop_proc_state kp s \<in> {GLIBTOP_PROCESS_ZOMBIE, No_state} \<and>
   (state_letter kp = CHR ''Z'' \<longleftrightarrow> kp_stat kp = SZOMB)"
  by (auto simp: glibtop_proc_state_def case_active_def case_zombie_def state_letter_def
      split: procstat.splits lwpstat.splits)

text \<open>Collectd counts each process once, by its first thread: on entries in which the threads of a process stand
  together, the number of running ones is that of the processes that zabbix takes for running and the task
  manager shows as such, likewise for zombies; sleeping and stopped ones are those of their states.\<close>

theorem collectd_counts_processes:
  assumes "distinct (map fst ps)"
  shows "let c = count_procs (threads_of ps) None no_counts in
    n_running c = number_with (zbx_stat_ok ZBX_STAT_RUN) ps \<and>
    n_running c = number_with (\<lambda>kp. state_letter kp = CHR ''R'') ps \<and>
    n_zombies c = number_with (zbx_stat_ok ZBX_STAT_ZOMB) ps \<and>
    n_zombies c = number_with (\<lambda>kp. state_letter kp = CHR ''Z'') ps \<and>
    n_sleeping c = number_with (zbx_stat_ok ZBX_STAT_SLEEP) ps \<and>
    n_stopped c = number_with stopped_kp ps \<and> n_idle c = number_with (\<lambda>kp. kp_stat kp = SIDL) ps"
proof -
  have l: "state_letter kp = CHR ''R'' \<longleftrightarrow> lwp_status kp LSRUN" "state_letter kp = CHR ''Z'' \<longleftrightarrow> kp_stat kp = SZOMB"
    "zbx_stat_ok ZBX_STAT_RUN kp \<longleftrightarrow> lwp_status kp LSRUN" "zbx_stat_ok ZBX_STAT_ZOMB kp \<longleftrightarrow> kp_stat kp = SZOMB"
    "zbx_stat_ok ZBX_STAT_SLEEP kp \<longleftrightarrow> lwp_status kp LSSLEEP" for kp
    by (auto simp: state_letter_def lwp_status_def zbx_stat_ok_def split: procstat.splits lwpstat.splits)
  show ?thesis
    using fold_counts [of ps no_counts] count_procs_threads [OF assms, of None no_counts]
    by (simp add: l Let_def no_counts_def number_with_def)
qed

text \<open>zabbix cannot tell a process that waits for a disk from one that sleeps.\<close>

lemma zbx_disk_is_sleep: "zbx_stat_ok ZBX_STAT_DISK = zbx_stat_ok ZBX_STAT_SLEEP"
  by (rule ext) (simp add: zbx_stat_ok_def)

definition kp_sample :: kinfo_proc where
  "kp_sample =
    \<lparr>kp_stat = SACTIVE, kl_stat = LSRUN, lwp_sintr = False, kp_nice = 0, p_traced = False, p_wexit = False,
     p_ppwait = False, ki_sleader = False, p_controlt = False, kp_pgid = 1, kp_tpgid = 0, p_jailed = False\<rparr>"

lemma collectd_counts_processes_witness:
  "n_running (count_procs (threads_of [(7, kp_sample, [kp_sample]), (9, kp_sample\<lparr>kp_stat := SZOMB\<rparr>, [])]) None no_counts) = 1"
  using collectd_counts_processes [of "[(7, kp_sample, [kp_sample]), (9, kp_sample\<lparr>kp_stat := SZOMB\<rparr>, [])]"]
  by (simp add: Let_def number_with_def zbx_stat_ok_def lwp_status_def kp_sample_def)

end
