(* ===== verification/Evdev_Loop.thy ===== *)
theory Evdev_Loop
  imports Prelude
begin

text \<open>
  The main loop that the tools of libevdev have on DragonFly, over kqueue instead of \<open>poll\<close>:
  \<^verbatim>\<open>devel/libevdev/dragonfly/patch-tools_touchpad-edge-detector.c\<close> (that of \<^verbatim>\<open>mouse-dpi-tool\<close> is the same).

  What \<open>kevent\<close> and \<open>libevdev_next_event\<close> return is a function of the number of the call; the events handled
  are a list.  Neither the loop nor the one inside it, which drains the device, need end, so both are partial
  functions.  The lemmas show that a run handles each event once and in order, and ends with the signal.
\<close>

datatype filter_event = Ev_signal int | Ev_read | Ev_other

datatype kev_result = Kev_events "filter_event list" | Kev_eintr | Kev_failed

datatype 'e next_result = Next_success 'e | Next_sync | Next_again | Next_error | Next_other

text \<open>The device is read until \<open>-EAGAIN\<close>: the number of the call, the events handled; the result says whether the
  loop goes on.\<close>

partial_function (option) drain :: "(nat \<Rightarrow> 'e next_result) \<Rightarrow> nat \<Rightarrow> 'e list \<Rightarrow> (bool \<times> nat \<times> 'e list) option" where
  "drain nx j es =
     (case nx j of
        Next_sync \<Rightarrow> Some (False, j + 1, es)
      | Next_error \<Rightarrow> Some (False, j + 1, es)
      | Next_success e \<Rightarrow> drain nx (j + 1) (es @ [e])
      | Next_again \<Rightarrow> Some (True, j + 1, es)
      | Next_other \<Rightarrow> drain nx (j + 1) es)"

fun drain_reads ::
  "(nat \<Rightarrow> 'e next_result) \<Rightarrow> filter_event list \<Rightarrow> nat \<Rightarrow> 'e list \<Rightarrow> (bool \<times> nat \<times> 'e list) option"
where
  "drain_reads nx [] j es = Some (True, j, es)"
| "drain_reads nx (ev # evs) j es =
     (if ev = Ev_read then
        (case drain nx j es of
           None \<Rightarrow> None
         | Some (go_on, j, es) \<Rightarrow> if go_on then drain_reads nx evs j es else Some (False, j, es))
      else drain_reads nx evs j es)"

definition signal_seen :: "filter_event list \<Rightarrow> bool" where
  "signal_seen evs \<longleftrightarrow> (\<exists>ev \<in> set evs. case ev of Ev_signal data \<Rightarrow> data > 0 | _ \<Rightarrow> False)"

text \<open>The loop: the value and the events handled.\<close>

partial_function (option) event_loop ::
  "(nat \<Rightarrow> kev_result) \<Rightarrow> (nat \<Rightarrow> 'e next_result) \<Rightarrow> nat \<Rightarrow> nat \<Rightarrow> 'e list \<Rightarrow> (int \<times> 'e list) option"
where
  "event_loop kev nx i j es =
     (case kev i of
        Kev_eintr \<Rightarrow> event_loop kev nx (i + 1) j es
      | Kev_failed \<Rightarrow> Some (1, es)
      | Kev_events evs \<Rightarrow>
          if evs = [] then Some (0, es)
          else if signal_seen evs then Some (0, es)
          else
            (case drain_reads nx evs j es of
               None \<Rightarrow> None
             | Some r \<Rightarrow> if fst r then event_loop kev nx (i + 1) (fst (snd r)) (snd (snd r)) else Some (1, snd (snd r))))"

text \<open>\<open>mainloop\<close>: the queue, and the call that adds the two filters.\<close>

definition mainloop :: "int \<Rightarrow> bool \<Rightarrow> (nat \<Rightarrow> kev_result) \<Rightarrow> (nat \<Rightarrow> 'e next_result) \<Rightarrow> (int \<times> 'e list) option" where
  "mainloop kq added kev nx =
     (if kq = - 1 then Some (1, [])
      else if \<not> added then Some (1, [])
      else event_loop kev nx 0 0 [])"

section \<open>A run\<close>

text \<open>The device's answers for rounds of events, and the kernel's: the device is readable once for each round, perhaps after
  an interrupted call, and then the signal comes.\<close>

fun answers :: "'e list list \<Rightarrow> 'e next_result list" where
  "answers [] = []"
| "answers (r # rs) = map Next_success r @ Next_again # answers rs"

fun wakes :: "bool list \<Rightarrow> kev_result list" where
  "wakes [] = [Kev_events [Ev_signal 1]]"
| "wakes (b # bs) = (if b then [Kev_eintr] else []) @ Kev_events [Ev_read] # wakes bs"

lemma drain_round:
  "\<forall>k < length r. nx (j + k) = Next_success (r ! k) \<Longrightarrow> nx (j + length r) = Next_again \<Longrightarrow>
   drain nx j es = Some (True, j + length r + 1, es @ r)"
proof (induction r arbitrary: j es)
  case Nil
  then show ?case by (subst drain.simps) simp
next
  case (Cons e r)
  have "nx j = Next_success e" using Cons.prems(1) by (auto dest: spec [of _ 0])
  moreover have "\<forall>k < length r. nx (j + 1 + k) = Next_success (r ! k)" using Cons.prems(1) by (auto dest: spec [of _ "Suc _"])
  ultimately show ?case
    using Cons.IH [of "j + 1" "es @ [e]"] Cons.prems(2) by (subst drain.simps) simp
qed

lemma event_loop_rounds:
  assumes "length bs = length rs"
  shows "\<forall>k < length (wakes bs). kev (i + k) = wakes bs ! k \<Longrightarrow>
    \<forall>k < length (answers rs). nx (j + k) = answers rs ! k \<Longrightarrow>
    event_loop kev nx i j es = Some (0, es @ concat rs)"
  using assms
proof (induction bs rs arbitrary: i j es rule: list_induct2')
  case 1
  then show ?case by (subst event_loop.simps) (simp add: signal_seen_def)
next
  case (4 b bs r rs)
  have a: "answers (r # rs) = map Next_success r @ Next_again # answers rs" by simp
  have nx: "\<forall>k < length r. nx (j + k) = Next_success (r ! k)" "nx (j + length r) = Next_again"
    using 4(3) by (auto simp: nth_append dest: spec [of _ "length r"])
  have rest: "\<forall>k < length (answers rs). nx (j + length r + 1 + k) = answers rs ! k"
  proof (intro allI impI)
    fix k assume "k < length (answers rs)"
    then show "nx (j + length r + 1 + k) = answers rs ! k"
      using 4(3) [rule_format, of "length r + 1 + k"] by (simp add: nth_append add.assoc)
  qed
  have read: "event_loop kev nx i' j es = Some (0, es @ r @ concat rs)"
    if "kev i' = Kev_events [Ev_read]" "\<forall>k < length (wakes bs). kev (i' + 1 + k) = wakes bs ! k" for i'
    using that(1) 4(1) [OF that(2) rest, of "es @ r"] 4(4) drain_round [OF nx, of es]
    by (subst event_loop.simps) (simp add: signal_seen_def)
  show ?case
  proof (cases b)
    case False
    then have "kev i = Kev_events [Ev_read]" "\<forall>k < length (wakes bs). kev (i + 1 + k) = wakes bs ! k"
      using 4(2) by (auto dest: spec [of _ 0] spec [of _ "Suc _"])
    from read [OF this] show ?thesis by simp
  next
    case True
    then have k: "kev i = Kev_eintr" "kev (i + 1) = Kev_events [Ev_read]"
      "\<forall>k < length (wakes bs). kev (i + 1 + 1 + k) = wakes bs ! k"
      using 4(2) by (auto dest: spec [of _ 0] spec [of _ "Suc 0"] spec [of _ "Suc (Suc _)"])
    from read [OF k(2,3)] k(1) show ?thesis by (subst event_loop.simps) simp
  qed
qed simp_all

section \<open>Property\<close>

text \<open>C29: the tools lose no event: when the device gives its events in rounds, each announced by the queue, perhaps
  after interrupted calls, and then the interrupt signal comes, the loop returns 0 and has handled all events
  of all rounds once, in their order.\<close>

theorem mainloop_handles_all:
  assumes "kq \<noteq> - 1" "length bs = length rs" "\<forall>k < length (wakes bs). kev k = wakes bs ! k"
    "\<forall>k < length (answers rs). nx k = answers rs ! k"
  shows "mainloop kq True kev nx = Some (0, concat rs)"
  using assms event_loop_rounds [OF assms(2), of kev 0 nx 0 "[]"] by (simp add: mainloop_def)

lemma mainloop_handles_all_witness:
  "mainloop 3 True (\<lambda>k. wakes [True, False] ! k) (\<lambda>k. answers [[1, 2], [3 :: int]] ! k) = Some (0, [1, 2, 3])"
  using mainloop_handles_all [of 3 "[True, False]" "[[1, 2], [3 :: int]]" "\<lambda>k. wakes [True, False] ! k" "\<lambda>k. answers [[1, 2], [3]] ! k"]
  by simp

end
