(* ===== verification/Conmon_Bind.thy ===== *)
theory Conmon_Bind
  imports Prelude
begin

text \<open>
  Binding a socket in a directory without \<open>bindat\<close>: conmon,
  \<^verbatim>\<open>sysutils/conmon/dragonfly/@main/patch-src_conn__sock.c\<close>.

  The code goes into the directory, binds the relative name and goes back.  The state is the working
  directory, what the descriptors stand for, and the sockets that exist with their mode; each call takes its
  outcome from an argument.  \<open>pexit\<close> ends the program.  The lemmas show that this is what \<open>bindat\<close> and
  \<open>fchmodat\<close> with the directory would do, and that the working directory is back in the end.
\<close>

type_synonym dir = nat

datatype dir_fd = AT_FDCWD | Fd nat

record proc =
  cwd :: dir
  dirs :: "nat \<Rightarrow> dir option"
  socks :: "(dir \<times> c_string) \<Rightarrow> nat option"

datatype bind_exit = No_directory | No_bind | No_chmod | No_return

record bind_calls =
  open_dot :: "nat option"
  chdir_in :: bool
  bind_ok :: bool
  chmod_ok :: bool
  chdir_back :: bool

text \<open>The path cut to \<open>sun_path\<close> of 104 bytes; \<open>sockfs\<close> is the mode that a new socket gets.\<close>

definition sun_path :: "c_string \<Rightarrow> c_string" where
  "sun_path path = take 103 path"

definition fchdir :: "nat \<Rightarrow> bool \<Rightarrow> proc \<Rightarrow> proc option" where
  "fchdir fd ok p = (case dirs p fd of None \<Rightarrow> None | Some d \<Rightarrow> if ok then Some (p\<lparr>cwd := d\<rparr>) else None)"

definition bind_here :: "c_string \<Rightarrow> nat \<Rightarrow> bool \<Rightarrow> proc \<Rightarrow> proc option" where
  "bind_here name mode ok p =
     (if ok \<and> socks p (cwd p, name) = None then Some (p\<lparr>socks := (socks p)((cwd p, name) \<mapsto> mode)\<rparr>) else None)"

definition chmod_here :: "c_string \<Rightarrow> nat \<Rightarrow> bool \<Rightarrow> proc \<Rightarrow> proc option" where
  "chmod_here name mode ok p =
     (if ok \<and> socks p (cwd p, name) \<noteq> None then Some (p\<lparr>socks := (socks p)((cwd p, name) \<mapsto> mode)\<rparr>) else None)"

text \<open>\<open>bind_relative_to_dir\<close> for a socket whose mode before the change is \<open>mode\<close>; \<open>0o700\<close> is 448.  The new
  descriptor of \<open>open\<close> stands for the working directory.\<close>

definition bind_and_chmod :: "bind_calls \<Rightarrow> c_string \<Rightarrow> nat \<Rightarrow> proc \<Rightarrow> bind_exit + proc" where
  "bind_and_chmod calls path mode p =
     (case bind_here (sun_path path) mode (bind_ok calls) p of
        None \<Rightarrow> Inl No_bind
      | Some p \<Rightarrow>
          (case chmod_here (sun_path path) 448 (chmod_ok calls) p of None \<Rightarrow> Inl No_chmod | Some p \<Rightarrow> Inr p))"

definition bind_relative_to_dir :: "bind_calls \<Rightarrow> dir_fd \<Rightarrow> c_string \<Rightarrow> nat \<Rightarrow> proc \<Rightarrow> bind_exit + proc" where
  "bind_relative_to_dir calls dfd path mode p =
     (case dfd of
        AT_FDCWD \<Rightarrow> bind_and_chmod calls path mode p
      | Fd d \<Rightarrow>
          (case open_dot calls of
             None \<Rightarrow> Inl No_directory
           | Some cwd_fd \<Rightarrow>
               (case fchdir d (chdir_in calls) (p\<lparr>dirs := (dirs p)(cwd_fd \<mapsto> cwd p)\<rparr>) of
                  None \<Rightarrow> Inl No_directory
                | Some p \<Rightarrow>
                    (case bind_and_chmod calls path mode p of
                       Inl e \<Rightarrow> Inl e
                     | Inr p \<Rightarrow>
                         (case fchdir cwd_fd (chdir_back calls) p of
                            None \<Rightarrow> Inl No_return
                          | Some p \<Rightarrow> Inr (p\<lparr>dirs := (dirs p)(cwd_fd := None)\<rparr>))))))"

section \<open>What bindat would do\<close>

definition bindat_spec :: "dir \<Rightarrow> c_string \<Rightarrow> proc \<Rightarrow> proc" where
  "bindat_spec d path p = p\<lparr>socks := (socks p)((d, sun_path path) \<mapsto> 448)\<rparr>"

definition dir_of :: "proc \<Rightarrow> dir_fd \<Rightarrow> dir option" where
  "dir_of p dfd = (case dfd of AT_FDCWD \<Rightarrow> Some (cwd p) | Fd d \<Rightarrow> dirs p d)"

lemma bind_and_chmod_spec:
  "bind_and_chmod calls path mode p =
     (if \<not> (bind_ok calls \<and> socks p (cwd p, sun_path path) = None) then Inl No_bind
      else if \<not> chmod_ok calls then Inl No_chmod
      else Inr (bindat_spec (cwd p) path p))"
  by (auto simp: bind_and_chmod_def bind_here_def chmod_here_def bindat_spec_def)

text \<open>The whole function, when the descriptor of the directory is one and that of \<open>open\<close> is new.\<close>

lemma bind_relative_spec:
  assumes "dir_of p dfd = Some d" "\<forall>fd. open_dot calls = Some fd \<longrightarrow> dirs p fd = None"
  shows "bind_relative_to_dir calls dfd path mode p =
     (if dfd \<noteq> AT_FDCWD \<and> (open_dot calls = None \<or> \<not> chdir_in calls) then Inl No_directory
      else if \<not> (bind_ok calls \<and> socks p (d, sun_path path) = None) then Inl No_bind
      else if \<not> chmod_ok calls then Inl No_chmod
      else if dfd \<noteq> AT_FDCWD \<and> \<not> chdir_back calls then Inl No_return
      else Inr (bindat_spec d path p))"
proof (cases dfd)
  case AT_FDCWD
  then show ?thesis using assms(1) by (simp add: bind_relative_to_dir_def bind_and_chmod_spec dir_of_def)
next
  case (Fd n)
  then have n: "dirs p n = Some d" using assms(1) by (simp add: dir_of_def)
  show ?thesis
  proof (cases "open_dot calls")
    case None
    then show ?thesis by (simp add: bind_relative_to_dir_def Fd)
  next
    case (Some fd)
    have f: "dirs p fd = None" using assms(2) Some by simp
    then have e: "n \<noteq> fd" "(dirs p)(fd := None) = dirs p" using n by (auto simp: fun_upd_idem)
    show ?thesis
      using n e by (simp add: bind_relative_to_dir_def Fd Some fchdir_def bind_and_chmod_spec bindat_spec_def)
  qed
qed

section \<open>Property\<close>

text \<open>C24: binding relative to a directory without \<open>bindat\<close> is binding with it: with the descriptor of a directory, and
  when the descriptor that \<open>open\<close> returns is a new one, the function returns exactly when no call that it
  makes fails and the name is free; then the only change to the process is that the directory has the
  socket with mode 700: the working directory is the one before, and the extra descriptor is closed.\<close>

theorem bind_relative_refines:
  assumes "dir_of p dfd = Some d" "\<forall>fd. open_dot calls = Some fd \<longrightarrow> dirs p fd = None"
  shows "(bind_relative_to_dir calls dfd path mode p = Inr p') =
    (socks p (d, sun_path path) = None \<and> bind_ok calls \<and> chmod_ok calls \<and>
     (dfd = AT_FDCWD \<or> open_dot calls \<noteq> None \<and> chdir_in calls \<and> chdir_back calls) \<and> p' = bindat_spec d path p)"
  using bind_relative_spec [OF assms, of path mode] by (auto split: if_splits)

definition bind_sample :: proc where
  "bind_sample = \<lparr>cwd = 1, dirs = [5 \<mapsto> 2], socks = Map.empty\<rparr>"

definition calls_sample :: bind_calls where
  "calls_sample = \<lparr>open_dot = Some 6, chdir_in = True, bind_ok = True, chmod_ok = True, chdir_back = True\<rparr>"

lemma bind_relative_refines_witness:
  "bind_relative_to_dir calls_sample (Fd 5) ''sock'' 511 bind_sample = Inr (bindat_spec 2 ''sock'' bind_sample) \<and>
   cwd (bindat_spec 2 ''sock'' bind_sample) = 1"
proof -
  have "dir_of bind_sample (Fd 5) = Some 2" "\<forall>fd. open_dot calls_sample = Some fd \<longrightarrow> dirs bind_sample fd = None"
    by (auto simp: dir_of_def bind_sample_def calls_sample_def)
  from bind_relative_refines [OF this, of "''sock''" 511 "bindat_spec 2 ''sock'' bind_sample"] show ?thesis
    by (simp add: calls_sample_def) (simp add: bind_sample_def bindat_spec_def)
qed

end
