(* ===== verification/Host_Queries.thy ===== *)
theory Host_Queries
  imports Prelude
begin

text \<open>
  Questions to the system that ports answer in their own way on DragonFly: the hardware address of an
  interface (libndp, \<^verbatim>\<open>dragonfly/patch-libndp_libndp.c\<close>), the figures of a disk (xfce4-diskperf-plugin,
  \<^verbatim>\<open>dragonfly/patch-panel-plugin_devperf.c\<close>), memory that is free (mesa26-dri,
  \<^verbatim>\<open>dragonfly/patch-100-src_util_os_misc.c\<close>) or used (python314,
  \<^verbatim>\<open>dragonfly/patch-Python_gc__free__threading.c\<close>), features of the kernel (xorg-server,
  \<^verbatim>\<open>dragonfly/patch-config_udev.c\<close>) and open descriptors (wayland, \<^verbatim>\<open>dragonfly/patch-tests_test-helpers.c\<close>).

  What the system returns is an argument of each.
\<close>

section \<open>libndp\<close>

text \<open>An entry of \<open>getifaddrs\<close> that has a link address: its family, index and bytes; \<open>None\<close> is an entry without an
  address.\<close>

record link_addr =
  sdl_link :: bool
  sdl_index :: int
  sdl_bytes :: "(8 word) list"

definition ENODEV :: int where "ENODEV = 19"

definition ETHER_ADDR_LEN :: nat where "ETHER_ADDR_LEN = 6"

fun find_mac :: "int \<Rightarrow> link_addr option list \<Rightarrow> (8 word) list option" where
  "find_mac ifindex [] = None"
| "find_mac ifindex (sdl # ifap) =
     (case sdl of
        None \<Rightarrow> find_mac ifindex ifap
      | Some a \<Rightarrow>
          if \<not> sdl_link a \<or> sdl_index a \<noteq> ifindex then find_mac ifindex ifap
          else if length (sdl_bytes a) \<noteq> ETHER_ADDR_LEN then None
          else Some (sdl_bytes a))"

text \<open>The value and what is stored; \<open>Inl\<close> is the \<open>errno\<close> of \<open>getifaddrs\<close>.\<close>

definition ndp_get_iface_mac :: "int \<Rightarrow> int + link_addr option list \<Rightarrow> int \<times> (8 word) list option" where
  "ndp_get_iface_mac ifindex ifaddrs =
     (case ifaddrs of
        Inl errno \<Rightarrow> (- errno, None)
      | Inr ifap \<Rightarrow>
          (case find_mac ifindex ifap of None \<Rightarrow> (- ENODEV, None) | Some m \<Rightarrow> (0, Some m)))"

section \<open>xfce4-diskperf-plugin\<close>

record disk_stat =
  ds_name :: c_string
  ds_unit :: int
  ds_read :: "64 word"
  ds_written :: "64 word"
  ds_busy_count :: int
  ds_busy_sec :: int
  ds_busy_usec :: int

record devperf =
  pf_wbytes :: "64 word"
  pf_rbytes :: "64 word"
  pf_timestamp_ns :: "64 word"
  pf_qlen :: int
  pf_rbusy_ns :: "64 word"
  pf_wbusy_ns :: "64 word"

text \<open>The name of a device, cut to 254 characters, and the search for it; without a name to look for, the first device is
  found.\<close>

definition dev_name :: "disk_stat \<Rightarrow> c_string" where
  "dev_name d = take 254 (ds_name d @ show_int (ds_unit d))"

fun find_dev :: "c_string option \<Rightarrow> disk_stat list \<Rightarrow> disk_stat option" where
  "find_dev check_dev [] = None"
| "find_dev check_dev (d # ds) =
     (case check_dev of
        Some name \<Rightarrow> if strcmp name (dev_name d) \<noteq> 0 then find_dev check_dev ds else Some d
      | None \<Rightarrow> Some d)"

text \<open>\<open>DevGetPerfData\<close>: \<open>tv\<close> is the time of day.\<close>

definition DevGetPerfData ::
  "disk_stat list option \<Rightarrow> int \<times> int \<Rightarrow> c_string option \<Rightarrow> devperf \<Rightarrow> int \<times> devperf"
where
  "DevGetPerfData devs tv check_dev perf =
     (case devs of
        None \<Rightarrow> (- 1, perf)
      | Some ds \<Rightarrow>
          (case (check_dev, find_dev check_dev ds) of
             (Some _, Some dev) \<Rightarrow>
               (let busy = word_of_int (ds_busy_usec dev) * 1000 in
                (0, \<lparr>pf_wbytes = ds_written dev, pf_rbytes = ds_read dev,
                     pf_timestamp_ns = 1000000000 * word_of_int (fst tv) + 1000 * word_of_int (snd tv),
                     pf_qlen = ds_busy_count dev, pf_rbusy_ns = busy, pf_wbusy_ns = busy\<rparr>))
           | _ \<Rightarrow> (0, perf)))"

section \<open>Memory\<close>

definition os_get_available_system_memory :: "(c_string \<Rightarrow> (64 word) option) \<Rightarrow> (64 word) option" where
  "os_get_available_system_memory sysctl =
     (case sysctl ''vm.stats.vm.v_free_count'' of
        None \<Rightarrow> None
      | Some n_free \<Rightarrow>
          (case sysctl ''vm.stats.vm.v_inactive_count'' of
             None \<Rightarrow> None
           | Some n_inactive \<Rightarrow>
               (case sysctl ''vm.stats.vm.v_cache_count'' of
                  None \<Rightarrow> None
                | Some n_cache \<Rightarrow>
                    (case sysctl ''vm.stats.vm.v_page_size'' of
                       None \<Rightarrow> None
                     | Some page_size \<Rightarrow>
                         if page_size = 0 then None else Some ((n_free + n_inactive + n_cache) * page_size)))))"

text \<open>\<open>entry\<close> is the resident size in pages, \<open>Some None\<close> when the \<open>sysctl\<close> returns nothing.\<close>

definition get_process_mem_usage :: "int \<Rightarrow> int option option \<Rightarrow> int" where
  "get_process_mem_usage pagesize entry =
     (let page_size_kb = pagesize div 1024 in
      if page_size_kb \<le> 0 then - 1
      else
        (case entry of
           None \<Rightarrow> - 1
         | Some None \<Rightarrow> - 1
         | Some (Some rssize) \<Rightarrow> rssize * page_size_kb))"

section \<open>Features and descriptors\<close>

text \<open>The value and the length that the \<open>sysctl\<close> gives; an \<open>int\<close> has 4 bytes.\<close>

definition feature_present :: "bool \<Rightarrow> (c_string \<Rightarrow> (int \<times> nat) option) \<Rightarrow> c_string \<Rightarrow> int" where
  "feature_present alloc sysctl feature =
     (if \<not> alloc then 0
      else
        (case sysctl (''kern.features.'' @ feature) of
           None \<Rightarrow> 0
         | Some (i, len) \<Rightarrow> if len \<noteq> 4 then 0 else if i \<noteq> 0 then 1 else 0))"

text \<open>\<open>rlimit\<close> is the soft limit, \<open>None\<close> when it is infinite or cannot be read; \<open>is_open\<close> what \<open>fcntl\<close> finds.\<close>

fun count_open :: "(int \<Rightarrow> bool) \<Rightarrow> nat \<Rightarrow> nat \<Rightarrow> nat" where
  "count_open is_open 0 cnt = cnt"
| "count_open is_open (Suc n) cnt =
     (let cnt = count_open is_open n cnt in if is_open (int n) then cnt + 1 else cnt)"

definition count_open_fds :: "int option \<Rightarrow> int \<Rightarrow> (int \<Rightarrow> bool) \<Rightarrow> nat" where
  "count_open_fds rlimit open_max is_open =
     (let maxfd = to_int (case rlimit of Some m \<Rightarrow> m | None \<Rightarrow> open_max) in count_open is_open (nat maxfd) 0)"

section \<open>Lemmas\<close>

lemma find_mac_first:
  "find_mac ifindex ifap = Some m \<longleftrightarrow>
   (\<exists>a. find (\<lambda>x. case x of None \<Rightarrow> False | Some a \<Rightarrow> sdl_link a \<and> sdl_index a = ifindex) ifap = Some (Some a) \<and>
     sdl_bytes a = m \<and> length m = ETHER_ADDR_LEN)"
  by (induction ifap) (auto split: option.splits)

lemma find_dev_named: "find_dev (Some name) ds = find (\<lambda>d. dev_name d = name) ds"
  by (induction ds) (auto simp: strcmp_eq_0_iff)

lemma count_open_card: "count_open is_open n cnt = cnt + card {fd. 0 \<le> fd \<and> fd < int n \<and> is_open fd}"
proof (induction n)
  case (Suc n)
  have s: "{fd. 0 \<le> fd \<and> fd < int (Suc n) \<and> is_open fd} =
      {fd. 0 \<le> fd \<and> fd < int n \<and> is_open fd} \<union> (if is_open (int n) then {int n} else {})" (is "?l = ?r")
  proof (rule set_eqI)
    fix fd :: int
    have "fd < int (Suc n) \<longleftrightarrow> fd < int n \<or> fd = int n" by auto
    then show "fd \<in> ?l \<longleftrightarrow> fd \<in> ?r" by auto
  qed
  have "finite {fd. 0 \<le> fd \<and> fd < int n \<and> is_open fd}"
    by (rule finite_subset [of _ "{0..<int n}"]) auto
  then show ?case unfolding s using Suc by (simp add: Let_def)
next
  case 0
  have "{fd. 0 \<le> fd \<and> fd < int 0 \<and> is_open fd} = {}" by auto
  then show ?case by (simp only: count_open.simps card.empty add_0_right)
qed

text \<open>The number of open descriptors is right as long as the limit fits an \<open>int\<close> and none lies above it.\<close>

lemma count_open_fds_card:
  "0 \<le> m \<Longrightarrow> m < 2 ^ 31 \<Longrightarrow> count_open_fds (Some m) k is_open = card {fd. 0 \<le> fd \<and> fd < m \<and> is_open fd}"
  by (simp add: count_open_fds_def to_int_small count_open_card)

text \<open>From a limit of \<open>2 ^ 31\<close> on, and below twice that, no descriptor is looked at.\<close>

lemma count_open_fds_none: "2 ^ 31 \<le> m \<Longrightarrow> m < 2 ^ 32 \<Longrightarrow> count_open_fds (Some m) k is_open = 0"
proof -
  assume m: "2 ^ 31 \<le> m" "m < 2 ^ 32"
  have "to_int m = to_int (m - 2 ^ 32)"
  proof -
    have "(word_of_int m :: 32 word) = word_of_int (m - 2 ^ 32)"
      by (rule word_of_int_eq_iff [THEN iffD2]) (simp add: take_bit_eq_mod mod_diff_right_eq [symmetric])
    then show ?thesis by (simp only: to_int_def)
  qed
  also have "\<dots> = m - 2 ^ 32" using m by (intro to_int_small) auto
  finally show ?thesis using m by (simp add: count_open_fds_def)
qed

section \<open>Property\<close>

text \<open>The figures of a disk: those of the first device of the name are stored, with a busy time in nanoseconds
  that counts the microseconds only and is right exactly for less than a second; for a name that no device
  has the call succeeds as well, and nothing is stored.\<close>

theorem disk_figures:
  assumes "\<And>d. d \<in> set ds \<Longrightarrow> 0 \<le> ds_busy_usec d \<and> ds_busy_usec d < 1000000 \<and> 0 \<le> ds_busy_sec d \<and> ds_busy_sec d < 2 ^ 31"
  shows "case find (\<lambda>d. dev_name d = name) ds of
      None \<Rightarrow> DevGetPerfData (Some ds) tv (Some name) perf = (0, perf)
    | Some d \<Rightarrow> \<exists>p. DevGetPerfData (Some ds) tv (Some name) perf = (0, p) \<and> pf_rbytes p = ds_read d \<and>
        pf_wbytes p = ds_written d \<and> pf_qlen p = ds_busy_count d \<and> pf_wbusy_ns p = pf_rbusy_ns p \<and>
        (uint (pf_rbusy_ns p) = ds_busy_sec d * 1000000000 + ds_busy_usec d * 1000 \<longleftrightarrow> ds_busy_sec d = 0)"
proof (cases "find (\<lambda>d. dev_name d = name) ds")
  case None
  then show ?thesis by (simp add: DevGetPerfData_def find_dev_named)
next
  case (Some d)
  then have d: "0 \<le> ds_busy_usec d" "ds_busy_usec d < 1000000" using assms [of d]
    by (auto simp: find_Some_iff)
  have "uint (word_of_int (ds_busy_usec d) * 1000 :: 64 word) = ds_busy_usec d * 1000"
    using d by (simp add: uint_word_ariths uint_word_of_int)
  then show ?thesis using Some by (simp add: DevGetPerfData_def find_dev_named Let_def)
qed

definition disk_sample :: disk_stat where
  "disk_sample =
    \<lparr>ds_name = ''da'', ds_unit = 0, ds_read = 512, ds_written = 1024, ds_busy_count = 1, ds_busy_sec = 2, ds_busy_usec = 7\<rparr>"

definition no_figures :: devperf where
  "no_figures = \<lparr>pf_wbytes = 0, pf_rbytes = 0, pf_timestamp_ns = 0, pf_qlen = 0, pf_rbusy_ns = 0, pf_wbusy_ns = 0\<rparr>"

lemma disk_figures_witness:
  "\<exists>p. DevGetPerfData (Some [disk_sample]) (0, 0) (Some ''da0'') no_figures = (0, p) \<and> pf_rbytes p = 512 \<and>
     uint (pf_rbusy_ns p) \<noteq> 2000007000"
proof -
  have "dev_name disk_sample = ''da0''" by code_simp
  then show ?thesis
    using disk_figures [where ds = "[disk_sample]" and name = "''da0''" and tv = "(0, 0)" and perf = no_figures] by (auto simp: disk_sample_def)
qed

end
