(* ===== verification/Epoll_Cancel.thy ===== *)
theory Epoll_Cancel
  imports Prelude
begin

text \<open>
  Waiting with cancellation in libepoll-shim, \<^verbatim>\<open>devel/libepoll-shim/dragonfly/patch-src_epoll.c\<close>.

  A thread that waits may be cancelled, but only in \<open>ppoll\<close>; everywhere else the code switches cancellation
  off.  What must be given back is on the thread's stack of cleanup handlers.  The state is the cancel state,
  that stack, and what the thread holds: arrays of descriptors, its part in the count of polling threads, and
  references to the descriptor's object.  The mutex is held inside one handler only and is left out.

  The patch shows the waiting function from the call of \<open>ppoll\<close> on; what comes before it is the argument
  \<open>enter\<close>, how often it comes back to \<open>ppoll\<close> and what it returns otherwise are arguments too.  The lemmas show
  that everything is given back exactly once, on each way out.
\<close>

datatype cleanup = Ppoll_cleanup | Desc_unref_cleanup | Callers_cleanup

record poller =
  cancel_enabled :: bool
  cleanups :: "cleanup list"
  arrays :: int
  nr_polling_threads :: int
  cond_signals :: nat
  desc_refs :: int

text \<open>\<open>ppoll_cleanup\<close> and \<open>desc_unref_cleanup\<close>.\<close>

definition ppoll_cleanup :: "poller \<Rightarrow> poller" where
  "ppoll_cleanup st =
     (let st = st\<lparr>arrays := arrays st - 1\<rparr>;
          st = st\<lparr>nr_polling_threads := nr_polling_threads st - 1\<rparr>
      in if nr_polling_threads st = 0 then st\<lparr>cond_signals := cond_signals st + 1\<rparr> else st)"

text \<open>\<open>*desc\<close> is not \<open>NULL\<close> where the handler is pushed.\<close>

definition desc_unref_cleanup :: "poller \<Rightarrow> poller" where
  "desc_unref_cleanup st = st\<lparr>desc_refs := desc_refs st - 1\<rparr>"

definition run_cleanup :: "cleanup \<Rightarrow> poller \<Rightarrow> poller" where
  "run_cleanup c st =
     (case c of
        Ppoll_cleanup \<Rightarrow> ppoll_cleanup st
      | Desc_unref_cleanup \<Rightarrow> desc_unref_cleanup st
      | Callers_cleanup \<Rightarrow> st)"

section \<open>Threads and their handlers\<close>

text \<open>\<open>pthread_cleanup_push\<close> and \<open>pthread_cleanup_pop\<close>, and what a cancelled thread does: it runs all handlers, the
  last one first.\<close>

definition cleanup_push :: "cleanup \<Rightarrow> poller \<Rightarrow> poller" where
  "cleanup_push c st = st\<lparr>cleanups := c # cleanups st\<rparr>"

definition cleanup_pop :: "bool \<Rightarrow> poller \<Rightarrow> poller" where
  "cleanup_pop execute st =
     (case cleanups st of
        [] \<Rightarrow> st
      | c # cs \<Rightarrow> let st = st\<lparr>cleanups := cs\<rparr> in if execute then run_cleanup c st else st)"

definition cancelled :: "poller \<Rightarrow> poller" where
  "cancelled st = fold run_cleanup (cleanups st) (st\<lparr>cleanups := []\<rparr>)"

section \<open>Waiting\<close>

text \<open>One call of \<open>ppoll\<close>: whether somebody asks the thread to end meanwhile, and otherwise the number of
  descriptors or \<open>Inl\<close> of \<open>errno\<close>.\<close>

record ppoll_call =
  cancel_asked :: bool
  ppoll_result :: "int + nat"

datatype wait_end = Returned int poller | Thread_cancelled poller

datatype round_end = Round_done poller | Round_ends wait_end

text \<open>The part of \<open>epollfd_ctx_wait_or_block\<close> from the handler on; \<open>cs\<close> is the cancel state of the caller.\<close>

definition poll_round :: "bool \<Rightarrow> ppoll_call \<Rightarrow> poller \<Rightarrow> round_end" where
  "poll_round cs call st =
     (let st = cleanup_push Ppoll_cleanup st;
          st = st\<lparr>cancel_enabled := cs\<rparr>
      in if cancel_enabled st \<and> cancel_asked call then Round_ends (Thread_cancelled (cancelled st))
         else
           (let st = cleanup_pop True (st\<lparr>cancel_enabled := False\<rparr>) in
            case ppoll_result call of
              Inl errno \<Rightarrow> Round_ends (Returned errno st)
            | Inr n \<Rightarrow> Round_done st))"

fun wait_or_block :: "(poller \<Rightarrow> poller) \<Rightarrow> int \<Rightarrow> bool \<Rightarrow> ppoll_call list \<Rightarrow> poller \<Rightarrow> wait_end" where
  "wait_or_block enter ec cs [] st = Returned ec st"
| "wait_or_block enter ec cs (call # calls) st =
     (case poll_round cs call (enter st) of
        Round_done st \<Rightarrow> wait_or_block enter ec cs calls st
      | Round_ends w \<Rightarrow> w)"

text \<open>The whole wait, after its arguments have been checked: \<open>desc\<close> is \<open>None\<close> when no object is found (\<open>Inl\<close> then
  has its error), and otherwise says whether it is one of \<open>epoll\<close>.\<close>

definition epoll_wait_desc ::
  "(poller \<Rightarrow> poller) \<Rightarrow> bool option \<Rightarrow> int \<Rightarrow> int \<Rightarrow> ppoll_call list \<Rightarrow> poller \<Rightarrow> wait_end"
where
  "epoll_wait_desc enter desc no_desc ec calls st =
     (let cs = cancel_enabled st;
          st = st\<lparr>cancel_enabled := False\<rparr>;
          st = (if desc \<noteq> None then st\<lparr>desc_refs := desc_refs st + 1\<rparr> else st);
          w = (if desc \<noteq> Some True then Returned no_desc st
               else
                 (case wait_or_block enter ec cs calls (cleanup_push Desc_unref_cleanup st) of
                    Returned ec st \<Rightarrow> Returned ec (cleanup_pop False st)
                  | Thread_cancelled st \<Rightarrow> Thread_cancelled st))
      in
        (case w of
           Returned ec st \<Rightarrow>
             (let st = (if desc \<noteq> None then desc_unref_cleanup st else st) in Returned ec (st\<lparr>cancel_enabled := cs\<rparr>))
         | Thread_cancelled st \<Rightarrow> Thread_cancelled st))"

text \<open>\<open>epoll_ctl\<close>, around its implementation.\<close>

definition epoll_ctl :: "(poller \<Rightarrow> int \<times> poller) \<Rightarrow> poller \<Rightarrow> int \<times> poller" where
  "epoll_ctl impl st =
     (let cs = cancel_enabled st;
          (ec, st) = impl (st\<lparr>cancel_enabled := False\<rparr>)
      in (if ec \<noteq> 0 then - 1 else 0, st\<lparr>cancel_enabled := cs\<rparr>))"

section \<open>Everything is given back\<close>

text \<open>What the part that is not shown must have done: made the array and counted the thread.\<close>

definition enters :: "(poller \<Rightarrow> poller) \<Rightarrow> bool" where
  "enters enter \<longleftrightarrow>
     (\<forall>st. enter st = st\<lparr>arrays := arrays st + 1, nr_polling_threads := nr_polling_threads st + 1\<rparr>)"

definition same_holdings :: "poller \<Rightarrow> poller \<Rightarrow> bool" where
  "same_holdings st st' \<longleftrightarrow>
     arrays st' = arrays st \<and> nr_polling_threads st' = nr_polling_threads st \<and> desc_refs st' = desc_refs st"

lemma run_cleanup_simps [simp]:
  "run_cleanup Desc_unref_cleanup st = st\<lparr>desc_refs := desc_refs st - 1\<rparr>"
  "run_cleanup Callers_cleanup st = st"
  "run_cleanup Ppoll_cleanup st = ppoll_cleanup st"
  by (simp_all add: run_cleanup_def desc_unref_cleanup_def)

lemma ppoll_cleanup_simps [simp]:
  "arrays (ppoll_cleanup st) = arrays st - 1"
  "nr_polling_threads (ppoll_cleanup st) = nr_polling_threads st - 1"
  "desc_refs (ppoll_cleanup st) = desc_refs st"
  "cleanups (ppoll_cleanup st) = cleanups st"
  "cancel_enabled (ppoll_cleanup st) = cancel_enabled st"
  by (simp_all add: ppoll_cleanup_def Let_def)

lemma run_callers: "set cs \<subseteq> {Callers_cleanup} \<Longrightarrow> fold run_cleanup cs st = st"
  by (induction cs arbitrary: st) auto

text \<open>A round gives back what was taken on entering, whether the thread goes on, returns or is cancelled.\<close>

lemma poll_round_cases:
  assumes "enters enter" "cleanups st = Desc_unref_cleanup # cs'" "set cs' \<subseteq> {Callers_cleanup}" "\<not> cancel_enabled st"
  shows "case poll_round cs call (enter st) of
      Round_done st' \<Rightarrow> same_holdings st st' \<and> cleanups st' = cleanups st \<and> \<not> cancel_enabled st'
    | Round_ends (Returned ec st') \<Rightarrow> same_holdings st st' \<and> cleanups st' = cleanups st
    | Round_ends (Thread_cancelled st') \<Rightarrow> cs \<and> same_holdings (st\<lparr>desc_refs := desc_refs st - 1\<rparr>) st'"
  using assms
  by (simp add: poll_round_def cleanup_push_def cleanup_pop_def cancelled_def enters_def same_holdings_def Let_def
      run_callers split: sum.splits)

lemma wait_or_block_cases:
  assumes "enters enter" "cleanups st = Desc_unref_cleanup # cs'" "set cs' \<subseteq> {Callers_cleanup}" "\<not> cancel_enabled st"
  shows "case wait_or_block enter ec cs calls st of
      Returned ec' st' \<Rightarrow> same_holdings st st' \<and> cleanups st' = cleanups st
    | Thread_cancelled st' \<Rightarrow> cs \<and> same_holdings (st\<lparr>desc_refs := desc_refs st - 1\<rparr>) st'"
  using assms(2-)
proof (induction calls arbitrary: st)
  case Nil
  then show ?case by (simp add: same_holdings_def)
next
  case (Cons call calls)
  note round = poll_round_cases [OF assms(1) Cons.prems, of cs call]
  show ?case
  proof (cases "poll_round cs call (enter st)")
    case (Round_ends w)
    then show ?thesis using round by (cases w) auto
  next
    case (Round_done st1)
    then have s: "same_holdings st st1" "cleanups st1 = cleanups st" "\<not> cancel_enabled st1" using round by auto
    then show ?thesis using Cons.IH [of st1] Cons.prems Round_done
      by (auto simp: same_holdings_def split: wait_end.splits)
  qed
qed

section \<open>Property\<close>

text \<open>C17: a wait gives back everything exactly once, also when the thread is cancelled: the arrays of descriptors,
  its part in the count of polling threads and its reference to the object; a thread that switched
  cancellation off is never cancelled, and one that returns has its cancel state and its own handlers back.\<close>

theorem epoll_wait_gives_back:
  assumes "enters enter" "set (cleanups st) \<subseteq> {Callers_cleanup}"
  shows "case epoll_wait_desc enter desc no_desc ec calls st of
      Returned ec' st' \<Rightarrow> same_holdings st st' \<and> cancel_enabled st' = cancel_enabled st \<and> cleanups st' = cleanups st
    | Thread_cancelled st' \<Rightarrow> cancel_enabled st \<and> same_holdings st st'"
proof (cases "desc = Some True")
  case True
  let ?st = "cleanup_push Desc_unref_cleanup (st\<lparr>cancel_enabled := False, desc_refs := desc_refs st + 1\<rparr>)"
  have "cleanups ?st = Desc_unref_cleanup # cleanups st" "\<not> cancel_enabled ?st" by (simp_all add: cleanup_push_def)
  from wait_or_block_cases [OF assms(1) this(1) assms(2) this(2), where ec = ec and cs = "cancel_enabled st" and calls = calls]
  show ?thesis using True
    by (auto simp: epoll_wait_desc_def Let_def same_holdings_def cleanup_pop_def cleanup_push_def desc_unref_cleanup_def
        split: wait_end.splits)
next
  case False
  then show ?thesis by (auto simp: epoll_wait_desc_def Let_def same_holdings_def desc_unref_cleanup_def)
qed

definition poller_sample :: poller where
  "poller_sample =
    \<lparr>cancel_enabled = True, cleanups = [Callers_cleanup], arrays = 0, nr_polling_threads = 0, cond_signals = 0, desc_refs = 0\<rparr>"

lemma epoll_wait_gives_back_witness:
  "\<exists>st'. epoll_wait_desc (\<lambda>st. st\<lparr>arrays := arrays st + 1, nr_polling_threads := nr_polling_threads st + 1\<rparr>) (Some True) 9 0
      [\<lparr>cancel_asked = False, ppoll_result = Inr 1\<rparr>, \<lparr>cancel_asked = True, ppoll_result = Inr 0\<rparr>] poller_sample
      = Thread_cancelled st' \<and> same_holdings poller_sample st'"
proof -
  let ?enter = "\<lambda>st. st\<lparr>arrays := arrays st + 1, nr_polling_threads := nr_polling_threads st + 1\<rparr> :: poller"
  let ?calls = "[\<lparr>cancel_asked = False, ppoll_result = Inr 1\<rparr>, \<lparr>cancel_asked = True, ppoll_result = Inr 0\<rparr>]"
  have "enters ?enter" "set (cleanups poller_sample) \<subseteq> {Callers_cleanup}"
    by (simp_all add: enters_def poller_sample_def)
  moreover have "\<exists>st'. epoll_wait_desc ?enter (Some True) 9 0 ?calls poller_sample = Thread_cancelled st'"
    by (simp add: epoll_wait_desc_def poll_round_def cleanup_push_def cleanup_pop_def poller_sample_def Let_def)
  ultimately show ?thesis
    using epoll_wait_gives_back [where enter = ?enter and st = poller_sample and desc = "Some True" and no_desc = 9 and ec = 0 and calls = ?calls] by auto
qed

end
