(* ===== verification/Launcher_Vt.thy ===== *)
theory Launcher_Vt
  imports Weston_Launch
begin

text \<open>
  Taking a virtual terminal without \<^verbatim>\<open>weston-launch\<close>: \<^verbatim>\<open>weston/newport/files/patch-src_launcher-util.c\<close>.

  The function opens the terminal, or asks for a free one, and takes control of it.  Its calls of the system
  take their results from an argument and are recorded, each with whether it succeeded; the code ignores the
  results of \<open>VT_ACTIVATE\<close> and \<open>VT_WAITACTIVE\<close>.  \<open>open_fds\<close> are the descriptors that it has opened and not
  closed.  The label \<open>err_close\<close> and what follows the registration of the signal lie outside the patch, so
  reaching them is a result of its own.  The lemmas show when each way out is taken, which descriptors it
  leaves open, and that the terminal that is opened is not the one that \<^verbatim>\<open>weston-launch\<close> (\<open>Weston_Launch\<close>)
  opens.
\<close>

record vt_env =
  vte_open_ttyv0 :: int
  vte_openqry :: "int option"
  vte_open :: "c_string \<Rightarrow> int"
  vte_kdgetmode :: "int option"
  vte_activate :: bool
  vte_waitactive :: bool
  vte_kdgkbmode :: "int option"
  vte_kdsetmode :: int
  vte_vt_setmode :: int
  vte_add_signal :: bool

datatype vt_call =
  Open_vt c_string | Query_vt | Get_mode | Activate_vt int | Wait_vt int | Get_kbmode | Set_graphics |
  Take_control | Watch_signal

record vt_launcher =
  open_fds :: "int list"
  vt_calls :: "(vt_call \<times> bool) list"

datatype vt_end = Vt_failed | Vt_err_close | Vt_taken

definition KD_TEXT :: int where "KD_TEXT = 0"

definition does :: "vt_call \<Rightarrow> bool \<Rightarrow> vt_launcher \<Rightarrow> vt_launcher" where
  "does c ok st = st\<lparr>vt_calls := vt_calls st @ [(c, ok)]\<rparr>"

definition opens :: "c_string \<Rightarrow> int \<Rightarrow> vt_launcher \<Rightarrow> vt_launcher" where
  "opens name fd st =
     (let st = does (Open_vt name) (fd \<noteq> - 1) st in if fd = - 1 then st else st\<lparr>open_fds := fd # open_fds st\<rparr>)"

definition closes :: "int \<Rightarrow> vt_launcher \<Rightarrow> vt_launcher" where
  "closes fd st = st\<lparr>open_fds := remove1 fd (open_fds st)\<rparr>"

definition vt_device :: "int \<Rightarrow> c_string" where
  "vt_device ttyno = take 31 (''/dev/ttyv'' @ show_int ttyno)"

text \<open>From the label \<open>argtty\<close> on.\<close>

definition take_vt :: "vt_env \<Rightarrow> int \<Rightarrow> vt_launcher \<Rightarrow> vt_end \<times> vt_launcher" where
  "take_vt env ttyno st =
     (let name = vt_device ttyno;
          fd = vte_open env name;
          st = opens name fd st
      in
        if fd = - 1 then (Vt_failed, st)
        else
          (let st = does Get_mode (vte_kdgetmode env \<noteq> None) st in
           case vte_kdgetmode env of
             None \<Rightarrow> (Vt_failed, st)
           | Some kd_mode \<Rightarrow>
               if kd_mode \<noteq> KD_TEXT then (Vt_err_close, st)
               else
                 (let st = does (Activate_vt ttyno) (vte_activate env) st;
                      st = does (Wait_vt ttyno) (vte_waitactive env) st;
                      st = does Get_kbmode (vte_kdgkbmode env \<noteq> None) st
                  in
                    if vte_kdgkbmode env = None then (Vt_err_close, st)
                    else
                      (let st = does Set_graphics (vte_kdsetmode env = 0) st in
                       if vte_kdsetmode env \<noteq> 0 then (Vt_err_close, st)
                       else
                         (let st = does Take_control (0 \<le> vte_vt_setmode env) st in
                          if vte_vt_setmode env < 0 then (Vt_err_close, st)
                          else
                            (let st = does Watch_signal (vte_add_signal env) st in
                             if \<not> vte_add_signal env then (Vt_err_close, st)
                             else (Vt_taken, st)))))))"

definition launcher_setup_tty :: "vt_env \<Rightarrow> int \<Rightarrow> vt_launcher \<Rightarrow> vt_end \<times> vt_launcher" where
  "launcher_setup_tty env ttyno st =
     (if ttyno \<noteq> 0 then take_vt env ttyno st
      else
        (let fd = vte_open_ttyv0 env;
             st = opens ''/dev/ttyv0'' fd st
         in
           if fd = - 1 then (Vt_failed, st)
           else
             (let st = does Query_vt (vte_openqry env \<noteq> None) st in
              case vte_openqry env of
                None \<Rightarrow> (Vt_err_close, st)
              | Some ttyno \<Rightarrow> take_vt env ttyno (closes fd st))))"

section \<open>Lemmas\<close>

lemma vt_calls_simps [simp]:
  "open_fds (does c ok st) = open_fds st" "vt_calls (does c ok st) = vt_calls st @ [(c, ok)]"
  "open_fds (opens name fd st) = (if fd = - 1 then open_fds st else fd # open_fds st)"
  "vt_calls (opens name fd st) = vt_calls st @ [(Open_vt name, fd \<noteq> - 1)]"
  "vt_calls (closes fd st) = vt_calls st" "open_fds (closes fd st) = remove1 fd (open_fds st)"
  by (simp_all add: does_def opens_def closes_def Let_def)

text \<open>When the terminal can be taken: its device can be opened, it is in text mode, and the keyboard's mode
  can be read, the graphics mode set, the terminal's switches taken and the signal watched.\<close>

definition can_take :: "vt_env \<Rightarrow> int \<Rightarrow> bool" where
  "can_take env k \<longleftrightarrow> vte_open env (vt_device k) \<noteq> - 1 \<and> vte_kdgetmode env = Some 0 \<and> vte_kdgkbmode env \<noteq> None \<and>
     vte_kdsetmode env = 0 \<and> 0 \<le> vte_vt_setmode env \<and> vte_add_signal env"

definition taking_calls :: "vt_env \<Rightarrow> int \<Rightarrow> (vt_call \<times> bool) list" where
  "taking_calls env k =
     [(Open_vt (vt_device k), True), (Get_mode, True), (Activate_vt k, vte_activate env),
      (Wait_vt k, vte_waitactive env), (Get_kbmode, True), (Set_graphics, True), (Take_control, True),
      (Watch_signal, True)]"

lemma take_vt_outcome:
  "take_vt env ttyno st = (e, st') \<Longrightarrow>
   open_fds st' =
     (if vte_open env (vt_device ttyno) = - 1 then open_fds st else vte_open env (vt_device ttyno) # open_fds st) \<and>
   (e = Vt_failed \<longleftrightarrow> vte_open env (vt_device ttyno) = - 1 \<or> vte_kdgetmode env = None) \<and>
   (e = Vt_taken \<longleftrightarrow> can_take env ttyno) \<and>
   (e = Vt_taken \<longrightarrow> vt_calls st' = vt_calls st @ taking_calls env ttyno)"
  by (auto simp: take_vt_def can_take_def taking_calls_def KD_TEXT_def Let_def split: option.splits if_splits)

section \<open>Property\<close>

text \<open>C35: taking a terminal succeeds exactly when there is a number (that asked for, or a free one), its device
  can be opened and is in text mode, and the keyboard's mode can be read, the graphics mode set, the
  terminal's switches taken and the signal watched; then exactly one descriptor is open, the device's, and
  the calls were these, in this order, all successful but for the two that activate the terminal and wait
  for it, whose results are ignored.  It fails plainly exactly when a device cannot be opened or the mode not
  be read, and leaves a descriptor open in the latter case only; every other failure goes to \<open>err_close\<close>.
  The device has the number of the terminal, although terminals count from 1 and devices from 0: it is
  that of the next terminal in the numbering of \<^verbatim>\<open>weston-launch\<close>.\<close>

theorem launcher_tty_outcome:
  assumes "launcher_setup_tty env ttyno \<lparr>open_fds = [], vt_calls = []\<rparr> = (e, st)"
    "n = (if ttyno \<noteq> 0 then Some ttyno else if vte_open_ttyv0 env = - 1 then None else vte_openqry env)"
    "device = (\<lambda>k. vte_open env (vt_device k))"
  shows "(e = Vt_taken \<longleftrightarrow> (\<exists>k. n = Some k \<and> device k \<noteq> - 1 \<and> vte_kdgetmode env = Some 0 \<and>
        vte_kdgkbmode env \<noteq> None \<and> vte_kdsetmode env = 0 \<and> 0 \<le> vte_vt_setmode env \<and> vte_add_signal env)) \<and>
    (e = Vt_taken \<longrightarrow> (\<exists>k. n = Some k \<and> open_fds st = [device k] \<and>
        vt_calls st = (if ttyno = 0 then [(Open_vt ''/dev/ttyv0'', True), (Query_vt, True)] else []) @
          taking_calls env k)) \<and>
    (e = Vt_failed \<longleftrightarrow> (case n of
        None \<Rightarrow> vte_open_ttyv0 env = - 1
      | Some k \<Rightarrow> device k = - 1 \<or> vte_kdgetmode env = None)) \<and>
    (e = Vt_failed \<longrightarrow> open_fds st =
       (case n of None \<Rightarrow> [] | Some k \<Rightarrow> if device k \<noteq> - 1 then [device k] else [])) \<and>
    (e = Vt_err_close \<longrightarrow> open_fds st = [case n of None \<Rightarrow> vte_open_ttyv0 env | Some k \<Rightarrow> device k]) \<and>
    (0 \<le> k \<and> k < 100000 \<longrightarrow> vt_device k = tty_name (k + 1))"
proof -
  have "length (show_int k) \<le> 6" if "0 \<le> k" "k < 100000" using that length_show_int [of k 5] by simp
  then have name: "0 \<le> k \<and> k < 100000 \<longrightarrow> vt_device k = tty_name (k + 1)"
    by (auto simp: vt_device_def tty_name_def)
  show ?thesis
  proof (cases n)
    case None
    then show ?thesis
      using assms name by (auto simp: launcher_setup_tty_def Let_def split: option.splits if_splits)
  next
    case (Some k0)
    then obtain st0 where "take_vt env k0 st0 = (e, st)" "open_fds st0 = []"
      "vt_calls st0 = (if ttyno = 0 then [(Open_vt ''/dev/ttyv0'', True), (Query_vt, True)] else [])"
      using assms(1,2) by (fastforce simp: launcher_setup_tty_def Let_def split: option.splits if_splits)
    then show ?thesis
      using take_vt_outcome [of env k0 st0 e st] Some name assms(3)
      by (cases e) (auto simp: can_take_def split: if_splits)
  qed
qed

definition vt_sample :: vt_env where
  "vt_sample =
    \<lparr>vte_open_ttyv0 = 3, vte_openqry = Some 2, vte_open = (\<lambda>_. 4), vte_kdgetmode = Some 0, vte_activate = True,
     vte_waitactive = True, vte_kdgkbmode = Some 1, vte_kdsetmode = 0, vte_vt_setmode = 0, vte_add_signal = True\<rparr>"

lemma launcher_tty_outcome_witness:
  "\<exists>st. launcher_setup_tty vt_sample 0 \<lparr>open_fds = [], vt_calls = []\<rparr> = (Vt_taken, st) \<and> open_fds st = [4]"
proof -
  obtain e st where r: "launcher_setup_tty vt_sample 0 \<lparr>open_fds = [], vt_calls = []\<rparr> = (e, st)" by fastforce
  from launcher_tty_outcome [OF r refl refl] r show ?thesis by (auto simp: vt_sample_def)
qed

end
