(* ===== verification/Htop_Env.thy ===== *)
theory Htop_Env
  imports Prelude
begin

text \<open>
  The environment of a process in htop: \<^verbatim>\<open>sysutils/htop/dragonfly/patch-dragonflybsd_Platform.c\<close> and
  \<^verbatim>\<open>patch-dragonflybsd_DragonFlyBSDProcessTable.c\<close>.

  The code takes the strings to lie one behind the other with an empty one after the last, adds up their
  lengths and copies them.  \<open>libkvm\<close> documents a vector of pointers only, so that layout is an assumption of
  the code, and of the lemma on it below.  Memory is the list of the bytes from the first string on; reading past its
  end is a fault.  Whether the strings are still there after \<open>kvm_close\<close> is up to \<open>libkvm\<close>, and an argument.
\<close>

datatype env_fault = Read_past_end | Closed_storage | Null_process

definition NUL :: char where
  "NUL = CHR 0x00"

text \<open>What \<open>libkvm\<close> returns: whether it opens, the process, the vector of its environment (\<open>None\<close> is \<open>NULL\<close>) and
  the bytes at its first entry, and whether closing keeps them.\<close>

record kvm_env =
  kv_opens :: bool
  kv_process :: bool
  kv_envv :: "char list option option"
  kv_keeps :: bool

text \<open>\<open>DragonFlyBSDGet_env\<close>: \<open>None\<close> is \<open>NULL\<close>, \<open>Some None\<close> a vector whose first entry is \<open>NULL\<close>.\<close>

definition DragonFlyBSDGet_env :: "kvm_env \<Rightarrow> env_fault + char list option option" where
  "DragonFlyBSDGet_env kv =
     (if \<not> kv_opens kv then Inr None
      else if \<not> kv_process kv then Inl Null_process
      else
        (case kv_envv kv of
           None \<Rightarrow> Inr None
         | Some p \<Rightarrow> if kv_keeps kv then Inr (Some p) else Inl Closed_storage))"

text \<open>The loop over the strings at \<open>ptr\<close>: \<open>strlen\<close> is the length up to the first NUL.\<close>

function env_size :: "char list \<Rightarrow> nat \<Rightarrow> env_fault + nat" where
  "env_size ptr n =
     (case ptr of
        [] \<Rightarrow> Inl Read_past_end
      | c # _ \<Rightarrow>
          if c = NUL then Inr n
          else
            (let strlen = length (takeWhile (\<lambda>c. c \<noteq> NUL) ptr) in
             if strlen = length ptr then Inl Read_past_end
             else env_size (drop (strlen + 1) ptr) (n + (strlen + 1))))"
  by pat_completeness auto
termination by (relation "measure (length \<circ> fst)") auto

declare env_size.simps [simp del]

definition Platform_getProcessEnv :: "kvm_env \<Rightarrow> env_fault + char list option" where
  "Platform_getProcessEnv kv =
     (case DragonFlyBSDGet_env kv of
        Inl e \<Rightarrow> Inl e
      | Inr None \<Rightarrow> Inr None
      | Inr (Some None) \<Rightarrow> Inr (Some [NUL, NUL])
      | Inr (Some (Some ptr)) \<Rightarrow>
          (case env_size ptr 0 of
             Inl e \<Rightarrow> Inl e
           | Inr n \<Rightarrow> Inr (Some (take n ptr @ [NUL, NUL]))))"

section \<open>Blocks of strings\<close>

text \<open>Strings one behind the other, and reading them back up to an empty one.\<close>

definition env_block :: "char list list \<Rightarrow> char list" where
  "env_block es = concat (map (\<lambda>e. e @ [NUL]) es)"

function read_block :: "char list \<Rightarrow> char list list" where
  "read_block s =
     (if s = [] \<or> hd s = NUL then []
      else takeWhile (\<lambda>c. c \<noteq> NUL) s # read_block (tl (dropWhile (\<lambda>c. c \<noteq> NUL) s)))"
  by pat_completeness auto
termination
  by (relation "measure length")
    (auto simp: neq_Nil_conv intro: le_less_trans [OF diff_le_self le_imp_less_Suc [OF length_dropWhile_le]])

declare read_block.simps [simp del]

definition env_strings :: "char list list \<Rightarrow> bool" where
  "env_strings es \<longleftrightarrow> (\<forall>e \<in> set es. e \<noteq> [] \<and> NUL \<notin> set e)"

lemma until_NUL:
  "NUL \<notin> set e \<Longrightarrow> takeWhile (\<lambda>c. c \<noteq> NUL) (e @ NUL # r) = e \<and> dropWhile (\<lambda>c. c \<noteq> NUL) (e @ NUL # r) = NUL # r"
  by (induction e) auto

lemma read_block_block: "env_strings es \<Longrightarrow> read_block (env_block es @ NUL # r) = es"
proof (induction es)
  case Nil
  then show ?case by (simp add: env_block_def read_block.simps)
next
  case (Cons e es)
  then have e: "e \<noteq> []" "NUL \<notin> set e" "hd e \<noteq> NUL" by (auto simp: env_strings_def dest: hd_in_set)
  with Cons until_NUL [OF e(2), of "env_block es @ NUL # r"] show ?case
    by (subst read_block.simps) (simp add: env_block_def env_strings_def)
qed

lemma env_size_block: "env_strings es \<Longrightarrow> env_size (env_block es @ NUL # r) n = Inr (n + length (env_block es))"
proof (induction es arbitrary: n)
  case Nil
  then show ?case by (simp add: env_block_def env_size.simps)
next
  case (Cons e es)
  then obtain c cs where e: "e = c # cs" "c \<noteq> NUL" "NUL \<notin> set e" by (cases e) (auto simp: env_strings_def)
  with Cons until_NUL [OF e(3), of "env_block es @ NUL # r"] show ?case
    by (subst env_size.simps) (simp add: env_block_def env_strings_def ac_simps)
qed

section \<open>Property\<close>

text \<open>On the layout that the code assumes the environment can be read back: on strings that are not empty the
  copy ends with an empty one and gives the same strings in the same order, nothing is read behind them, and a
  process without strings gives none; but only where \<open>libkvm\<close> keeps the strings of a closed handle, and
  otherwise freed memory is read.\<close>

theorem htop_env_roundtrip:
  assumes "env_strings es" "kv_opens kv" "kv_process kv" "kv_envv kv = Some (Some (env_block es @ NUL # r))"
  shows "if kv_keeps kv then
      (\<exists>env. Platform_getProcessEnv kv = Inr (Some env) \<and> env = env_block es @ [NUL, NUL] \<and> read_block env = es)
    else Platform_getProcessEnv kv = Inl Closed_storage"
  using assms env_size_block [OF assms(1), of r 0] read_block_block [OF assms(1), of "[NUL]"]
  by (simp add: Platform_getProcessEnv_def DragonFlyBSDGet_env_def)

definition kvm_sample :: kvm_env where
  "kvm_sample =
    \<lparr>kv_opens = True, kv_process = True, kv_envv = Some (Some (env_block [''A=1'', ''B=2''] @ [NUL])), kv_keeps = True\<rparr>"

lemma htop_env_roundtrip_witness:
  "\<exists>env. Platform_getProcessEnv kvm_sample = Inr (Some env) \<and> read_block env = [''A=1'', ''B=2'']"
proof -
  have "env_strings [''A=1'', ''B=2'']" by (simp add: env_strings_def NUL_def)
  from htop_env_roundtrip [OF this, of kvm_sample "[]"] show ?thesis by (auto simp: kvm_sample_def)
qed

end
