(* ===== verification/Spec2Isabelle.thy ===== *)
theory Spec2Isabelle
  imports Index_Main Http_Main Kgdb_Main Loop_Sources Gdb_Dfly
    Weston_Input Weston_Launch Forkfd Psutil_Proc Psutil_Socks Psutil_Files Psutil_System Fido_Hid
    Mesa_Futex Spamd_Sha1 Qemu_Pcap Umtx_Waits Map_Files Gdb_Native Anon_Files Mailest_Tree Proc_States
    Evdev_Loop Conmon_Bind Host_Queries Epoll_Cancel Launcher_Vt Htop_Env
begin

text \<open>
  A verification development for the C code of DeltaPorts.

  DeltaPorts is an overlay of ports for DragonFly BSD.  Most of it is Makefiles, shell scripts and small
  patches; the C code with logic of its own is modelled here: the two programs of \<^verbatim>\<open>scripts/portsnap\<close>,
  the kernel debugger \<open>kgdb\<close> of \<^verbatim>\<open>ports/devel/gdb761\<close>, the event loop that
  \<^verbatim>\<open>ports/graphics/wayland\<close> puts on kqueue, gdb's tables for DragonFly in \<^verbatim>\<open>ports/devel/gdb\<close>, and the
  parts for DragonFly that the ports of weston, Qt, hwloc, psutil, libfido2, mesa, spamd, qemu and some
  twenty others add as files or long hunks.  The programs do not call each other; within each, the theories follow the order of the code.

  \<^bold>\<open>Conventions.\<close>  A C string is the list of its bytes before the NUL.  A routine that can exit, fail or run
  into undefined behaviour returns \<open>Inl\<close> with a constructor that says which, \<open>Inr\<close> with its result
  otherwise; a variable that C leaves unset is such an error (\<open>Undefined\<close>, \<open>Indeterminate\<close>), never an
  arbitrary value.  State is a record that each operation returns updated.  Integers are words where the
  width matters (addresses, the Base64 accumulator, the HTTP status code), unbounded otherwise.  What is
  not in the repository (the kernel, libc's files and sockets, \<open>libkvm\<close>, gdb, BFD, the heap of the wayland
  loop) is an argument; what a theorem needs of it is a named hypothesis with a witness.  \<open>malloc\<close> is taken
  to succeed unless the text of a theory says otherwise.

  \<^bold>\<open>Shared.\<close>  \<open>Prelude\<close>: bytes, \<open>strsep\<close>, \<open>strcmp\<close> and their lemmas, decimal printing and \<open>strtol\<close>,
  the pieces of a separated line, the length of a printed number, lines of a file, files that are read in
  pieces, conversion to \<open>int\<close>, swapping in a list.

  \<^bold>\<open>make_index\<close> (\<^verbatim>\<open>make_index.c\<close>: from the ports' describe lines to the INDEX file).
  \<^item> \<open>Heap_Sort\<close>: the heap sort of steps 2 and 5 over an order given by the locale \<open>sort_order\<close>; it sorts and
    permutes.
  \<^item> \<open>Index_Describe\<close>: \<open>makelist\<close> and \<open>portify\<close>; which lines are accepted, and that a written line is read
    back.
  \<^item> \<open>Index_Sort\<close>: \<open>portcompare\<close> is the order of paths by components, \<open>heapifyports\<close> (an interpretation of
    \<open>sort_order\<close>), the binary search \<open>findport\<close>, the translation of names into indices.
  \<^item> \<open>Index_Closure\<close>: \<open>recurse_one\<close> and \<open>recurse\<close> as a depth-first search with three colours; the invariant
    of the search, the closure of each dependency list, the error exactly on a cycle.  Fuel bounds the
    nesting of calls; one more than the number of ports is enough.
  \<^item> \<open>Index_Main\<close>: sorting by package name, printing, \<open>main\<close>; the whole run, and that it always ends.

  \<^bold>\<open>phttpget\<close> (\<^verbatim>\<open>phttpget.c\<close>: fetching files over pipelined HTTP).
  \<^item> \<open>Http_Auth\<close>: the Base64 encoder on its 32-bit accumulator, the environment, the request's text.
  \<^item> \<open>Http_Stream\<close>: \<open>readln\<close> and \<open>copybytes\<close> over a script of what \<open>recv\<close> and \<open>write\<close> return; no byte is lost
    or doubled.
  \<^item> \<open>Http_Response\<close>: status line, headers, and the three kinds of bodies.
  \<^item> \<open>Http_Main\<close>: connecting, sending, receiving, retrying; what a run stores, a bound on its attempts, and
    that over all reconnections no file is finished twice and none but those asked for is touched.  Each
    connection delivers a finite script.

  \<^bold>\<open>kgdb\<close> (\<^verbatim>\<open>newport/files/kgdb\<close>).
  \<^item> \<open>Kgdb_Threads\<close> (\<^verbatim>\<open>kthr.c\<close>): the list of kernel threads read from a dump.  The record \<open>dump\<close> is what the
    reads give.  The list walk has fuel, as a damaged list may run in a circle; the length of the longest
    chain is enough.  The entries of the list, the invariant of \<open>curkthr\<close>, and the size of the text buffer.
  \<^item> \<open>Kgdb_Target\<close> (\<^verbatim>\<open>trgt.c\<close>, \<^verbatim>\<open>trgt_x86_64.c\<close>): opening a dump and registering its threads with gdb, the
    commands \<open>proc\<close> and \<open>tid\<close>, registers, trap frames.
  \<^item> \<open>Kgdb_Klds\<close> (\<^verbatim>\<open>kld.c\<close>): the search for a module's file, the kernel linker's list (with fuel, the list's
    length is enough), the placement of sections.
  \<^item> \<open>Kgdb_Main\<close> (\<^verbatim>\<open>kgdb.c\<close>): the command line, the kernel for a dump, the message buffer.  It builds on the
    other three; \<open>kgdb_new_objfile\<close> issues the command that ends in \<open>kgdb_trgt_open\<close>.

  \<^bold>\<open>The wayland event loop\<close> (\<^verbatim>\<open>patch-src_event-loop.c\<close>).
  \<^item> \<open>Loop_Kqueue\<close>: the locale \<open>kqueue\<close>, what \<open>kevent(2)\<close> promises, with lemmas on change lists, interpreted on
    a table of knotes.
  \<^item> \<open>Loop_Timers\<close>: the one kernel timer for the heap of timers; rounding, which timers are
    handed out, and exactly when the dispatch fails.
  \<^item> \<open>Loop_Sources\<close>: descriptors and signals, removal, a round of dispatching.  The step relation \<open>loop_step\<close>
    and its reachable states keep \<open>signal_ok\<close>, and the signal sources refine the set of pairs \<open>watchers\<close>.
    \<open>keeps_rest\<close> is what a callback must leave alone, and which of the loop's operations do.  Fuel for dispatching a signal is the length of the signal list.

  \<^bold>\<open>gdb for DragonFly\<close> (\<^verbatim>\<open>dfly-tdep.c\<close>, \<^verbatim>\<open>amd64-dfly-tdep.c\<close>, \<^verbatim>\<open>i386-dfly-tdep.c\<close>, \<^verbatim>\<open>amd64-dfly-nat.c\<close>).
  \<^item> \<open>Gdb_Dfly\<close>: the signal tables are inverse to each other, the register tables fit the structures.
  \<^item> \<open>Gdb_Native\<close> (\<^verbatim>\<open>amd64dfly-nat.c\<close>, \<^verbatim>\<open>i386dfly-nat.c\<close> and the two \<^verbatim>\<open>-tdep.c\<close> of gdb 7.6.1, \<^verbatim>\<open>amd64-dfly-nat.c\<close>):
    registers from a switch frame, resuming without the trace flag, the offsets and the trampoline that
    start-up takes from the system, target descriptions, event masks; over the tables of \<open>Gdb_Dfly\<close>.
  \<^item> \<open>Map_Files\<close> (\<^verbatim>\<open>dfly-nat.c\<close>, and the JDK's \<^verbatim>\<open>OperatingSystemImpl.c\<close>): reading \<^verbatim>\<open>/proc/PID/map\<close> down to the
    conversions of \<open>sscanf\<close> and \<open>fscanf\<close>; on the kernel's text the two readers agree with it and with each other.

  \<^bold>\<open>weston\<close> (\<^verbatim>\<open>weston/newport/files\<close>: the compositor without udev and logind).
  \<^item> \<open>Weston_Kbdev\<close> (\<^verbatim>\<open>patch-src_kbdev.c\<close>): scan codes, the array of keys that are down, reading and popping.
    The state's type, reading as a refinement of the list of keys that are down, and that no key stays
    down after popping.  The locale \<open>downward_copy\<close> is what the overlapping \<open>memcpy\<close> must do.
  \<^item> \<open>Weston_Input\<close> (\<^verbatim>\<open>patch-src_compositor-drm.c\<close>): the handlers of keyboard and mouse, and the input's life
    over a session; it calls \<open>Weston_Kbdev\<close>.
  \<^item> \<open>Weston_Launch\<close> (\<^verbatim>\<open>patch-src_weston-launch.c\<close>): the privileged launcher, requests for devices, leaving
    and entering the terminal, and taking it.  \<open>launch_run\<close> is any sequence of requests and signals.
  \<^item> \<open>Launcher_Vt\<close> (\<^verbatim>\<open>patch-src_launcher-util.c\<close>): taking a terminal without the launcher; when each way out is taken
    and what it leaves open, compared with \<open>Weston_Launch\<close>.

  \<^bold>\<open>Processes, CPUs and devices.\<close>
  \<^item> \<open>Forkfd\<close> (qt6-base, \<^verbatim>\<open>forkfd_dragonfly.c\<close>): parent and child after a \<open>fork\<close> as a step relation over the
    locale \<open>exit_queue\<close>; no exit is missed, the two never wait for each other for ever, waiting refines a
    process with three states.
  \<^item> \<open>Cpu_Masks\<close> (hwloc2, \<^verbatim>\<open>topology-dragonfly.c\<close>): the locale \<open>cpu_mask\<close>, interpreted on 256-bit words; masks
    and bitmaps, binding.
  \<^item> \<open>Psutil_Refs\<close>: the references to Python objects that a run takes and gives back, and the loop that most
    functions of psutil share.
  \<^item> \<open>Psutil_Proc\<close> (\<^verbatim>\<open>psutil_arch_dragonfly_proc.c\<close>): arguments, executable, threads, directory and CPUs of a
    process, over \<open>Psutil_Refs\<close> and the masks of \<open>Cpu_Masks\<close>.
  \<^item> \<open>Psutil_Socks\<close> (\<^verbatim>\<open>psutil_arch_dragonfly_sys_socks.c\<close>): the walks over the kernel's lists of sockets.
  \<^item> \<open>Psutil_Files\<close> (\<^verbatim>\<open>psutil_arch_bsd_proc.c\<close>): the open files of a process, from its directory in \<^verbatim>\<open>/proc\<close>.
  \<^item> \<open>Psutil_System\<close> (\<^verbatim>\<open>cpu.c\<close>, \<^verbatim>\<open>mem.c\<close>, \<^verbatim>\<open>disk.c\<close>, \<^verbatim>\<open>sensors.c\<close>, \<^verbatim>\<open>pids.c\<close>): the figures of the whole system; their
    references, and which CPU numbers fit the buffers for names.
  \<^item> \<open>Fido_Hid\<close> (libfido2, \<^verbatim>\<open>hid_dragonfly.c\<close>): which keys are listed, and reading and writing whole reports.
  \<^item> \<open>Mesa_Futex\<close> (mesa26-dri, \<^verbatim>\<open>futex.c\<close>): a deadline as an interval of microseconds, with the arithmetic's
    overflow as a fault.
  \<^item> \<open>Spamd_Sha1\<close> (spamd, \<^verbatim>\<open>sha1hl_compat.h\<close>): the hash of a part of a file as text, over the locale
    \<open>sha1_digest\<close>; the loop over \<open>read\<close> is a partial function, as it need not end.
  \<^item> \<open>Qemu_Pcap\<close> (qemu60, \<^verbatim>\<open>net.c\<close>): the network card over libpcap, with the state of its handle.

  \<^bold>\<open>Smaller pieces.\<close>  One function or a few in each port.
  \<^item> \<open>Umtx_Waits\<close> (libdispatch, \<^verbatim>\<open>lock.c\<close>; mesa-dri, \<^verbatim>\<open>futex.h\<close>; lace): waiting on an address, with the time values of
    \<open>Mesa_Futex\<close>; the loops are partial functions, and a theorem says exactly when they end.
  \<^item> \<open>Anon_Files\<close> (xdg-desktop-portal, pipewire, arcan): files without a name, over the set of names that exist, and
    the portal's copy.
  \<^item> \<open>Mailest_Tree\<close> (mailest): the search for the first larger element, over the locale \<open>compar_order\<close>, interpreted
    on \<open>strcmp\<close>; it refines a search of the ordered list.
  \<^item> \<open>Proc_States\<close> (xfce4-taskmanager, libgtop, zabbix, collectd): what four programs make of a process's state,
    and that their counts agree where they should.
  \<^item> \<open>Epoll_Cancel\<close> (libepoll-shim): a wait whose thread may be cancelled gives back what it holds on each way out.
  \<^item> \<open>Htop_Env\<close> (htop): copying the environment of a process, on the layout of the strings that the code assumes.
  \<^item> \<open>Evdev_Loop\<close> (libevdev): the loop of the tools over kqueue; a run handles all events and ends with the signal.
  \<^item> \<open>Conmon_Bind\<close> (conmon): binding in a directory, which refines \<open>bindat\<close>.
  \<^item> \<open>Host_Queries\<close> (libndp, diskperf, mesa26, python314, xorg-server, wayland): functions that ask the system
    for one thing.

  \<^bold>\<open>Properties that show a defect.\<close>  Some theorems state what the code does where it does not do what it
  means to: only the first chunk of a chunked body is stored; the last Base64 group is padded one short;
  \<open>kgdb_dmesg\<close> prints nothing of a wrapped buffer; a second dump that cannot be listed leads to a freed
  thread; a bare \<open>kgdb kernel\<close> tests an unset pointer; the text of a 64-bit thread address is cut; an update
  of a descriptor's mask never removes a filter; a deadline that passes between two clock readings loses
  the due timers; a callback that removes the next source breaks the iteration; the 32-bit register table
  does not agree with the 64-bit one; the launcher takes a mouse for the graphics card, and reads a freed
  name when two devices match; only the first packet of a read of the mouse is checked; the DRM backend
  cannot be destroyed while its session is away; psutil never returns a list of connections, releases
  the addresses of the last connection twice, leaks a reference for each CPU, frees a pointer that was never set, counts microseconds
  a million times too much and writes past a buffer for CPU 100; qemu's card is closed again after it could
  not be opened; the hash of a file that has become shorter is never returned.  Some lemmas do so as well: libgtop
  takes every active process for a zombie, a limit of 0 becomes none in the futexes of mesa-dri,
  the disk's busy time ignores seconds, a large limit of descriptors hides them all.  Without its launcher, weston
  opens the terminal after the one that it activates; htop reads strings of a closed handle.

  \<^bold>\<open>Not modelled.\<close>  In the modelled files: the text of warnings, registration calls whose only effect is to
  fill a table of function pointers, socket options, and, in the wayland patch, what its hunks show only
  in part (the wait loop with its remaining timeout, \<open>post_dispatch_check\<close>, idle sources, the destroy
  list) and in weston's launcher (the reply's text, the socket, quitting, \<open>main\<close>).  Outside them: code
  under \<open>#if 0\<close>; the patches of a few lines to other people's programs, which cannot be read without the
  programs, the rest of those for weston among them; the shell scripts, Makefiles and headers.
\<close>

end
